(* ===== verification/Nng_Prelude.thy ===== *)
theory Nng_Prelude
  imports Main "HOL-Library.Word"
begin

text \<open>
  Shared vocabulary of the development: the fixed-width integers of the C code, the error
  numbers of \<^verbatim>\<open>include/nng/nng.h\<close>, the big-endian accessors \<^verbatim>\<open>NNI_PUT16\<close> and friends of
  \<^verbatim>\<open>src/core/defs.h\<close>, a byte-level \<^verbatim>\<open>memcpy\<close> on buffers modelled as byte lists, and the
  generic list and word lemmas the component theories use.
\<close>

unbundle bit_operations_syntax

section \<open>Machine types\<close>

type_synonym u8 = "8 word"
type_synonym u16 = "16 word"
type_synonym u32 = "32 word"
type_synonym u64 = "64 word"

type_synonym bytes = "u8 list"

text \<open>
  The memory allocator is platform code that may refuse a request. It appears in the model as
  a predicate on sizes: \<open>al n\<close> says that an allocation of \<open>n\<close> bytes (or entries) succeeds.
\<close>

type_synonym allocator = "nat \<Rightarrow> bool"

text \<open>Unsigned integers kept as natural numbers are reduced to their width where they can leave it.\<close>

definition wrap32 :: "nat \<Rightarrow> nat" where "wrap32 n = n mod 2 ^ 32"
definition wrap64 :: "nat \<Rightarrow> nat" where "wrap64 n = n mod 2 ^ 64"

lemma wrap32_id [simp]: "n < 2 ^ 32 \<Longrightarrow> wrap32 n = n"
  by (simp add: wrap32_def)

named_theorems wire \<open>reading back what the big-endian accessors wrote\<close>

section \<open>Error numbers\<close>

abbreviation NNG_ENOMEM :: int where "NNG_ENOMEM \<equiv> 2"
abbreviation NNG_EINVAL :: int where "NNG_EINVAL \<equiv> 3"
abbreviation NNG_EAGAIN :: int where "NNG_EAGAIN \<equiv> 8"
abbreviation NNG_ENOENT :: int where "NNG_ENOENT \<equiv> 12"
abbreviation NNG_EMSGSIZE :: int where "NNG_EMSGSIZE \<equiv> 17"

section \<open>Big-endian accessors (\<^verbatim>\<open>src/core/defs.h\<close>)\<close>

definition NNI_PUT16 :: "u16 \<Rightarrow> bytes" where
  "NNI_PUT16 u = [ucast (drop_bit 8 u), ucast u]"

definition NNI_PUT32 :: "u32 \<Rightarrow> bytes" where
  "NNI_PUT32 u = [ucast (drop_bit 24 u), ucast (drop_bit 16 u), ucast (drop_bit 8 u), ucast u]"

definition NNI_PUT64 :: "u64 \<Rightarrow> bytes" where
  "NNI_PUT64 u =
     [ucast (drop_bit 56 u), ucast (drop_bit 48 u), ucast (drop_bit 40 u), ucast (drop_bit 32 u),
      ucast (drop_bit 24 u), ucast (drop_bit 16 u), ucast (drop_bit 8 u), ucast u]"

text \<open>
  The readers take the buffer and the offset of the pointer into it. They are only applied
  where the code has checked that the bytes are there.
\<close>

definition NNI_GET16 :: "bytes \<Rightarrow> nat \<Rightarrow> u16" where
  "NNI_GET16 b i = push_bit 8 (ucast (b ! i)) + ucast (b ! (i + 1))"

definition NNI_GET32 :: "bytes \<Rightarrow> nat \<Rightarrow> u32" where
  "NNI_GET32 b i =
     push_bit 24 (ucast (b ! i)) + push_bit 16 (ucast (b ! (i + 1)))
     + push_bit 8 (ucast (b ! (i + 2))) + ucast (b ! (i + 3))"

definition NNI_GET64 :: "bytes \<Rightarrow> nat \<Rightarrow> u64" where
  "NNI_GET64 b i =
     push_bit 56 (ucast (b ! i)) + push_bit 48 (ucast (b ! (i + 1)))
     + push_bit 40 (ucast (b ! (i + 2))) + push_bit 32 (ucast (b ! (i + 3)))
     + push_bit 24 (ucast (b ! (i + 4))) + push_bit 16 (ucast (b ! (i + 5)))
     + push_bit 8 (ucast (b ! (i + 6))) + ucast (b ! (i + 7))"

lemma length_NNI_PUT [simp]:
  "length (NNI_PUT16 u) = 2" "length (NNI_PUT32 v) = 4" "length (NNI_PUT64 w) = 8"
  by (simp_all add: NNI_PUT16_def NNI_PUT32_def NNI_PUT64_def)

text \<open>
  A word is the sum of its low \<open>n\<close> bits and of the rest shifted back; this splits one byte off
  at a time.
\<close>

lemma word_split_byte:
  fixes w :: "'a::len word"
  assumes "8 \<le> LENGTH('a)"
  shows "push_bit 8 (drop_bit 8 w) + ucast (ucast w :: u8) = w"
proof -
  have "push_bit 8 (drop_bit 8 w) + ucast (ucast w :: u8)
      = push_bit 8 (drop_bit 8 w) OR ucast (ucast w :: u8)"
    by (rule disjunctive_add) (auto simp: bit_simps)
  also have "\<dots> = w"
    by (rule bit_word_eqI) (use assms in \<open>auto simp: bit_simps\<close>)
  finally show ?thesis .
qed

lemma GET16_PUT16_core:
  "push_bit 8 (ucast (ucast (drop_bit 8 u) :: u8)) + ucast (ucast u :: u8) = (u :: u16)"
proof -
  have "push_bit 8 (ucast (ucast (drop_bit 8 u) :: u8)) = push_bit 8 (drop_bit 8 u)"
    by (rule bit_word_eqI) (auto simp: bit_simps)
  then show ?thesis
    using word_split_byte [of u] by simp
qed

lemma GET32_PUT32_core:
  "push_bit 24 (ucast (ucast (drop_bit 24 u) :: u8)) + push_bit 16 (ucast (ucast (drop_bit 16 u) :: u8))
   + push_bit 8 (ucast (ucast (drop_bit 8 u) :: u8)) + ucast (ucast u :: u8) = (u :: u32)"
proof -
  let ?b = "\<lambda>n. ucast (ucast (drop_bit n u) :: u8) :: u32"
  have split: "push_bit 8 (drop_bit (n + 8) u) + ?b n = drop_bit n u" for n
    using word_split_byte [of "drop_bit n u"] by (simp add: drop_bit_drop_bit add.commute)
  have top: "?b 24 = drop_bit 24 u"
    by (rule bit_word_eqI) (auto simp: bit_simps dest: bit_imp_le_length)
  have "u = push_bit 8 (push_bit 8 (push_bit 8 (?b 24) + ?b 16) + ?b 8) + ?b 0"
    using split [of 16] split [of 8] split [of 0] top by simp
  also have "\<dots> = push_bit 24 (?b 24) + push_bit 16 (?b 16) + push_bit 8 (?b 8) + ?b 0"
    by (simp add: push_bit_add)
  finally show ?thesis by simp
qed

lemma GET64_PUT64_core:
  "push_bit 56 (ucast (ucast (drop_bit 56 u) :: u8)) + push_bit 48 (ucast (ucast (drop_bit 48 u) :: u8))
   + push_bit 40 (ucast (ucast (drop_bit 40 u) :: u8)) + push_bit 32 (ucast (ucast (drop_bit 32 u) :: u8))
   + push_bit 24 (ucast (ucast (drop_bit 24 u) :: u8)) + push_bit 16 (ucast (ucast (drop_bit 16 u) :: u8))
   + push_bit 8 (ucast (ucast (drop_bit 8 u) :: u8)) + ucast (ucast u :: u8) = (u :: u64)"
proof -
  let ?b = "\<lambda>n. ucast (ucast (drop_bit n u) :: u8) :: u64"
  have split: "push_bit 8 (drop_bit (n + 8) u) + ?b n = drop_bit n u" for n
    using word_split_byte [of "drop_bit n u"] by (simp add: drop_bit_drop_bit add.commute)
  have top: "?b 56 = drop_bit 56 u"
    by (rule bit_word_eqI) (auto simp: bit_simps dest: bit_imp_le_length)
  have "u = push_bit 8 (push_bit 8 (push_bit 8 (push_bit 8 (push_bit 8 (push_bit 8 (push_bit 8
      (?b 56) + ?b 48) + ?b 40) + ?b 32) + ?b 24) + ?b 16) + ?b 8) + ?b 0"
    using split [of 48] split [of 40] split [of 32] split [of 24] split [of 16] split [of 8]
      split [of 0] top by simp
  also have "\<dots> = push_bit 56 (?b 56) + push_bit 48 (?b 48) + push_bit 40 (?b 40)
      + push_bit 32 (?b 32) + push_bit 24 (?b 24) + push_bit 16 (?b 16) + push_bit 8 (?b 8) + ?b 0"
    by (simp add: push_bit_add)
  finally show ?thesis by simp
qed

text \<open>What a writer put into a buffer the reader gets back, wherever the bytes lie.\<close>

lemma NNI_GET16_PUT16 [wire]: "NNI_GET16 (pre @ NNI_PUT16 u @ post) (length pre) = u"
  by (simp add: NNI_GET16_def NNI_PUT16_def nth_append GET16_PUT16_core)

lemma NNI_GET32_PUT32 [wire]: "NNI_GET32 (pre @ NNI_PUT32 u @ post) (length pre) = u"
  by (simp add: NNI_GET32_def NNI_PUT32_def nth_append GET32_PUT32_core)

lemma NNI_GET64_PUT64 [wire]: "NNI_GET64 (pre @ NNI_PUT64 u @ post) (length pre) = u"
  by (simp add: NNI_GET64_def NNI_PUT64_def nth_append GET64_PUT64_core)

lemma bit_u8_beyond: "\<not> bit (x :: u8) (8 + n)"
  by (auto dest: bit_imp_le_length)

lemma NNI_PUT16_GET16 [wire]: "NNI_PUT16 (NNI_GET16 b i) = [b ! i, b ! (i + 1)]"
proof -
  have "push_bit 8 (ucast x) + ucast y = (push_bit 8 (ucast x) OR ucast y :: u16)" for x y :: u8
    by (rule disjunctive_add) (auto simp: bit_simps dest: bit_imp_le_length)
  then show ?thesis
    by (auto simp: NNI_PUT16_def NNI_GET16_def bit_simps bit_u8_beyond intro!: bit_word_eqI)
qed

section \<open>Buffers as byte lists\<close>

text \<open>
  \<open>memcpy_at b off d\<close> is \<^verbatim>\<open>memcpy (b + off, d, length d)\<close>. A copy that stays inside the
  buffer keeps its length, which the buffer invariants of the components state.
\<close>

definition memcpy_at :: "'a list \<Rightarrow> nat \<Rightarrow> 'a list \<Rightarrow> 'a list" where
  "memcpy_at b off d = take off b @ d @ drop (off + length d) b"

text \<open>The \<open>n\<close> bytes that start at \<open>off\<close>.\<close>

definition bslice :: "nat \<Rightarrow> nat \<Rightarrow> 'a list \<Rightarrow> 'a list" where
  "bslice off n b = take n (drop off b)"

lemma length_bslice [simp]: "length (bslice off n b) = min n (length b - off)"
  by (simp add: bslice_def)

lemma length_memcpy_at [simp]:
  "off + length d \<le> length b \<Longrightarrow> length (memcpy_at b off d) = length b"
  by (simp add: memcpy_at_def)

lemma bslice_0 [simp]: "bslice off 0 b = []"
  by (simp add: bslice_def)

lemma bslice_memcpy_same [simp]:
  "off + length d \<le> length b \<Longrightarrow> bslice off (length d) (memcpy_at b off d) = d"
  by (simp add: bslice_def memcpy_at_def)

lemma bslice_memcpy_extend:
  "p + n + length d \<le> length b \<Longrightarrow>
   bslice p (n + length d) (memcpy_at b (p + n) d) = bslice p n b @ d"
  by (cases d) (auto simp: bslice_def memcpy_at_def drop_take min_def)

lemma bslice_memcpy_front:
  "p + length d + n \<le> length b \<Longrightarrow>
   bslice p (length d + n) (memcpy_at b p d) = d @ bslice (p + length d) n b"
  by (simp add: bslice_def memcpy_at_def)

lemma take_bslice: "m \<le> n \<Longrightarrow> take m (bslice p n b) = bslice p m b"
  by (simp add: bslice_def min_def)

lemma drop_bslice: "drop m (bslice p n b) = bslice (p + m) (n - m) b"
  by (simp add: bslice_def drop_take add.commute)

lemma bslice_full [simp]: "bslice 0 (length b) b = b"
  by (simp add: bslice_def)

lemma bslice_Cons: "i < length p \<Longrightarrow> bslice i (Suc n) p = p ! i # bslice (Suc i) n p"
  by (simp add: bslice_def Cons_nth_drop_Suc [symmetric])

end
