(* ===== verification/Message.thy ===== *)
theory Message
  imports Nng_Prelude
begin

text \<open>
  The message component, \<^verbatim>\<open>src/core/message.c\<close>: growable byte chunks with head and tail
  room, messages with a fixed header area and a chunk as body, and the reference counts that
  let a message be shared. A chunk keeps the buffer it allocated and an offset into it where
  the C code keeps two pointers; \<open>chunk_data\<close> reads the bytes it stands for, and the lemmas
  say what every operation does to them.
\<close>

section \<open>Chunks\<close>

subsection \<open>State and operations\<close>

text \<open>
  \<open>ch_ptr\<close> is the offset of the data pointer from \<open>ch_buf\<close>; \<open>None\<close> is the null pointer of a
  freshly zeroed chunk.
\<close>

record nni_chunk =
  ch_cap :: nat
  ch_len :: nat
  ch_buf :: bytes
  ch_ptr :: "nat option"

definition zero_chunk :: nni_chunk where
  "zero_chunk = \<lparr>ch_cap = 0, ch_len = 0, ch_buf = [], ch_ptr = None\<rparr>"

definition ch_off :: "nni_chunk \<Rightarrow> nat" where
  "ch_off ch = (case ch_ptr ch of None \<Rightarrow> 0 | Some p \<Rightarrow> p)"

text \<open>The pointer is set and points inside the backing store.\<close>

definition ptr_inside :: "nni_chunk \<Rightarrow> bool" where
  "ptr_inside ch = (case ch_ptr ch of None \<Rightarrow> False | Some p \<Rightarrow> p < ch_cap ch)"

definition chunk_data :: "nni_chunk \<Rightarrow> bytes" where
  "chunk_data ch = bslice (ch_off ch) (ch_len ch) (ch_buf ch)"

definition nni_chunk_grow :: "allocator \<Rightarrow> nni_chunk \<Rightarrow> nat \<Rightarrow> nat \<Rightarrow> int \<times> nni_chunk" where
  "nni_chunk_grow al ch newsz0 headwanted0 =
     (let newsz = (if newsz0 < ch_len ch then ch_len ch else newsz0) in
      if ptr_inside ch then
        (let headroom = ch_off ch;
             headwanted = (if headwanted0 < headroom then headroom else headwanted0) in
         if newsz + headwanted \<le> ch_cap ch \<and> headwanted \<le> headroom then (0, ch)
         else
           (let newsz' = (if newsz < ch_cap ch - headroom then ch_cap ch - headroom else newsz) in
            if \<not> al (newsz' + headwanted) then (NNG_ENOMEM, ch)
            else
              (let newbuf = replicate (newsz' + headwanted) 0;
                   newbuf' = (if ch_len ch > 0
                              then memcpy_at newbuf headwanted (chunk_data ch) else newbuf) in
               (0, ch\<lparr>ch_buf := newbuf', ch_ptr := Some headwanted,
                      ch_cap := newsz' + headwanted\<rparr>))))
      else if newsz + headwanted0 \<ge> ch_cap ch then
        (if \<not> al (newsz + headwanted0) then (NNG_ENOMEM, ch)
         else (0, ch\<lparr>ch_cap := newsz + headwanted0,
                     ch_buf := replicate (newsz + headwanted0) 0,
                     ch_ptr := Some headwanted0\<rparr>))
      else (0, ch\<lparr>ch_ptr := Some headwanted0\<rparr>))"

definition nni_chunk_free :: "nni_chunk \<Rightarrow> nni_chunk" where
  "nni_chunk_free ch = ch\<lparr>ch_ptr := None, ch_buf := [], ch_len := 0, ch_cap := 0\<rparr>"

definition nni_chunk_clear :: "nni_chunk \<Rightarrow> nni_chunk" where
  "nni_chunk_clear ch = ch\<lparr>ch_len := 0\<rparr>"

definition nni_chunk_chop :: "nni_chunk \<Rightarrow> nat \<Rightarrow> int \<times> nni_chunk" where
  "nni_chunk_chop ch len =
     (if ch_len ch < len then (NNG_EINVAL, ch) else (0, ch\<lparr>ch_len := ch_len ch - len\<rparr>))"

definition nni_chunk_trim :: "nni_chunk \<Rightarrow> nat \<Rightarrow> int \<times> nni_chunk" where
  "nni_chunk_trim ch len =
     (if ch_len ch < len then (NNG_EINVAL, ch)
      else
        (let ch1 = ch\<lparr>ch_len := ch_len ch - len\<rparr> in
         (0, if ch_len ch1 \<noteq> 0 then ch1\<lparr>ch_ptr := Some (ch_off ch1 + len)\<rparr> else ch1)))"

definition nni_chunk_dup :: "allocator \<Rightarrow> nni_chunk \<Rightarrow> int \<times> nni_chunk" where
  "nni_chunk_dup al src =
     (if \<not> al (ch_cap src) then (NNG_ENOMEM, zero_chunk)
      else
        (let buf = replicate (ch_cap src) 0 in
         (0, \<lparr>ch_cap = ch_cap src, ch_len = ch_len src,
              ch_buf = (if ch_len src > 0 then memcpy_at buf (ch_off src) (chunk_data src) else buf),
              ch_ptr = Some (ch_off src)\<rparr>)))"

text \<open>
  \<open>data\<close> is \<open>None\<close> for a null data pointer: then the region grows over the bytes the buffer
  holds there.
\<close>

definition nni_chunk_append ::
    "allocator \<Rightarrow> nni_chunk \<Rightarrow> bytes option \<Rightarrow> nat \<Rightarrow> int \<times> nni_chunk" where
  "nni_chunk_append al ch data len =
     (if len = 0 then (0, ch)
      else
        (case nni_chunk_grow al ch (len + ch_len ch) 0 of
           (rv, ch1) \<Rightarrow>
             if rv \<noteq> 0 then (rv, ch1)
             else
               (let ch2 = (if ch_ptr ch1 = None then ch1\<lparr>ch_ptr := Some 0\<rparr> else ch1);
                    ch3 = (case data of
                             None \<Rightarrow> ch2
                           | Some d \<Rightarrow>
                               ch2\<lparr>ch_buf := memcpy_at (ch_buf ch2) (ch_off ch2 + ch_len ch2)
                                                (take len d)\<rparr>) in
                (0, ch3\<lparr>ch_len := ch_len ch3 + len\<rparr>))))"

definition nni_chunk_room :: "nni_chunk \<Rightarrow> nat" where
  "nni_chunk_room ch = ch_cap ch - ch_len ch"

text \<open>
  Prepending first uses the head room. When that is too small and the chunk has eight bytes
  to spare it shifts the data inside the buffer, and only otherwise it reallocates. The shift
  is half of the free space, rounded up: \<^verbatim>\<open>(shift + 7) & ~7\<close> is written with \<open>div\<close>.
\<close>

definition insert_shift :: "nni_chunk \<Rightarrow> nat \<Rightarrow> nat" where
  "insert_shift ch len = ((ch_cap ch - (ch_len ch + len)) div 2 + 7) div 8 * 8"

definition insert_finish :: "nni_chunk \<Rightarrow> bytes option \<Rightarrow> nat \<Rightarrow> nni_chunk" where
  "insert_finish c data len =
     (let c1 = c\<lparr>ch_len := ch_len c + len\<rparr> in
      case data of
        None \<Rightarrow> c1
      | Some d \<Rightarrow> c1\<lparr>ch_buf := memcpy_at (ch_buf c1) (ch_off c1) (take len d)\<rparr>)"

definition nni_chunk_insert ::
    "allocator \<Rightarrow> nni_chunk \<Rightarrow> bytes option \<Rightarrow> nat \<Rightarrow> int \<times> nni_chunk" where
  "nni_chunk_insert al ch0 data len =
     (let ch = (if ch_ptr ch0 = None then ch0\<lparr>ch_ptr := Some 0\<rparr> else ch0);
          grown =
            (case nni_chunk_grow al ch 0 len of
               (rv, c) \<Rightarrow>
                 if rv = 0 then (0, insert_finish (c\<lparr>ch_ptr := Some (ch_off c - len)\<rparr>) data len)
                 else (rv, c)) in
      if ch_off ch < ch_cap ch then
        (if len \<le> ch_off ch
         then (0, insert_finish (ch\<lparr>ch_ptr := Some (ch_off ch - len)\<rparr>) data len)
         else if ch_len ch + len + 8 \<le> ch_cap ch then
           (let shift = insert_shift ch len in
            (0, insert_finish (ch\<lparr>ch_buf := memcpy_at (ch_buf ch) shift (chunk_data ch),
                                  ch_ptr := Some shift\<rparr>) data len))
         else grown)
      else grown)"

text \<open>\<open>None\<close> is the failed assertion that at least four bytes are there.\<close>

definition nni_chunk_trim_u32 :: "nni_chunk \<Rightarrow> (u32 \<times> nni_chunk) option" where
  "nni_chunk_trim_u32 ch =
     (if ch_len ch < 4 then None
      else Some (NNI_GET32 (ch_buf ch) (ch_off ch), snd (nni_chunk_trim ch 4)))"

subsection \<open>Well-formed chunks and the bytes they hold\<close>

definition chunk_wf :: "nni_chunk \<Rightarrow> bool" where
  "chunk_wf ch \<longleftrightarrow> length (ch_buf ch) = ch_cap ch \<and>
     (case ch_ptr ch of None \<Rightarrow> ch_len ch = 0 \<and> ch_cap ch = 0
                      | Some p \<Rightarrow> p + ch_len ch \<le> ch_cap ch)"

lemma chunk_wfD:
  assumes "chunk_wf ch"
  shows "length (ch_buf ch) = ch_cap ch" "ch_off ch + ch_len ch \<le> ch_cap ch"
  using assms by (auto simp: chunk_wf_def ch_off_def split: option.splits)

lemma chunk_wfI:
  "length (ch_buf ch) = ch_cap ch \<Longrightarrow> ch_ptr ch = Some p \<Longrightarrow> p + ch_len ch \<le> ch_cap ch \<Longrightarrow> chunk_wf ch"
  by (simp add: chunk_wf_def)

lemma chunk_wf_zero [simp]: "chunk_wf zero_chunk"
  by (simp add: chunk_wf_def zero_chunk_def)

lemma chunk_data_zero [simp]: "chunk_data zero_chunk = []"
  by (simp add: chunk_data_def zero_chunk_def)

lemma length_chunk_data [simp]: "chunk_wf ch \<Longrightarrow> length (chunk_data ch) = ch_len ch"
  using chunk_wfD [of ch] by (simp add: chunk_data_def)

lemma chunk_data_empty: "ch_len ch = 0 \<Longrightarrow> chunk_data ch = []"
  by (simp add: chunk_data_def)

lemma ptr_inside_iff: "ptr_inside ch \<longleftrightarrow> ch_ptr ch \<noteq> None \<and> ch_off ch < ch_cap ch"
  by (simp add: ptr_inside_def ch_off_def split: option.splits)

lemma not_inside_len: "chunk_wf ch \<Longrightarrow> \<not> ptr_inside ch \<Longrightarrow> ch_len ch = 0"
  by (auto simp: ptr_inside_def chunk_wf_def split: option.splits)

lemma if_less_max: "(if a < b then b else a) = max a (b :: nat)"
  by (simp add: max_def)

lemma nni_chunk_grow_inside:
  assumes "ptr_inside ch"
  shows "nni_chunk_grow al ch n h =
    (let p = ch_off ch; hw = max h p; n' = max (max n (ch_len ch)) (ch_cap ch - p);
         b = replicate (n' + hw) 0 in
     if max n (ch_len ch) + hw \<le> ch_cap ch \<and> hw \<le> p then (0, ch)
     else if \<not> al (n' + hw) then (NNG_ENOMEM, ch)
     else (0, ch\<lparr>ch_buf := (if ch_len ch > 0 then memcpy_at b hw (chunk_data ch) else b),
                 ch_ptr := Some hw, ch_cap := n' + hw\<rparr>))"
  by (simp only: nni_chunk_grow_def Let_def if_less_max assms if_True)

lemma nni_chunk_grow_fail:
  "nni_chunk_grow al ch n h = (rv, ch') \<Longrightarrow> rv \<noteq> 0 \<Longrightarrow> rv = NNG_ENOMEM \<and> ch' = ch"
  by (auto simp: nni_chunk_grow_def Let_def split: if_splits)

lemma nni_chunk_grow_total: "(\<And>k. al k) \<Longrightarrow> fst (nni_chunk_grow al ch n h) = 0"
  by (simp add: nni_chunk_grow_def Let_def)

text \<open>
  A successful growth keeps the data, and leaves the wanted head room and enough space behind
  the pointer.
\<close>

lemma nni_chunk_grow_ok:
  assumes wf: "chunk_wf ch" and g: "nni_chunk_grow al ch n h = (0, ch')"
  shows "chunk_wf ch'" "chunk_data ch' = chunk_data ch" "ch_len ch' = ch_len ch"
    "ch_ptr ch' \<noteq> None" "h \<le> ch_off ch'" "ch_off ch' + n \<le> ch_cap ch'"
proof -
  note d = chunk_wfD [OF wf]
  have "chunk_wf ch' \<and> chunk_data ch' = chunk_data ch \<and> ch_len ch' = ch_len ch \<and>
    ch_ptr ch' \<noteq> None \<and> h \<le> ch_off ch' \<and> ch_off ch' + n \<le> ch_cap ch'"
  proof (cases "ptr_inside ch")
    case True
    then obtain p where p: "ch_ptr ch = Some p" "p < ch_cap ch" "ch_off ch = p"
      by (auto simp: ptr_inside_def ch_off_def split: option.splits)
    let ?hw = "max h p" and ?n = "max n (ch_len ch)"
    let ?n' = "max ?n (ch_cap ch - p)"
    let ?b = "replicate (?n' + ?hw) 0 :: bytes"
    show ?thesis
    proof (cases "?n + ?hw \<le> ch_cap ch \<and> ?hw \<le> p")
      case noalloc: True
      with g p have "ch' = ch"
        by (simp add: nni_chunk_grow_inside [OF True])
      with noalloc wf p show ?thesis by auto
    next
      case False
      let ?b' = "if ch_len ch > 0 then memcpy_at ?b ?hw (chunk_data ch) else ?b"
      have eq: "ch' = ch\<lparr>ch_buf := ?b', ch_ptr := Some ?hw, ch_cap := ?n' + ?hw\<rparr>"
        using g p(3) False
        by (simp only: nni_chunk_grow_inside [OF True] Let_def if_False split: if_splits) simp_all
      have "?hw + length (chunk_data ch) \<le> length ?b"
        using wf by simp
      then have b': "length ?b' = ?n' + ?hw" "bslice ?hw (ch_len ch) ?b' = chunk_data ch"
        using wf bslice_memcpy_same [of ?hw "chunk_data ch" ?b] by (auto simp: chunk_data_empty)
      have "chunk_data ch' = bslice ?hw (ch_len ch) ?b'"
        by (simp only: eq chunk_data_def ch_off_def) simp
      with b'(2) have "chunk_data ch' = chunk_data ch" by simp
      moreover have "chunk_wf ch'"
        using b'(1) by (simp only: eq chunk_wf_def) (simp add: le_max_iff_disj)
      ultimately show ?thesis
        by (simp only: eq ch_off_def) (simp add: le_max_iff_disj)
    qed
  next
    case False
    then have "ch_len ch = 0"
      by (rule not_inside_len [OF wf])
    with g False d show ?thesis
      by (auto simp: nni_chunk_grow_def Let_def chunk_wf_def chunk_data_def ch_off_def
          split: if_splits)
  qed
  then show "chunk_wf ch'" "chunk_data ch' = chunk_data ch" "ch_len ch' = ch_len ch"
    "ch_ptr ch' \<noteq> None" "h \<le> ch_off ch'" "ch_off ch' + n \<le> ch_cap ch'"
    by simp_all
qed

lemma nni_chunk_chop_ok:
  assumes "chunk_wf ch" "len \<le> ch_len ch"
  shows "fst (nni_chunk_chop ch len) = 0" "chunk_wf (snd (nni_chunk_chop ch len))"
    "chunk_data (snd (nni_chunk_chop ch len)) = take (ch_len ch - len) (chunk_data ch)"
  using assms
  by (auto simp: nni_chunk_chop_def chunk_wf_def chunk_data_def ch_off_def take_bslice
      split: option.splits)

lemma nni_chunk_trim_ok:
  assumes "chunk_wf ch" "len \<le> ch_len ch"
  shows "fst (nni_chunk_trim ch len) = 0" "chunk_wf (snd (nni_chunk_trim ch len))"
    "chunk_data (snd (nni_chunk_trim ch len)) = drop len (chunk_data ch)"
  using assms
  by (auto simp: nni_chunk_trim_def Let_def chunk_wf_def chunk_data_def ch_off_def drop_bslice
      split: option.splits)

lemma nni_chunk_dup_ok:
  assumes wf: "chunk_wf ch" and "nni_chunk_dup al ch = (0, ch')"
  shows "chunk_wf ch'" "chunk_data ch' = chunk_data ch" "ch_cap ch' = ch_cap ch"
    "ch_off ch' = ch_off ch"
proof -
  note d = chunk_wfD [OF wf]
  let ?b = "replicate (ch_cap ch) 0 :: bytes"
  have eq: "ch' = \<lparr>ch_cap = ch_cap ch, ch_len = ch_len ch,
      ch_buf = (if ch_len ch > 0 then memcpy_at ?b (ch_off ch) (chunk_data ch) else ?b),
      ch_ptr = Some (ch_off ch)\<rparr>"
    using assms(2) by (simp add: nni_chunk_dup_def Let_def split: if_splits)
  have "ch_off ch + length (chunk_data ch) \<le> length ?b"
    using wf d by simp
  then show "chunk_data ch' = chunk_data ch"
    using wf bslice_memcpy_same [of "ch_off ch" "chunk_data ch" ?b]
    by (auto simp: eq chunk_data_def [of "\<lparr>ch_cap = _, ch_len = _, ch_buf = _, ch_ptr = _\<rparr>"]
        ch_off_def [of "\<lparr>ch_cap = _, ch_len = _, ch_buf = _, ch_ptr = _\<rparr>"] chunk_data_empty)
  show "chunk_wf ch'" "ch_cap ch' = ch_cap ch" "ch_off ch' = ch_off ch"
    using wf d by (simp_all add: eq chunk_wf_def ch_off_def)
qed

lemma nni_chunk_append_fail:
  "nni_chunk_append al ch data len = (rv, ch') \<Longrightarrow> rv \<noteq> 0 \<Longrightarrow> rv = NNG_ENOMEM \<and> ch' = ch"
  using nni_chunk_grow_fail
  by (auto simp: nni_chunk_append_def Let_def split: if_splits prod.splits)

lemma nni_chunk_append_total:
  assumes "\<And>k. al k" shows "fst (nni_chunk_append al ch data len) = 0"
  using nni_chunk_grow_total [of al ch "len + ch_len ch" 0, OF assms]
  by (auto simp: nni_chunk_append_def Let_def split: prod.splits)

text \<open>
  What an append leaves behind, in one equation: the grown chunk with the new bytes behind
  its data.
\<close>

lemma nni_chunk_append_shape:
  assumes wf: "chunk_wf ch" and a: "nni_chunk_append al ch data len = (0, ch')" and len: "len \<noteq> 0"
  obtains c where "chunk_wf c" "chunk_data c = chunk_data ch" "ch_len c = ch_len ch"
    "ch_off c + (len + ch_len ch) \<le> ch_cap c" "ch_ptr c \<noteq> None"
    "ch' = c\<lparr>ch_buf := (case data of None \<Rightarrow> ch_buf c
                        | Some d \<Rightarrow> memcpy_at (ch_buf c) (ch_off c + ch_len c) (take len d)),
             ch_len := ch_len c + len\<rparr>"
proof -
  obtain rv c where g: "nni_chunk_grow al ch (len + ch_len ch) 0 = (rv, c)"
    by (cases "nni_chunk_grow al ch (len + ch_len ch) 0")
  with a len have "rv = 0"
    by (auto simp: nni_chunk_append_def split: if_splits)
  note ok = nni_chunk_grow_ok [OF wf g [unfolded this]]
  have "ch' = c\<lparr>ch_buf := (case data of None \<Rightarrow> ch_buf c
                        | Some d \<Rightarrow> memcpy_at (ch_buf c) (ch_off c + ch_len c) (take len d)),
             ch_len := ch_len c + len\<rparr>"
    using a len g \<open>rv = 0\<close> ok(4)
    by (auto simp: nni_chunk_append_def Let_def split: option.splits)
  with that [of c] ok show thesis by simp
qed

lemma nni_chunk_append_Some:
  assumes wf: "chunk_wf ch" and a: "nni_chunk_append al ch (Some d) len = (0, ch')"
    and len: "len \<le> length d"
  shows "chunk_wf ch'" "chunk_data ch' = chunk_data ch @ take len d"
proof -
  have "chunk_wf ch' \<and> chunk_data ch' = chunk_data ch @ take len d"
  proof (cases "len = 0")
    case True
    with a wf show ?thesis by (simp add: nni_chunk_append_def)
  next
    case False
    then obtain c where c: "chunk_wf c" "chunk_data c = chunk_data ch" "ch_len c = ch_len ch"
      "ch_off c + (len + ch_len ch) \<le> ch_cap c" "ch_ptr c \<noteq> None"
      "ch' = c\<lparr>ch_buf := memcpy_at (ch_buf c) (ch_off c + ch_len c) (take len d),
             ch_len := ch_len c + len\<rparr>"
      using nni_chunk_append_shape [OF wf a] by auto
    from c(4) chunk_wfD [OF c(1)] c(3) len
    have fit: "ch_off c + ch_len c + length (take len d) \<le> length (ch_buf c)"
      by (simp add: min_absorb2)
    have "chunk_data ch' = chunk_data c @ take len d"
      using bslice_memcpy_extend [OF fit] len c(6)
      by (simp add: chunk_data_def ch_off_def min_absorb2 split: option.splits)
    moreover have "chunk_wf ch'"
      using c fit chunk_wfD [OF c(1)] by (auto simp: chunk_wf_def ch_off_def)
    ultimately show ?thesis using c(2) by simp
  qed
  then show "chunk_wf ch'" "chunk_data ch' = chunk_data ch @ take len d" by simp_all
qed

lemma nni_chunk_append_None:
  assumes wf: "chunk_wf ch" and a: "nni_chunk_append al ch None len = (0, ch')"
  shows "chunk_wf ch'" "ch_len ch' = ch_len ch + len"
    "take (ch_len ch) (chunk_data ch') = chunk_data ch"
proof -
  have "chunk_wf ch' \<and> ch_len ch' = ch_len ch + len \<and> take (ch_len ch) (chunk_data ch') = chunk_data ch"
  proof (cases "len = 0")
    case True
    with a wf show ?thesis by (simp add: nni_chunk_append_def)
  next
    case False
    then obtain c where c: "chunk_wf c" "chunk_data c = chunk_data ch" "ch_len c = ch_len ch"
      "ch_off c + (len + ch_len ch) \<le> ch_cap c" "ch_ptr c \<noteq> None"
      "ch' = c\<lparr>ch_len := ch_len c + len\<rparr>"
      using nni_chunk_append_shape [OF wf a] by auto
    have "take (ch_len ch) (chunk_data ch') = chunk_data c"
      by (simp add: c(3,6) chunk_data_def ch_off_def take_bslice)
    moreover have "chunk_wf ch'"
      using c chunk_wfD [OF c(1)] by (auto simp: chunk_wf_def ch_off_def)
    ultimately show ?thesis using c by simp
  qed
  then show "chunk_wf ch'" "ch_len ch' = ch_len ch + len"
    "take (ch_len ch) (chunk_data ch') = chunk_data ch" by simp_all
qed

text \<open>The branch of \<open>nni_chunk_insert\<close> that shifts the data inside the buffer.\<close>

definition insert_shifts :: "nni_chunk \<Rightarrow> nat \<Rightarrow> bool" where
  "insert_shifts ch len \<longleftrightarrow>
     ch_off ch < ch_cap ch \<and> ch_off ch < len \<and> ch_len ch + len + 8 \<le> ch_cap ch"

lemma nni_chunk_insert_unfold:
  "nni_chunk_insert al ch0 data len =
     (let ch = ch0\<lparr>ch_ptr := Some (ch_off ch0)\<rparr>; shift = insert_shift ch len in
      if ch_off ch < ch_cap ch \<and> len \<le> ch_off ch
      then (0, insert_finish (ch\<lparr>ch_ptr := Some (ch_off ch - len)\<rparr>) data len)
      else if insert_shifts ch len
      then (0, insert_finish (ch\<lparr>ch_buf := memcpy_at (ch_buf ch) shift (chunk_data ch),
                                 ch_ptr := Some shift\<rparr>) data len)
      else (case nni_chunk_grow al ch 0 len of
              (rv, c) \<Rightarrow> if rv = 0 then (0, insert_finish (c\<lparr>ch_ptr := Some (ch_off c - len)\<rparr>) data len)
                        else (rv, c)))"
proof -
  have "(if ch_ptr ch0 = None then ch0\<lparr>ch_ptr := Some 0\<rparr> else ch0) = ch0\<lparr>ch_ptr := Some (ch_off ch0)\<rparr>"
    by (auto simp: ch_off_def split: option.splits)
  moreover have "(if a then if b then x else if c then y else z else z)
      = (if a \<and> b then x else if a \<and> \<not> b \<and> c then y else z)" for a b c and x y z :: "int \<times> nni_chunk"
    by simp
  ultimately show ?thesis
    by (simp only: nni_chunk_insert_def Let_def insert_shifts_def not_le)
qed

lemma chunk_reptr:
  assumes "chunk_wf ch"
  shows "chunk_wf (ch\<lparr>ch_ptr := Some (ch_off ch)\<rparr>)"
    "chunk_data (ch\<lparr>ch_ptr := Some (ch_off ch)\<rparr>) = chunk_data ch"
    "ch_off (ch\<lparr>ch_ptr := Some (ch_off ch)\<rparr>) = ch_off ch"
  using assms by (auto simp: chunk_wf_def chunk_data_def ch_off_def split: option.splits)

lemma insert_finish_ok:
  assumes wf: "chunk_wf c" and len: "len \<le> ch_off c" "len \<le> length d"
  shows "chunk_wf (insert_finish (c\<lparr>ch_ptr := Some (ch_off c - len)\<rparr>) (Some d) len)"
    "chunk_data (insert_finish (c\<lparr>ch_ptr := Some (ch_off c - len)\<rparr>) (Some d) len) = take len d @ chunk_data c"
proof -
  let ?p = "ch_off c - len" and ?d = "take len d"
  have fit: "?p + length ?d + ch_len c \<le> length (ch_buf c)"
    using chunk_wfD [OF wf] len by simp
  show "chunk_wf (insert_finish (c\<lparr>ch_ptr := Some ?p\<rparr>) (Some d) len)"
    using fit chunk_wfD [OF wf] len by (simp add: insert_finish_def Let_def chunk_wf_def ch_off_def)
  have "chunk_data (insert_finish (c\<lparr>ch_ptr := Some ?p\<rparr>) (Some d) len)
      = bslice ?p (length ?d + ch_len c) (memcpy_at (ch_buf c) ?p ?d)"
    using len by (simp add: insert_finish_def Let_def chunk_data_def ch_off_def add.commute)
  also have "\<dots> = ?d @ bslice (?p + length ?d) (ch_len c) (ch_buf c)"
    by (rule bslice_memcpy_front [OF fit])
  also have "?p + length ?d = ch_off c"
    using len by simp
  finally show "chunk_data (insert_finish (c\<lparr>ch_ptr := Some ?p\<rparr>) (Some d) len) = take len d @ chunk_data c"
    by (simp add: chunk_data_def)
qed

lemma nni_chunk_insert_ok:
  assumes wf: "chunk_wf ch" and i: "nni_chunk_insert al ch (Some d) len = (0, ch')"
    and len: "len \<le> length d" and ns: "\<not> insert_shifts ch len"
  shows "chunk_wf ch'" "chunk_data ch' = take len d @ chunk_data ch"
proof -
  let ?c = "ch\<lparr>ch_ptr := Some (ch_off ch)\<rparr>"
  note c = chunk_reptr [OF wf]
  have ns': "\<not> insert_shifts ?c len"
    using ns c(3) by (simp add: insert_shifts_def)
  have "chunk_wf ch' \<and> chunk_data ch' = take len d @ chunk_data ch"
  proof (cases "ch_off ch < ch_cap ch \<and> len \<le> ch_off ch")
    case True
    with i c(3) have "ch' = insert_finish (?c\<lparr>ch_ptr := Some (ch_off ?c - len)\<rparr>) (Some d) len"
      by (simp add: nni_chunk_insert_unfold)
    with True insert_finish_ok [OF c(1) _ len] c(2,3) show ?thesis by simp
  next
    case False
    obtain rv c' where g: "nni_chunk_grow al ?c 0 len = (rv, c')"
      by (cases "nni_chunk_grow al ?c 0 len")
    with i False ns' c(3) have "rv = 0" and ch': "ch' = insert_finish (c'\<lparr>ch_ptr := Some (ch_off c' - len)\<rparr>) (Some d) len"
      by (auto simp: nni_chunk_insert_unfold Let_def split: if_splits)
    note ok = nni_chunk_grow_ok [OF c(1) g [unfolded \<open>rv = 0\<close>]]
    from ch' insert_finish_ok [OF ok(1,5) len] ok(2) c(2) show ?thesis by simp
  qed
  then show "chunk_wf ch'" "chunk_data ch' = take len d @ chunk_data ch" by simp_all
qed

lemma nni_chunk_insert_fail:
  "nni_chunk_insert al ch data len = (rv, ch') \<Longrightarrow> rv \<noteq> 0 \<Longrightarrow>
   rv = NNG_ENOMEM \<and> ch' = ch\<lparr>ch_ptr := Some (ch_off ch)\<rparr>"
  using nni_chunk_grow_fail [of al "ch\<lparr>ch_ptr := Some (ch_off ch)\<rparr>" 0 len]
  by (auto simp: nni_chunk_insert_unfold Let_def split: if_splits prod.splits)

text \<open>
  The shifting branch moves the old data to the place where the new bytes go as well: the
  insertion overwrites the first \<open>len\<close> bytes of the old data.
\<close>

lemma rounded_shift_fits:
  assumes "8 \<le> (r :: nat)" shows "(r div 2 + 7) div 8 * 8 \<le> r"
proof (cases "14 \<le> r")
  case True
  have "(r div 2 + 7) div 8 * 8 \<le> r div 2 + 7" by simp
  with True show ?thesis by linarith
next
  case False
  with assms have "(r div 2 + 7) div 8 = 1" by linarith
  with assms show ?thesis by simp
qed

lemma nni_chunk_insert_shift:
  assumes wf: "chunk_wf ch" and i: "nni_chunk_insert al ch (Some d) len = (rv, ch')"
    and len: "len \<le> length d" and sh: "insert_shifts ch len"
  shows "rv = 0" "chunk_wf ch'"
    "\<exists>junk. chunk_data ch' = take len d @ drop len (chunk_data ch) @ junk"
proof -
  let ?c = "ch\<lparr>ch_ptr := Some (ch_off ch)\<rparr>"
  define s where "s = insert_shift ch len"
  let ?B = "memcpy_at (ch_buf ch) s (chunk_data ch)"
  note c = chunk_reptr [OF wf] and w = chunk_wfD [OF wf]
  have ch': "rv = 0 \<and> ch' = insert_finish (?c\<lparr>ch_buf := ?B, ch_ptr := Some s\<rparr>) (Some d) len"
    using i sh c by (auto simp: nni_chunk_insert_unfold Let_def insert_shifts_def insert_shift_def
        s_def split: if_splits)
  then show "rv = 0" by simp
  have room: "s + (ch_len ch + len) \<le> ch_cap ch"
  proof -
    have "8 \<le> ch_cap ch - (ch_len ch + len)"
      using sh unfolding insert_shifts_def by linarith
    then have "s \<le> ch_cap ch - (ch_len ch + len)"
      unfolding s_def insert_shift_def by (rule rounded_shift_fits)
    then show ?thesis
      using sh unfolding insert_shifts_def by linarith
  qed
  then have B: "length ?B = ch_cap ch"
    using wf w by simp
  show "chunk_wf ch'"
    using room B len ch' by (simp add: insert_finish_def Let_def chunk_wf_def ch_off_def)
  have "chunk_data ch' = bslice s (length (take len d) + ch_len ch) (memcpy_at ?B s (take len d))"
    using ch' len by (simp add: insert_finish_def Let_def chunk_data_def ch_off_def add.commute)
  also have "\<dots> = take len d @ bslice (s + length (take len d)) (ch_len ch) ?B"
    by (rule bslice_memcpy_front) (use room B len in simp)
  also have "bslice (s + length (take len d)) (ch_len ch) ?B =
      drop len (chunk_data ch) @ drop (ch_len ch - len) (bslice (s + len) (ch_len ch) ?B)"
  proof -
    have same: "bslice s (ch_len ch) ?B = chunk_data ch"
      using bslice_memcpy_same [of s "chunk_data ch" "ch_buf ch"] room wf w by simp
    have "take (ch_len ch - len) (bslice (s + len) (ch_len ch) ?B) = drop len (bslice s (ch_len ch) ?B)"
      by (simp add: take_bslice drop_bslice)
    then have "take (ch_len ch - len) (bslice (s + len) (ch_len ch) ?B) = drop len (chunk_data ch)"
      by (simp only: same)
    moreover have "length (take len d) = len"
      using len by simp
    ultimately show ?thesis
      by (metis append_take_drop_id)
  qed
  finally show "\<exists>junk. chunk_data ch' = take len d @ drop len (chunk_data ch) @ junk"
    by (rule exI)
qed

section \<open>Messages\<close>

subsection \<open>State\<close>

text \<open>
  The header area holds \<^verbatim>\<open>NNI_MAX_MAX_TTL + 1\<close> 32-bit words, 64 bytes. The protocol
  data \<open>'p\<close> belongs to the protocol that owns the message; its operations travel with it as
  the table \<open>proto_msg_ops\<close>. Pointers to a connection parameter or into a payload are opaque.
\<close>

abbreviation NNI_HEADER_SIZE :: nat where "NNI_HEADER_SIZE \<equiv> 64"

record 'p proto_msg_ops =
  has_msg_free :: bool
  msg_dup :: "'p option \<Rightarrow> int \<times> 'p option"

record 'p nng_msg =
  m_header_buf :: bytes
  m_header_len :: nat
  m_body :: nni_chunk
  m_proto_ops :: "'p proto_msg_ops option"
  m_proto_data :: "'p option"
  m_pipe :: u32
  m_refcnt :: int
  CMD_TYPE :: u8
  payload_ptr :: "nat option"
  times :: u64
  cparam :: "nat option"

definition zero_msg :: "'p nng_msg" where
  "zero_msg = \<lparr>m_header_buf = replicate NNI_HEADER_SIZE 0, m_header_len = 0, m_body = zero_chunk,
     m_proto_ops = None, m_proto_data = None, m_pipe = 0, m_refcnt = 0, CMD_TYPE = 0,
     payload_ptr = None, times = 0, cparam = None\<rparr>"

subsection \<open>Body and header operations\<close>

definition nni_msg_len :: "'p nng_msg \<Rightarrow> nat" where
  "nni_msg_len m = ch_len (m_body m)"

definition nni_msg_header_len :: "'p nng_msg \<Rightarrow> nat" where
  "nni_msg_header_len m = m_header_len m"

text \<open>The bytes at the body pointer and at the header pointer, up to the recorded length.\<close>

definition nni_msg_body :: "'p nng_msg \<Rightarrow> bytes" where
  "nni_msg_body m = chunk_data (m_body m)"

definition nni_msg_header :: "'p nng_msg \<Rightarrow> bytes" where
  "nni_msg_header m = take (m_header_len m) (m_header_buf m)"

definition nni_msg_append :: "allocator \<Rightarrow> 'p nng_msg \<Rightarrow> bytes option \<Rightarrow> nat \<Rightarrow> int \<times> 'p nng_msg" where
  "nni_msg_append al m data len =
     (case nni_chunk_append al (m_body m) data len of (rv, ch) \<Rightarrow> (rv, m\<lparr>m_body := ch\<rparr>))"

definition nni_msg_insert :: "allocator \<Rightarrow> 'p nng_msg \<Rightarrow> bytes option \<Rightarrow> nat \<Rightarrow> int \<times> 'p nng_msg" where
  "nni_msg_insert al m data len =
     (case nni_chunk_insert al (m_body m) data len of (rv, ch) \<Rightarrow> (rv, m\<lparr>m_body := ch\<rparr>))"

definition nni_msg_trim :: "'p nng_msg \<Rightarrow> nat \<Rightarrow> int \<times> 'p nng_msg" where
  "nni_msg_trim m len =
     (case nni_chunk_trim (m_body m) len of (rv, ch) \<Rightarrow> (rv, m\<lparr>m_body := ch\<rparr>))"

definition nni_msg_trim_u32 :: "'p nng_msg \<Rightarrow> (u32 \<times> 'p nng_msg) option" where
  "nni_msg_trim_u32 m =
     map_option (\<lambda>(v, ch). (v, m\<lparr>m_body := ch\<rparr>)) (nni_chunk_trim_u32 (m_body m))"

definition nni_msg_chop :: "'p nng_msg \<Rightarrow> nat \<Rightarrow> int \<times> 'p nng_msg" where
  "nni_msg_chop m len =
     (case nni_chunk_chop (m_body m) len of (rv, ch) \<Rightarrow> (rv, m\<lparr>m_body := ch\<rparr>))"

definition nni_msg_clear :: "'p nng_msg \<Rightarrow> 'p nng_msg" where
  "nni_msg_clear m = m\<lparr>m_body := nni_chunk_clear (m_body m)\<rparr>"

definition nni_msg_realloc :: "allocator \<Rightarrow> 'p nng_msg \<Rightarrow> nat \<Rightarrow> int \<times> 'p nng_msg" where
  "nni_msg_realloc al m sz =
     (if ch_len (m_body m) < sz then nni_msg_append al m None (sz - ch_len (m_body m))
      else (0, m\<lparr>m_body := snd (nni_chunk_chop (m_body m) (ch_len (m_body m) - sz))\<rparr>))"

definition nni_msg_reserve :: "allocator \<Rightarrow> 'p nng_msg \<Rightarrow> nat \<Rightarrow> int \<times> 'p nng_msg" where
  "nni_msg_reserve al m capacity =
     (case nni_chunk_grow al (m_body m) capacity 0 of (rv, ch) \<Rightarrow> (rv, m\<lparr>m_body := ch\<rparr>))"

definition nni_msg_capacity :: "'p nng_msg \<Rightarrow> nat" where
  "nni_msg_capacity m = ch_cap (m_body m) - ch_off (m_body m)"

definition nni_msg_header_append :: "'p nng_msg \<Rightarrow> bytes \<Rightarrow> nat \<Rightarrow> int \<times> 'p nng_msg" where
  "nni_msg_header_append m data len =
     (if len + m_header_len m > NNI_HEADER_SIZE then (NNG_EINVAL, m)
      else (0, m\<lparr>m_header_buf := memcpy_at (m_header_buf m) (m_header_len m) (take len data),
                 m_header_len := m_header_len m + len\<rparr>))"

definition nni_msg_header_insert :: "'p nng_msg \<Rightarrow> bytes \<Rightarrow> nat \<Rightarrow> int \<times> 'p nng_msg" where
  "nni_msg_header_insert m data len =
     (if len + m_header_len m > NNI_HEADER_SIZE then (NNG_EINVAL, m)
      else
        (let buf = memcpy_at (m_header_buf m) len (take (m_header_len m) (m_header_buf m)) in
         (0, m\<lparr>m_header_buf := memcpy_at buf 0 (take len data),
               m_header_len := m_header_len m + len\<rparr>)))"

definition nni_msg_header_trim :: "'p nng_msg \<Rightarrow> nat \<Rightarrow> int \<times> 'p nng_msg" where
  "nni_msg_header_trim m len =
     (if len > m_header_len m then (NNG_EINVAL, m)
      else (0, m\<lparr>m_header_buf := memcpy_at (m_header_buf m) 0
                                   (bslice len (m_header_len m - len) (m_header_buf m)),
                 m_header_len := m_header_len m - len\<rparr>))"

definition nni_msg_header_chop :: "'p nng_msg \<Rightarrow> nat \<Rightarrow> int \<times> 'p nng_msg" where
  "nni_msg_header_chop m len =
     (if len > m_header_len m then (NNG_EINVAL, m)
      else (0, m\<lparr>m_header_len := m_header_len m - len\<rparr>))"

text \<open>
  The code does not check the header length here: with fewer than four bytes the length would
  wrap and the \<^verbatim>\<open>memmove\<close> run over the struct, which \<open>None\<close> stands for.
\<close>

definition nni_msg_header_trim_u32 :: "'p nng_msg \<Rightarrow> (u32 \<times> 'p nng_msg) option" where
  "nni_msg_header_trim_u32 m =
     (if m_header_len m < 4 then None
      else
        (let len = m_header_len m - 4 in
         Some (NNI_GET32 (m_header_buf m) 0,
               m\<lparr>m_header_buf := memcpy_at (m_header_buf m) 0 (bslice 4 len (m_header_buf m)),
                 m_header_len := len\<rparr>)))"

text \<open>\<open>None\<close> is the panic on an over-run.\<close>

definition nni_msg_header_append_u32 :: "'p nng_msg \<Rightarrow> u32 \<Rightarrow> 'p nng_msg option" where
  "nni_msg_header_append_u32 m val =
     (if m_header_len m + 4 \<ge> NNI_HEADER_SIZE then None
      else Some (m\<lparr>m_header_buf := memcpy_at (m_header_buf m) (m_header_len m) (NNI_PUT32 val),
                   m_header_len := m_header_len m + 4\<rparr>))"

definition nni_msg_header_peek_u32 :: "'p nng_msg \<Rightarrow> u32" where
  "nni_msg_header_peek_u32 m = NNI_GET32 (m_header_buf m) 0"

definition nni_msg_header_poke_u32 :: "'p nng_msg \<Rightarrow> u32 \<Rightarrow> 'p nng_msg" where
  "nni_msg_header_poke_u32 m val = m\<lparr>m_header_buf := memcpy_at (m_header_buf m) 0 (NNI_PUT32 val)\<rparr>"

definition nni_msg_header_clear :: "'p nng_msg \<Rightarrow> 'p nng_msg" where
  "nni_msg_header_clear m = m\<lparr>m_header_len := 0\<rparr>"

subsection \<open>Plain fields and the MQTT accessors\<close>

definition nni_msg_set_pipe :: "'p nng_msg \<Rightarrow> u32 \<Rightarrow> 'p nng_msg" where
  "nni_msg_set_pipe m pid = m\<lparr>m_pipe := pid\<rparr>"

definition nni_msg_get_pipe :: "'p nng_msg \<Rightarrow> u32" where
  "nni_msg_get_pipe m = m_pipe m"

definition nni_msg_set_payload_ptr :: "'p nng_msg \<Rightarrow> nat option \<Rightarrow> 'p nng_msg" where
  "nni_msg_set_payload_ptr m ptr = m\<lparr>payload_ptr := ptr\<rparr>"

definition nni_msg_set_conn_param :: "'p nng_msg \<Rightarrow> nat option \<Rightarrow> 'p nng_msg" where
  "nni_msg_set_conn_param m ptr = m\<lparr>cparam := ptr\<rparr>"

definition nni_msg_get_conn_param :: "'p nng_msg \<Rightarrow> nat option" where
  "nni_msg_get_conn_param m = cparam m"

definition nni_msg_set_cmd_type :: "'p nng_msg \<Rightarrow> u8 \<Rightarrow> 'p nng_msg" where
  "nni_msg_set_cmd_type m cmd = m\<lparr>CMD_TYPE := cmd\<rparr>"

definition nni_msg_get_cmd_type :: "'p nng_msg \<Rightarrow> u8" where
  "nni_msg_get_cmd_type m = CMD_TYPE m"

definition nni_msg_set_timestamp :: "'p nng_msg \<Rightarrow> u64 \<Rightarrow> 'p nng_msg" where
  "nni_msg_set_timestamp m t = m\<lparr>times := t\<rparr>"

text \<open>The free callback of the old protocol data only releases memory.\<close>

definition nni_msg_set_proto_data ::
    "'p nng_msg \<Rightarrow> 'p proto_msg_ops option \<Rightarrow> 'p option \<Rightarrow> 'p nng_msg" where
  "nni_msg_set_proto_data m ops data = m\<lparr>m_proto_ops := ops, m_proto_data := data\<rparr>"

definition nni_msg_get_type :: "'p nng_msg \<Rightarrow> u8" where
  "nni_msg_get_type m = (ucast (drop_bit 24 (NNI_GET32 (m_header_buf m) 0)) :: u8) AND 0xF0"

text \<open>The \<^verbatim>\<open>return -1\<close> of a \<^verbatim>\<open>uint8_t\<close> function is 255.\<close>

definition nni_msg_get_pub_qos :: "'p nng_msg \<Rightarrow> u8" where
  "nni_msg_get_pub_qos m =
     (let type = ucast (drop_bit 24 (NNI_GET32 (m_header_buf m) 0)) :: u8 in
      if type AND 0xF0 \<noteq> 0x30 then 255 else drop_bit 1 (type AND 0x06))"

definition nni_msg_get_pub_pid :: "'p nng_msg \<Rightarrow> u16" where
  "nni_msg_get_pub_pid m =
     (if nni_msg_len m < 2 then 0
      else
        (let len = unat (NNI_GET16 (nni_msg_body m) 0) in
         if nni_msg_len m < len + 4 then 0 else NNI_GET16 (nni_msg_body m) (len + 2)))"

subsection \<open>Allocation and duplication\<close>

text \<open>
  The size test of \<open>nni_msg_alloc\<close> with 64-bit sizes: \<^verbatim>\<open>SIZE_MAX - 32\<close> is
  \<open>2 ^ 64 - 33\<close>. \<open>st\<close> says whether the allocation of the message struct itself succeeds. An
  outer \<open>None\<close> is the panic after a failed append, which \<open>nni_msg_alloc_returns\<close> excludes.
\<close>

definition nni_msg_alloc :: "bool \<Rightarrow> allocator \<Rightarrow> nat \<Rightarrow> (int \<times> 'p nng_msg option) option" where
  "nni_msg_alloc st al sz =
     (if sz > 0x0fffffffffffffff \<or> sz \<ge> 2 ^ 64 - 1 - 32 then Some (NNG_EMSGSIZE, None)
      else if \<not> st then Some (NNG_ENOMEM, None)
      else
        (let (rv, ch) = (if sz < 1024 \<or> sz AND (sz - 1) \<noteq> 0
                         then nni_chunk_grow al zero_chunk (sz + 32) 32
                         else nni_chunk_grow al zero_chunk sz 0) in
         if rv \<noteq> 0 then Some (rv, None)
         else
           (case nni_chunk_append al ch None sz of
              (rv, ch) \<Rightarrow>
                if rv \<noteq> 0 then None
                else Some (0, Some (zero_msg\<lparr>m_body := ch, m_refcnt := 1\<rparr>)))))"

definition nni_msg_dup :: "bool \<Rightarrow> allocator \<Rightarrow> 'p nng_msg \<Rightarrow> int \<times> 'p nng_msg option" where
  "nni_msg_dup st al src =
     (if \<not> st then (NNG_ENOMEM, None)
      else
        (let m = zero_msg\<lparr>m_header_buf := memcpy_at (replicate NNI_HEADER_SIZE 0) 0
                                           (take (m_header_len src) (m_header_buf src)),
                          m_header_len := m_header_len src\<rparr> in
         case nni_chunk_dup al (m_body src) of
           (rv, ch) \<Rightarrow>
             if rv \<noteq> 0 then (rv, None)
             else
               (let m = m\<lparr>m_body := ch, m_pipe := m_pipe src, m_refcnt := 1\<rparr> in
                case m_proto_ops src of
                  None \<Rightarrow> (0, Some m)
                | Some ops \<Rightarrow>
                    if has_msg_free ops then
                      (case msg_dup ops (m_proto_data src) of
                         (rv, d) \<Rightarrow>
                           if rv \<noteq> 0 then (NNG_ENOMEM, None)
                           else (0, Some (m\<lparr>m_proto_data := d, m_proto_ops := Some ops\<rparr>)))
                    else (0, Some m))))"

subsection \<open>Shared messages\<close>

text \<open>
  Messages are passed by pointer and counted. The store maps addresses to live messages;
  \<open>a\<close> is the address the allocator would return for a new one.
\<close>

type_synonym 'p msg_store = "nat \<Rightarrow> 'p nng_msg option"

definition nni_msg_clone :: "'p msg_store \<Rightarrow> nat \<Rightarrow> 'p msg_store" where
  "nni_msg_clone h p =
     (case h p of None \<Rightarrow> h | Some m \<Rightarrow> h(p \<mapsto> m\<lparr>m_refcnt := m_refcnt m + 1\<rparr>))"

definition nni_msg_free :: "'p msg_store \<Rightarrow> nat option \<Rightarrow> 'p msg_store" where
  "nni_msg_free h q =
     (case q of
        None \<Rightarrow> h
      | Some p \<Rightarrow>
          (case h p of
             None \<Rightarrow> h
           | Some m \<Rightarrow>
               (let n = m_refcnt m - 1 in
                if n = 0 then h(p := None) else h(p \<mapsto> m\<lparr>m_refcnt := n\<rparr>))))"

definition nni_msg_shared :: "'p nng_msg \<Rightarrow> bool" where
  "nni_msg_shared m = (m_refcnt m > 1)"

definition nni_msg_unique ::
    "bool \<Rightarrow> allocator \<Rightarrow> nat \<Rightarrow> 'p msg_store \<Rightarrow> nat \<Rightarrow> nat option \<times> 'p msg_store" where
  "nni_msg_unique st al a h p =
     (case h p of
        None \<Rightarrow> (None, h)
      | Some m \<Rightarrow>
          if m_refcnt m = 1 then (Some p, h)
          else
            (case nni_msg_dup st al m of
               (rv, m2) \<Rightarrow>
                 (case m2 of
                    Some m' \<Rightarrow> if rv = 0 then (Some a, nni_msg_free (h(a \<mapsto> m')) (Some p))
                              else (None, nni_msg_free h (Some p))
                  | None \<Rightarrow> (None, nni_msg_free h (Some p)))))"

text \<open>\<open>None\<close> as the whole result is the panic of \<open>nni_msg_alloc\<close>.\<close>

definition nni_msg_pull_up ::
    "bool \<Rightarrow> allocator \<Rightarrow> nat \<Rightarrow> 'p msg_store \<Rightarrow> nat \<Rightarrow> (nat option \<times> 'p msg_store) option" where
  "nni_msg_pull_up st al a h p =
     (case h p of
        None \<Rightarrow> Some (None, h)
      | Some m \<Rightarrow>
          if nni_chunk_room (m_body m) < nni_msg_header_len m \<or> m_refcnt m \<noteq> 1 then
            (case nni_msg_alloc st al (nni_msg_len m + nni_msg_header_len m) of
               None \<Rightarrow> None
             | Some (rv, m2) \<Rightarrow>
                 (case m2 of
                    None \<Rightarrow> Some (None, h)
                  | Some m2 \<Rightarrow>
                      (let off = ch_off (m_body m2);
                           b1 = memcpy_at (ch_buf (m_body m2)) off (nni_msg_header m);
                           b2 = memcpy_at b1 (off + nni_msg_header_len m) (nni_msg_body m);
                           m2' = m2\<lparr>m_body := (m_body m2)\<lparr>ch_buf := b2\<rparr>\<rparr> in
                       Some (Some a, nni_msg_free (h(a \<mapsto> m2')) (Some p)))))
          else
            Some (Some p,
              h(p \<mapsto> nni_msg_header_clear
                      (snd (nni_msg_insert al m (Some (nni_msg_header m)) (nni_msg_header_len m))))))"

section \<open>What the message operations do\<close>

definition msg_wf :: "'p nng_msg \<Rightarrow> bool" where
  "msg_wf m \<longleftrightarrow>
     chunk_wf (m_body m) \<and> length (m_header_buf m) = NNI_HEADER_SIZE \<and> m_header_len m \<le> NNI_HEADER_SIZE"

lemma msg_wfD:
  "msg_wf m \<Longrightarrow> chunk_wf (m_body m)" "msg_wf m \<Longrightarrow> length (m_header_buf m) = NNI_HEADER_SIZE"
  "msg_wf m \<Longrightarrow> m_header_len m \<le> NNI_HEADER_SIZE"
  by (simp_all add: msg_wf_def)

lemma msg_wf_zero [simp]: "msg_wf zero_msg"
  by (simp add: msg_wf_def zero_msg_def)

lemma length_nni_msg_body [simp]: "msg_wf m \<Longrightarrow> length (nni_msg_body m) = nni_msg_len m"
  by (simp add: msg_wf_def nni_msg_body_def nni_msg_len_def)

lemma length_nni_msg_header [simp]: "msg_wf m \<Longrightarrow> length (nni_msg_header m) = nni_msg_header_len m"
  by (simp add: msg_wf_def nni_msg_header_def nni_msg_header_len_def)

subsection \<open>The body\<close>

lemma nni_msg_append_ok:
  assumes "msg_wf m" "nni_msg_append al m (Some d) len = (0, m')" "len \<le> length d"
  shows "msg_wf m'" "nni_msg_body m' = nni_msg_body m @ take len d"
    "nni_msg_header m' = nni_msg_header m"
  using assms nni_chunk_append_Some [of "m_body m" al d len]
  by (auto simp: nni_msg_append_def nni_msg_body_def nni_msg_header_def msg_wf_def split: prod.splits)

lemma nni_msg_append_fail:
  "nni_msg_append al m data len = (rv, m') \<Longrightarrow> rv \<noteq> 0 \<Longrightarrow> rv = NNG_ENOMEM \<and> m' = m"
  using nni_chunk_append_fail by (fastforce simp: nni_msg_append_def split: prod.splits)

lemma nni_msg_insert_ok:
  assumes "msg_wf m" "nni_msg_insert al m (Some d) len = (0, m')" "len \<le> length d"
    "\<not> insert_shifts (m_body m) len"
  shows "msg_wf m'" "nni_msg_body m' = take len d @ nni_msg_body m"
    "nni_msg_header m' = nni_msg_header m"
  using assms nni_chunk_insert_ok [of "m_body m" al d len]
  by (auto simp: nni_msg_insert_def nni_msg_body_def nni_msg_header_def msg_wf_def split: prod.splits)

lemma nni_msg_trim_ok:
  assumes "msg_wf m" "len \<le> nni_msg_len m"
  shows "fst (nni_msg_trim m len) = 0" "msg_wf (snd (nni_msg_trim m len))"
    "nni_msg_body (snd (nni_msg_trim m len)) = drop len (nni_msg_body m)"
  using assms nni_chunk_trim_ok [of "m_body m" len]
  by (auto simp: nni_msg_trim_def nni_msg_body_def msg_wf_def nni_msg_len_def split: prod.splits)

lemma nni_msg_chop_ok:
  assumes "msg_wf m" "len \<le> nni_msg_len m"
  shows "fst (nni_msg_chop m len) = 0" "msg_wf (snd (nni_msg_chop m len))"
    "nni_msg_body (snd (nni_msg_chop m len)) = take (nni_msg_len m - len) (nni_msg_body m)"
  using assms nni_chunk_chop_ok [of "m_body m" len]
  by (auto simp: nni_msg_chop_def nni_msg_body_def msg_wf_def nni_msg_len_def split: prod.splits)

lemma nni_msg_clear_ok [simp]:
  assumes "msg_wf m"
  shows "msg_wf (nni_msg_clear m)" "nni_msg_body (nni_msg_clear m) = []"
    "nni_msg_len (nni_msg_clear m) = 0" "nni_msg_header (nni_msg_clear m) = nni_msg_header m"
  using assms
  by (auto simp: msg_wf_def nni_msg_clear_def nni_chunk_clear_def nni_msg_body_def nni_msg_len_def
      chunk_wf_def chunk_data_def nni_msg_header_def split: option.splits)

lemma nni_chunk_trim_u32_ok:
  assumes wf: "chunk_wf ch" and d: "chunk_data ch = NNI_PUT32 v @ rest"
  shows "\<exists>ch'. nni_chunk_trim_u32 ch = Some (v, ch') \<and> chunk_wf ch' \<and> chunk_data ch' = rest"
proof -
  have len: "4 \<le> ch_len ch"
    using arg_cong [OF d, of length] wf by simp
  have "ch_buf ch = take (ch_off ch) (ch_buf ch) @ NNI_PUT32 v @
      (rest @ drop (ch_len ch) (drop (ch_off ch) (ch_buf ch)))"
    using append_take_drop_id [of "ch_len ch" "drop (ch_off ch) (ch_buf ch)"] d
    by (simp add: chunk_data_def bslice_def flip: append_assoc)
  moreover have "length (take (ch_off ch) (ch_buf ch)) = ch_off ch"
    using chunk_wfD [OF wf] by simp
  ultimately have "NNI_GET32 (ch_buf ch) (ch_off ch) = v"
    using NNI_GET32_PUT32 by metis
  with len nni_chunk_trim_ok [OF wf len] d show ?thesis
    by (auto simp: nni_chunk_trim_u32_def)
qed

subsection \<open>The header\<close>

lemma nni_msg_header_append_ok:
  assumes wf: "msg_wf m" and len: "len \<le> length d" "len + m_header_len m \<le> NNI_HEADER_SIZE"
  shows "fst (nni_msg_header_append m d len) = 0" "msg_wf (snd (nni_msg_header_append m d len))"
    "nni_msg_header (snd (nni_msg_header_append m d len)) = nni_msg_header m @ take len d"
    "m_body (snd (nni_msg_header_append m d len)) = m_body m"
  using assms
  by (auto simp: nni_msg_header_append_def msg_wf_def nni_msg_header_def memcpy_at_def)

lemma nni_msg_header_insert_ok:
  assumes wf: "msg_wf m" and len: "len \<le> length d" "len + m_header_len m \<le> NNI_HEADER_SIZE"
  shows "fst (nni_msg_header_insert m d len) = 0" "msg_wf (snd (nni_msg_header_insert m d len))"
    "nni_msg_header (snd (nni_msg_header_insert m d len)) = take len d @ nni_msg_header m"
  using assms
  by (auto simp: nni_msg_header_insert_def msg_wf_def nni_msg_header_def memcpy_at_def Let_def
      min_def)

lemma nni_msg_header_trim_ok:
  assumes wf: "msg_wf m" and len: "len \<le> m_header_len m"
  shows "fst (nni_msg_header_trim m len) = 0" "msg_wf (snd (nni_msg_header_trim m len))"
    "nni_msg_header (snd (nni_msg_header_trim m len)) = drop len (nni_msg_header m)"
  using assms
  by (auto simp: nni_msg_header_trim_def msg_wf_def nni_msg_header_def memcpy_at_def bslice_def
      drop_take min_def)

lemma nni_msg_header_chop_ok:
  assumes wf: "msg_wf m" and len: "len \<le> m_header_len m"
  shows "fst (nni_msg_header_chop m len) = 0" "msg_wf (snd (nni_msg_header_chop m len))"
    "nni_msg_header (snd (nni_msg_header_chop m len)) = take (m_header_len m - len) (nni_msg_header m)"
  using assms
  by (auto simp: nni_msg_header_chop_def msg_wf_def nni_msg_header_def)

lemma nni_msg_header_append_u32_ok:
  assumes wf: "msg_wf m" and len: "m_header_len m + 4 < NNI_HEADER_SIZE"
  shows "\<exists>m'. nni_msg_header_append_u32 m v = Some m' \<and> msg_wf m' \<and>
    nni_msg_header m' = nni_msg_header m @ NNI_PUT32 v"
  using assms
  by (auto simp: nni_msg_header_append_u32_def msg_wf_def nni_msg_header_def memcpy_at_def)

lemma nni_msg_header_trim_u32_ok:
  assumes wf: "msg_wf m" and h: "nni_msg_header m = NNI_PUT32 v @ rest"
  shows "\<exists>m'. nni_msg_header_trim_u32 m = Some (v, m') \<and> msg_wf m' \<and> nni_msg_header m' = rest"
proof -
  have len: "4 \<le> m_header_len m"
    using arg_cong [OF h, of length] wf by (simp add: nni_msg_header_len_def)
  have "m_header_buf m = NNI_PUT32 v @ (rest @ drop (m_header_len m) (m_header_buf m))"
    using h by (metis append_assoc append_take_drop_id nni_msg_header_def)
  then have v: "NNI_GET32 (m_header_buf m) 0 = v"
    using NNI_GET32_PUT32 [of "[]"] by (metis append_Nil list.size(3))
  have rest: "rest = bslice 4 (m_header_len m - 4) (m_header_buf m)"
    using arg_cong [OF h, of "drop 4"] by (simp add: nni_msg_header_def bslice_def drop_take)
  show ?thesis
    using len wf
    by (auto simp: nni_msg_header_trim_u32_def Let_def v rest msg_wf_def nni_msg_header_def
        memcpy_at_def bslice_def)
qed

subsection \<open>Allocation\<close>

lemma nni_chunk_grow_zero:
  "nni_chunk_grow al zero_chunk n h =
     (if al (n + h)
      then (0, \<lparr>ch_cap = n + h, ch_len = 0, ch_buf = replicate (n + h) 0, ch_ptr = Some h\<rparr>)
      else (NNG_ENOMEM, zero_chunk))"
  by (simp add: nni_chunk_grow_def zero_chunk_def ptr_inside_def)

lemma nni_chunk_append_fits:
  assumes "ch_ptr ch = Some h" "h + ch_len ch + len \<le> ch_cap ch"
  shows "nni_chunk_append al ch None len = (0, ch\<lparr>ch_len := ch_len ch + len\<rparr>)"
  using assms
  by (cases "len = 0")
    (auto simp: nni_chunk_append_def nni_chunk_grow_def ptr_inside_def ch_off_def Let_def)

definition alloc_head :: "nat \<Rightarrow> nat" where
  "alloc_head sz = (if sz < 1024 \<or> sz AND (sz - 1) \<noteq> 0 then 32 else 0)"

lemma nni_msg_alloc_eq:
  "nni_msg_alloc st al sz =
     (let h = alloc_head sz in
      if sz > 0x0fffffffffffffff then Some (NNG_EMSGSIZE, None)
      else if \<not> st \<or> \<not> al (sz + h + h) then Some (NNG_ENOMEM, None)
      else Some (0, Some (zero_msg\<lparr>m_body := \<lparr>ch_cap = sz + h + h, ch_len = sz,
                                      ch_buf = replicate (sz + h + h) 0, ch_ptr = Some h\<rparr>,
                                   m_refcnt := 1\<rparr>)))"
  by (auto simp: nni_msg_alloc_def alloc_head_def nni_chunk_grow_zero nni_chunk_append_fits Let_def)

lemma nni_msg_alloc_returns: "nni_msg_alloc st al sz \<noteq> None"
  by (simp add: nni_msg_alloc_eq Let_def)

lemma nni_msg_alloc_ok:
  assumes "nni_msg_alloc st al sz = Some (0, r)"
  obtains m where "r = Some m" "msg_wf m" "nni_msg_body m = replicate sz 0" "nni_msg_header m = []"
    "m_refcnt m = 1" "nni_msg_len m = sz"
  using assms
  by (auto simp: nni_msg_alloc_eq Let_def msg_wf_def chunk_wf_def nni_msg_body_def chunk_data_def
      bslice_def ch_off_def nni_msg_header_def zero_msg_def nni_msg_len_def split: if_splits)

subsection \<open>Duplicates and shared messages\<close>

lemma nni_msg_dup_ok:
  assumes wf: "msg_wf m" and d: "nni_msg_dup st al m = (0, r)"
  obtains m' where "r = Some m'" "msg_wf m'" "nni_msg_body m' = nni_msg_body m"
    "nni_msg_header m' = nni_msg_header m" "m_refcnt m' = 1" "m_pipe m' = m_pipe m"
proof -
  obtain ch where ch: "nni_chunk_dup al (m_body m) = (0, ch)" and "\<exists>m'. r = Some m' \<and> m_body m' = ch \<and>
      m_header_len m' = m_header_len m \<and> m_refcnt m' = 1 \<and> m_pipe m' = m_pipe m \<and>
      m_header_buf m' = memcpy_at (replicate NNI_HEADER_SIZE 0) 0 (nni_msg_header m)"
    using d
    by (auto simp: nni_msg_dup_def Let_def nni_msg_header_def split: if_splits prod.splits option.splits)
  then obtain m' where m': "r = Some m'" "m_body m' = ch" "m_header_len m' = m_header_len m"
      "m_refcnt m' = 1" "m_pipe m' = m_pipe m"
      "m_header_buf m' = memcpy_at (replicate NNI_HEADER_SIZE 0) 0 (nni_msg_header m)"
    by blast
  note c = nni_chunk_dup_ok [OF msg_wfD(1) [OF wf] ch]
  have "nni_msg_header m' = nni_msg_header m" "msg_wf m'"
    using wf m' c by (auto simp: nni_msg_header_def msg_wf_def memcpy_at_def)
  with m' c that show ?thesis
    by (simp add: nni_msg_body_def)
qed

lemma nni_msg_dup_fail:
  "nni_msg_dup st al m = (rv, r) \<Longrightarrow> rv \<noteq> 0 \<Longrightarrow> r = None"
  by (auto simp: nni_msg_dup_def Let_def split: if_splits prod.splits option.splits)

lemma nni_msg_free_other: "q \<noteq> p \<Longrightarrow> nni_msg_free h (Some p) q = h q"
  by (auto simp: nni_msg_free_def Let_def split: option.splits)

lemma nni_msg_free_shared:
  "h p = Some m \<Longrightarrow> m_refcnt m \<noteq> 1 \<Longrightarrow>
   nni_msg_free h (Some p) = h(p \<mapsto> m\<lparr>m_refcnt := m_refcnt m - 1\<rparr>)"
  by (simp add: nni_msg_free_def)

lemma nni_msg_free_last: "h p = Some m \<Longrightarrow> m_refcnt m = 1 \<Longrightarrow> nni_msg_free h (Some p) = h(p := None)"
  by (simp add: nni_msg_free_def)

lemma nni_msg_free_clone: "h p = Some m \<Longrightarrow> 1 \<le> m_refcnt m \<Longrightarrow> nni_msg_free (nni_msg_clone h p) (Some p) = h"
  by (auto simp: nni_msg_free_def nni_msg_clone_def)

lemma nni_msg_unique_cases:
  assumes p: "h p = Some m" and u: "nni_msg_unique st al a h p = (q, h')"
  obtains (keep) "m_refcnt m = 1" "q = Some p" "h' = h"
  | (copy) m' where "m_refcnt m \<noteq> 1" "nni_msg_dup st al m = (0, Some m')" "q = Some a"
      "h' = nni_msg_free (h(a \<mapsto> m')) (Some p)"
  | (fail) "m_refcnt m \<noteq> 1" "q = None" "h' = nni_msg_free h (Some p)"
  using assms
  by (fastforce simp: nni_msg_unique_def split: if_splits prod.splits option.splits)

lemma nni_msg_alloc_some:
  assumes "nni_msg_alloc st al sz = Some (rv, Some m)"
  shows "msg_wf m" "nni_msg_body m = replicate sz 0" "nni_msg_header m = []" "m_refcnt m = 1"
    "nni_msg_len m = sz"
proof -
  have "rv = 0" using assms by (auto simp: nni_msg_alloc_eq Let_def split: if_splits)
  from nni_msg_alloc_ok [OF assms [unfolded this]]
  show "msg_wf m" "nni_msg_body m = replicate sz 0" "nni_msg_header m = []" "m_refcnt m = 1"
    "nni_msg_len m = sz" by auto
qed

definition merged :: "'p nng_msg \<Rightarrow> 'p nng_msg \<Rightarrow> bool" where
  "merged m m' \<longleftrightarrow> msg_wf m' \<and> m_refcnt m' = 1 \<and> nni_msg_header m' = [] \<and>
     nni_msg_body m' = nni_msg_header m @ nni_msg_body m"

lemma nni_msg_fill:
  assumes wf: "msg_wf m" "msg_wf m2" and len: "nni_msg_len m2 = nni_msg_len m + nni_msg_header_len m"
    and m2: "nni_msg_header m2 = []" "m_refcnt m2 = 1"
    and b: "b = memcpy_at (memcpy_at (ch_buf (m_body m2)) (ch_off (m_body m2)) (nni_msg_header m))
                  (ch_off (m_body m2) + nni_msg_header_len m) (nni_msg_body m)"
  shows "merged m (m2\<lparr>m_body := (m_body m2)\<lparr>ch_buf := b\<rparr>\<rparr>)"
proof -
  let ?c = "m_body m2" let ?h = "nni_msg_header m" let ?d = "nni_msg_body m"
  note w = chunk_wfD [OF msg_wfD(1) [OF wf(2)]]
  have l: "length ?h = nni_msg_header_len m" "length ?d = nni_msg_len m"
    using wf by simp_all
  have n: "ch_len ?c = nni_msg_len m + nni_msg_header_len m"
    using len by (simp add: nni_msg_len_def)
  have bb: "b = take (ch_off ?c) (ch_buf ?c) @ (?h @ ?d) @ drop (ch_off ?c + ch_len ?c) (ch_buf ?c)"
    using w l n by (simp add: b memcpy_at_def ac_simps)
  have "bslice (ch_off ?c) (ch_len ?c) b = ?h @ ?d" "length b = ch_cap ?c"
    using w l n by (simp_all add: bb bslice_def)
  then show ?thesis
    using wf(2) m2
    by (auto simp: merged_def msg_wf_def chunk_wf_def nni_msg_body_def chunk_data_def ch_off_def
        nni_msg_header_def split: option.splits)
qed

lemma nni_msg_pull_up_cases:
  assumes p: "h p = Some m" and wf: "msg_wf m" and u: "nni_msg_pull_up st al a h p = Some (q, h')"
  obtains (copy) m' where "q = Some a" "merged m m'" "h' = nni_msg_free (h(a \<mapsto> m')) (Some p)"
  | (fail) "q = None" "h' = h"
  | (inplace) m' where "q = Some p" "m_refcnt m = 1" "h' = h(p \<mapsto> m')" "m_refcnt m' = 1"
      "nni_msg_header_len m \<le> nni_chunk_room (m_body m)"
      "m' = nni_msg_header_clear (snd (nni_msg_insert al m (Some (nni_msg_header m)) (nni_msg_header_len m)))"
proof (cases "nni_chunk_room (m_body m) < nni_msg_header_len m \<or> m_refcnt m \<noteq> 1")
  case True
  obtain rv and r :: "'a nng_msg option"
    where al: "nni_msg_alloc st al (nni_msg_len m + nni_msg_header_len m) = Some (rv, r)"
    using nni_msg_alloc_returns by fastforce
  show ?thesis
  proof (cases r)
    case None
    with True al p u show ?thesis by (auto simp: nni_msg_pull_up_def intro: fail)
  next
    case (Some m2)
    note a = nni_msg_alloc_some [OF al [unfolded Some]]
    show ?thesis
      using True al p u Some nni_msg_fill [OF wf a(1) a(5) a(3) a(4) refl]
      by (auto simp: nni_msg_pull_up_def Let_def intro: copy)
  qed
next
  case False
  with p u show ?thesis
    by (intro inplace)
      (auto simp: nni_msg_pull_up_def nni_msg_header_clear_def nni_msg_insert_def split: prod.splits)
qed

lemma nni_msg_insert_total: "(\<And>k. al k) \<Longrightarrow> fst (nni_msg_insert al m data len) = 0"
  using nni_chunk_grow_total [of al "m_body m\<lparr>ch_ptr := Some (ch_off (m_body m))\<rparr>" 0 len]
  by (cases "nni_chunk_grow al (m_body m\<lparr>ch_ptr := Some (ch_off (m_body m))\<rparr>) 0 len")
    (simp add: nni_msg_insert_def nni_chunk_insert_unfold Let_def)

lemma nni_msg_insert_merged:
  assumes wf: "msg_wf m" and "m_refcnt m = 1" and sh: "\<not> insert_shifts (m_body m) (nni_msg_header_len m)"
    and al: "\<And>k. al k"
  shows "merged m (nni_msg_header_clear
           (snd (nni_msg_insert al m (Some (nni_msg_header m)) (nni_msg_header_len m))))"
proof -
  obtain m' where m': "nni_msg_insert al m (Some (nni_msg_header m)) (nni_msg_header_len m) = (0, m')"
    using nni_msg_insert_total [of al, OF al] by (metis prod.collapse)
  have "m_refcnt m' = m_refcnt m"
    using m' by (auto simp: nni_msg_insert_def split: prod.splits)
  with nni_msg_insert_ok [OF wf m' _ sh] wf assms(2) m' show ?thesis
    by (auto simp: merged_def nni_msg_header_clear_def msg_wf_def nni_msg_body_def nni_msg_header_def
        nni_msg_header_len_def)
qed

subsection \<open>Reference counts\<close>

text \<open>
  A run of the program over the shared messages. \<open>r p\<close> is the number of references to \<open>p\<close> that
  the program holds; an operation takes one of them as its argument and gives one back with its
  result.
\<close>

definition give :: "nat option \<Rightarrow> (nat \<Rightarrow> nat) \<Rightarrow> nat \<Rightarrow> nat" where
  "give q r = (case q of None \<Rightarrow> r | Some p \<Rightarrow> r(p := r p + 1))"

inductive msg_step :: "'p msg_store \<times> (nat \<Rightarrow> nat) \<Rightarrow> 'p msg_store \<times> (nat \<Rightarrow> nat) \<Rightarrow> bool" where
  step_alloc: "h a = None \<Longrightarrow> nni_msg_alloc st al sz = Some (rv, Some m) \<Longrightarrow>
     msg_step (h, r) (h(a \<mapsto> m), give (Some a) r)"
| step_clone: "r p > 0 \<Longrightarrow> msg_step (h, r) (nni_msg_clone h p, give (Some p) r)"
| step_free: "r p > 0 \<Longrightarrow> msg_step (h, r) (nni_msg_free h (Some p), r(p := r p - 1))"
| step_unique: "r p > 0 \<Longrightarrow> h a = None \<Longrightarrow> nni_msg_unique st al a h p = (q, h') \<Longrightarrow>
     msg_step (h, r) (h', give q (r(p := r p - 1)))"

inductive_cases msg_stepE: "msg_step s s'"

definition refs_counted :: "'p msg_store \<times> (nat \<Rightarrow> nat) \<Rightarrow> bool" where
  "refs_counted = (\<lambda>(h, r). \<forall>p. case h p of
       None \<Rightarrow> r p = 0
     | Some m \<Rightarrow> msg_wf m \<and> r p > 0 \<and> m_refcnt m = int (r p))"

lemma refs_countedD: "refs_counted (h, r) \<Longrightarrow> r p > 0 \<Longrightarrow> \<exists>m. h p = Some m \<and> msg_wf m \<and> m_refcnt m = int (r p)"
  by (auto simp: refs_counted_def split: option.splits dest!: spec [of _ p])

lemma msg_wf_refcnt [simp]: "msg_wf (m\<lparr>m_refcnt := n\<rparr>) = msg_wf m"
  by (simp add: msg_wf_def)

lemma refs_counted_upd:
  "refs_counted (h, r) \<Longrightarrow> msg_wf m \<Longrightarrow> n > 0 \<Longrightarrow> m_refcnt m = int n \<Longrightarrow> refs_counted (h(p \<mapsto> m), r(p := n))"
  unfolding refs_counted_def by (simp split: option.splits) (metis option.distinct(1))

lemma refs_counted_del: "refs_counted (h, r) \<Longrightarrow> refs_counted (h(p := None), r(p := 0))"
  unfolding refs_counted_def by (simp split: option.splits) (metis option.distinct(1))

lemma refs_counted_free:
  assumes rc: "refs_counted (h, r)" and p: "r p > 0"
  shows "refs_counted (nni_msg_free h (Some p), r(p := r p - 1))"
proof -
  obtain m where m: "h p = Some m" "msg_wf m" "m_refcnt m = int (r p)"
    using refs_countedD [OF rc p] by blast
  show ?thesis
  proof (cases "r p = 1")
    case True
    with m refs_counted_del [OF rc] show ?thesis by (simp add: nni_msg_free_last)
  next
    case False
    with m p show ?thesis
      by (auto simp: nni_msg_free_shared intro!: refs_counted_upd [OF rc])
  qed
qed

lemma refs_counted_unique:
  assumes rc: "refs_counted (h, r)" and p: "r p > 0" and a: "h a = None"
    and u: "nni_msg_unique st al a h p = (q, h')"
  shows "refs_counted (h', give q (r(p := r p - 1)))"
proof -
  obtain m where m: "h p = Some m" "msg_wf m" "m_refcnt m = int (r p)"
    using refs_countedD [OF rc p] by blast
  from m(1) u show ?thesis
  proof (cases rule: nni_msg_unique_cases)
    case keep
    with rc p show ?thesis by (simp add: give_def)
  next
    case (copy m')
    have ap: "a \<noteq> p" using a m by auto
    have ra: "r a = 0" using rc a by (auto simp: refs_counted_def dest: spec [of _ a])
    have "msg_wf m'" "m_refcnt m' = int 1"
      using nni_msg_dup_ok [OF m(2) copy(2)] by auto
    then have "refs_counted (h(a \<mapsto> m'), r(a := 1))"
      by (intro refs_counted_upd [OF rc]) simp_all
    from refs_counted_free [OF this, of p] p ap ra copy(3,4) show ?thesis
      by (simp add: give_def fun_upd_twist)
  next
    case fail
    with refs_counted_free [OF rc p] show ?thesis by (simp add: give_def)
  qed
qed

lemma refs_counted_step: "msg_step s s' \<Longrightarrow> refs_counted s \<Longrightarrow> refs_counted s'"
proof (induction rule: msg_step.induct)
  case (step_alloc h a st al sz rv m r)
  have "r a = 0" using step_alloc by (auto simp: refs_counted_def dest: spec [of _ a])
  with step_alloc nni_msg_alloc_some [OF step_alloc(2)] show ?case
    by (auto simp: give_def intro!: refs_counted_upd)
next
  case (step_clone r p h)
  with refs_countedD [OF step_clone(2,1)] show ?case
    by (auto simp: give_def nni_msg_clone_def intro!: refs_counted_upd)
qed (use refs_counted_free refs_counted_unique in blast)+

section \<open>Buffers that grow at the end and are consumed at both ends\<close>

text \<open>
  The body and the header of a message promise the same to their users: what an append, a trim
  and a chop do to the bytes, and that a failed operation leaves the buffer alone. \<open>app\<close> appends
  a whole piece.
\<close>

primrec app_all :: "('b \<Rightarrow> bytes \<Rightarrow> int \<times> 'b) \<Rightarrow> 'b \<Rightarrow> bytes list \<Rightarrow> int \<times> 'b" where
  "app_all app b [] = (0, b)"
| "app_all app b (d # ds) =
     (case app b d of (rv, b') \<Rightarrow> if rv \<noteq> 0 then (rv, b') else app_all app b' ds)"

locale byte_buffer =
  fixes wf :: "'b \<Rightarrow> bool" and bytes_of :: "'b \<Rightarrow> bytes"
    and app :: "'b \<Rightarrow> bytes \<Rightarrow> int \<times> 'b" and trim chop :: "'b \<Rightarrow> nat \<Rightarrow> int \<times> 'b"
  assumes app_ok: "wf b \<Longrightarrow> app b d = (0, b') \<Longrightarrow> wf b' \<and> bytes_of b' = bytes_of b @ d"
    and app_fail: "app b d = (rv, b') \<Longrightarrow> rv \<noteq> 0 \<Longrightarrow> b' = b"
    and trim_ok: "wf b \<Longrightarrow> n \<le> length (bytes_of b) \<Longrightarrow>
      \<exists>b'. trim b n = (0, b') \<and> wf b' \<and> bytes_of b' = drop n (bytes_of b)"
    and chop_ok: "wf b \<Longrightarrow> n \<le> length (bytes_of b) \<Longrightarrow>
      \<exists>b'. chop b n = (0, b') \<and> wf b' \<and> bytes_of b' = take (length (bytes_of b) - n) (bytes_of b)"
    and trim_err: "wf b \<Longrightarrow> length (bytes_of b) < n \<Longrightarrow> trim b n = (NNG_EINVAL, b)"
    and chop_err: "wf b \<Longrightarrow> length (bytes_of b) < n \<Longrightarrow> chop b n = (NNG_EINVAL, b)"
begin

lemma app_all_ok:
  "wf b \<Longrightarrow> app_all app b ds = (0, b') \<Longrightarrow> wf b' \<and> bytes_of b' = bytes_of b @ concat ds"
proof (induction ds arbitrary: b)
  case (Cons d ds)
  then obtain b1 where b1: "app b d = (0, b1)" "app_all app b1 ds = (0, b')"
    by (auto split: prod.splits if_splits)
  with app_ok [OF Cons(2) b1(1)] Cons.IH [OF _ b1(2)] show ?case by simp
qed simp

lemma app_trim:
  assumes "wf b" "app b d = (0, b')"
  shows "\<exists>c. trim b' (length (bytes_of b)) = (0, c) \<and> wf c \<and> bytes_of c = d"
  using app_ok [OF assms] trim_ok [of b' "length (bytes_of b)"] by auto

lemma app_chop:
  assumes "wf b" "app b d = (0, b')"
  shows "\<exists>c. chop b' (length d) = (0, c) \<and> wf c \<and> bytes_of c = bytes_of b"
  using app_ok [OF assms] chop_ok [of b' "length d"] by auto

lemma consume:
  "wf b \<Longrightarrow> bytes_of b = x @ y \<Longrightarrow> \<exists>c. trim b (length x) = (0, c) \<and> wf c \<and> bytes_of c = y"
  using trim_ok [of b "length x"] by auto

end

lemma nni_chunk_trim_err: "ch_len ch < n \<Longrightarrow> nni_chunk_trim ch n = (NNG_EINVAL, ch)"
  by (simp add: nni_chunk_trim_def)

lemma nni_chunk_chop_err: "ch_len ch < n \<Longrightarrow> nni_chunk_chop ch n = (NNG_EINVAL, ch)"
  by (simp add: nni_chunk_chop_def)

interpretation body_buf: byte_buffer msg_wf nni_msg_body
  "\<lambda>m d. nni_msg_append al m (Some d) (length d)" nni_msg_trim nni_msg_chop for al
proof
  fix m m' :: "'a nng_msg" and d rv n
  show "msg_wf m \<Longrightarrow> nni_msg_append al m (Some d) (length d) = (0, m') \<Longrightarrow>
      msg_wf m' \<and> nni_msg_body m' = nni_msg_body m @ d"
    using nni_msg_append_ok [of m al d "length d" m'] by simp
  show "nni_msg_append al m (Some d) (length d) = (rv, m') \<Longrightarrow> rv \<noteq> 0 \<Longrightarrow> m' = m"
    using nni_msg_append_fail by blast
  assume wf: "msg_wf m"
  show "n \<le> length (nni_msg_body m) \<Longrightarrow> \<exists>b'. nni_msg_trim m n = (0, b') \<and> msg_wf b' \<and>
      nni_msg_body b' = drop n (nni_msg_body m)"
    using nni_msg_trim_ok [OF wf, of n] wf by (metis length_nni_msg_body prod.collapse)
  show "n \<le> length (nni_msg_body m) \<Longrightarrow> \<exists>b'. nni_msg_chop m n = (0, b') \<and> msg_wf b' \<and>
      nni_msg_body b' = take (length (nni_msg_body m) - n) (nni_msg_body m)"
    using nni_msg_chop_ok [OF wf, of n] wf by (metis length_nni_msg_body prod.collapse)
  show "length (nni_msg_body m) < n \<Longrightarrow> nni_msg_trim m n = (NNG_EINVAL, m)"
    using wf by (simp add: nni_msg_trim_def nni_chunk_trim_err nni_msg_len_def)
  show "length (nni_msg_body m) < n \<Longrightarrow> nni_msg_chop m n = (NNG_EINVAL, m)"
    using wf by (simp add: nni_msg_chop_def nni_chunk_chop_err nni_msg_len_def)
qed

interpretation hdr_buf: byte_buffer msg_wf nni_msg_header
  "\<lambda>m d. nni_msg_header_append m d (length d)" nni_msg_header_trim nni_msg_header_chop
proof
  fix m m' :: "'a nng_msg" and d rv n
  show "msg_wf m \<Longrightarrow> nni_msg_header_append m d (length d) = (0, m') \<Longrightarrow>
      msg_wf m' \<and> nni_msg_header m' = nni_msg_header m @ d"
    using nni_msg_header_append_ok [of m "length d" d]
    by (force simp: nni_msg_header_append_def split: if_splits)
  show "nni_msg_header_append m d (length d) = (rv, m') \<Longrightarrow> rv \<noteq> 0 \<Longrightarrow> m' = m"
    by (auto simp: nni_msg_header_append_def split: if_splits)
  assume wf: "msg_wf m"
  then have l: "length (nni_msg_header m) = m_header_len m"
    by (simp add: nni_msg_header_len_def)
  show "n \<le> length (nni_msg_header m) \<Longrightarrow> \<exists>b'. nni_msg_header_trim m n = (0, b') \<and> msg_wf b' \<and>
      nni_msg_header b' = drop n (nni_msg_header m)"
    using nni_msg_header_trim_ok [OF wf, of n] l by (metis prod.collapse)
  show "n \<le> length (nni_msg_header m) \<Longrightarrow> \<exists>b'. nni_msg_header_chop m n = (0, b') \<and> msg_wf b' \<and>
      nni_msg_header b' = take (length (nni_msg_header m) - n) (nni_msg_header m)"
    using nni_msg_header_chop_ok [OF wf, of n] l by (metis prod.collapse)
  show "length (nni_msg_header m) < n \<Longrightarrow> nni_msg_header_trim m n = (NNG_EINVAL, m)"
    using l by (simp add: nni_msg_header_trim_def)
  show "length (nni_msg_header m) < n \<Longrightarrow> nni_msg_header_chop m n = (NNG_EINVAL, m)"
    using l by (simp add: nni_msg_header_chop_def)
qed

section \<open>Properties of messages\<close>

text \<open>C19: Appending a sequence of pieces to the body of a well-formed message and then trimming the
  old bytes off the front leaves exactly the pieces, in order; the message stays well formed.
  (\<open>nni_msg_append\<close>, \<open>nni_msg_trim\<close>, both through \<open>nni_chunk_grow\<close>.)\<close>

theorem nni_msg_body_fifo:
  assumes "msg_wf m" and "app_all (\<lambda>m d. nni_msg_append al m (Some d) (length d)) m ds = (0, m')"
  shows "nni_msg_body m' = nni_msg_body m @ concat ds \<and>
    (\<exists>m''. nni_msg_trim m' (nni_msg_len m) = (0, m'') \<and> msg_wf m'' \<and> nni_msg_body m'' = concat ds)"
  using body_buf.app_all_ok [OF assms] body_buf.consume [of m' "nni_msg_body m" "concat ds"] assms
  by simp

theorem nni_msg_body_fifo_witness:
  "nni_msg_body (snd (app_all (\<lambda>m d. nni_msg_append (\<lambda>k. k < 100) m (Some d) (length d))
      (zero_msg :: unit nng_msg) [[1, 2], [], [3]])) = [1, 2, 3]"
  using nni_msg_body_fifo [of "zero_msg :: unit nng_msg" "\<lambda>k. k < 100" "[[1, 2], [], [3]]"
      "snd (app_all (\<lambda>m d. nni_msg_append (\<lambda>k. k < 100) m (Some d) (length d))
      (zero_msg :: unit nng_msg) [[1, 2], [], [3]])"]
  by (simp add: nni_msg_append_def nni_chunk_append_def nni_chunk_grow_def zero_msg_def zero_chunk_def
      ptr_inside_def ch_off_def nni_msg_body_def msg_wf_def chunk_wf_def chunk_data_def bslice_def)

text \<open>An insertion puts the new bytes in front of the body when it does not take the branch that
  shifts the data inside the buffer; when the allocator refuses, the bytes are unchanged.
  (\<open>nni_msg_insert\<close>.)\<close>

theorem nni_msg_insert_prepends:
  assumes "msg_wf m" "len \<le> length d" "\<not> insert_shifts (m_body m) len"
    and "nni_msg_insert al m (Some d) len = (rv, m')"
  shows "rv = 0 \<and> msg_wf m' \<and> nni_msg_body m' = take len d @ nni_msg_body m \<or>
    rv = NNG_ENOMEM \<and> nni_msg_body m' = nni_msg_body m"
proof (cases "rv = 0")
  case True
  with nni_msg_insert_ok assms show ?thesis by blast
next
  case False
  with assms nni_chunk_insert_fail [of al "m_body m" "Some d" len rv] chunk_reptr [OF msg_wfD(1)]
  show ?thesis
    by (auto simp: nni_msg_insert_def nni_msg_body_def split: prod.splits)
qed

theorem nni_msg_insert_prepends_witness:
  "nni_msg_body (snd (nni_msg_insert (\<lambda>k. False) (zero_msg\<lparr>m_body := \<lparr>ch_cap = 8, ch_len = 2,
      ch_buf = [0, 0, 0, 5, 6, 0, 0, 0], ch_ptr = Some 3\<rparr>\<rparr> :: unit nng_msg) (Some [1, 2, 3]) 3)) =
    [1, 2, 3, 5, 6]"
  using nni_msg_insert_prepends [of "zero_msg\<lparr>m_body := \<lparr>ch_cap = 8, ch_len = 2,
      ch_buf = [0, 0, 0, 5, 6, 0, 0, 0], ch_ptr = Some 3\<rparr>\<rparr> :: unit nng_msg" 3 "[1, 2, 3]"
      "\<lambda>k. False" 0]
  by (simp add: msg_wf_def chunk_wf_def zero_msg_def insert_shifts_def ch_off_def nni_msg_insert_def
      nni_chunk_insert_def insert_finish_def nni_msg_body_def chunk_data_def bslice_def memcpy_at_def
      numeral_eq_Suc)

text \<open>C40: The shifting branch of an insertion loses data: the new bytes overwrite the first bytes of
  the old body instead of preceding them, and the same number of stale bytes appears at the end.
  (\<open>nni_chunk_insert\<close>; the comment promises that the data is moved out of the way.)\<close>

theorem nni_msg_insert_shift_overwrites:
  assumes "msg_wf m" "len \<le> length d" "insert_shifts (m_body m) len"
    and "nni_msg_insert al m (Some d) len = (rv, m')"
  shows "rv = 0 \<and> (\<exists>junk. nni_msg_body m' = take len d @ drop len (nni_msg_body m) @ junk)"
proof -
  obtain ch' where c: "nni_chunk_insert al (m_body m) (Some d) len = (rv, ch')" "m_body m' = ch'"
    using assms by (auto simp: nni_msg_insert_def split: prod.splits)
  show ?thesis
    using nni_chunk_insert_shift [OF msg_wfD(1) [OF assms(1)] c(1) assms(2,3)] c(2)
    by (simp add: nni_msg_body_def)
qed

theorem nni_msg_insert_shift_overwrites_witness:
  "\<exists>junk. nni_msg_body (snd (nni_msg_insert (\<lambda>k. False) (zero_msg\<lparr>m_body := \<lparr>ch_cap = 16, ch_len = 4,
      ch_buf = [1, 2, 3, 4] @ replicate 12 0, ch_ptr = Some 0\<rparr>\<rparr> :: unit nng_msg) (Some [9, 9]) 2)) =
    [9, 9, 3, 4] @ junk"
  using nni_msg_insert_shift_overwrites [of "zero_msg\<lparr>m_body := \<lparr>ch_cap = 16, ch_len = 4,
      ch_buf = [1, 2, 3, 4] @ replicate 12 0, ch_ptr = Some 0\<rparr>\<rparr> :: unit nng_msg" 2 "[9, 9]"
      "\<lambda>k. False"]
  by (simp add: msg_wf_def chunk_wf_def zero_msg_def insert_shifts_def ch_off_def nni_msg_body_def
      chunk_data_def bslice_def) (metis prod.collapse)

text \<open>The header is a first-in first-out stack of words for the protocols: a word appended to a
  header that has more than four bytes left is kept behind the old bytes, and reading words off
  the front returns them in the order in which they were appended.
  (\<open>nni_msg_header_append_u32\<close>, \<open>nni_msg_header_trim_u32\<close>.)\<close>

theorem nni_msg_header_u32_fifo:
  assumes "msg_wf m" "nni_msg_header m = NNI_PUT32 u" 
  shows "\<exists>m1 m2 m3. nni_msg_header_append_u32 m v = Some m1 \<and>
    nni_msg_header_trim_u32 m1 = Some (u, m2) \<and> nni_msg_header_trim_u32 m2 = Some (v, m3) \<and>
    nni_msg_header m3 = [] \<and> msg_wf m3"
proof -
  have l: "m_header_len m = 4"
    using assms length_nni_msg_header [OF assms(1)] by (simp add: nni_msg_header_len_def)
  then obtain m1 where m1: "nni_msg_header_append_u32 m v = Some m1" "msg_wf m1"
      "nni_msg_header m1 = NNI_PUT32 u @ NNI_PUT32 v"
    using nni_msg_header_append_u32_ok [OF assms(1), of v] assms(2) by auto
  then obtain m2 where m2: "nni_msg_header_trim_u32 m1 = Some (u, m2)" "msg_wf m2"
      "nni_msg_header m2 = NNI_PUT32 v @ []"
    using nni_msg_header_trim_u32_ok [of m1 u] by auto
  with m1 nni_msg_header_trim_u32_ok [OF m2(2,3)] show ?thesis by blast
qed

theorem nni_msg_header_u32_fifo_witness:
  "\<exists>m1 m2 m3. nni_msg_header_append_u32 (zero_msg\<lparr>m_header_len := 4\<rparr> :: unit nng_msg) 7 = Some m1 \<and>
    nni_msg_header_trim_u32 m1 = Some (0, m2) \<and> nni_msg_header_trim_u32 m2 = Some (7, m3) \<and>
    nni_msg_header m3 = [] \<and> msg_wf m3"
  using nni_msg_header_u32_fifo [of "zero_msg\<lparr>m_header_len := 4\<rparr> :: unit nng_msg" 0 7]
  by (simp add: msg_wf_def zero_msg_def nni_msg_header_def NNI_PUT32_def numeral_eq_Suc)

text \<open>An allocation never panics. It reports \<open>NNG_EMSGSIZE\<close> exactly for sizes above \<open>2 ^ 60 - 1\<close>,
  \<open>NNG_ENOMEM\<close> exactly when the allocator refuses the struct or the buffer with its head room, and
  otherwise returns a well-formed message with an empty header, one reference and a body of the
  requested number of zero bytes. (\<open>nni_msg_alloc\<close>.)\<close>

theorem nni_msg_alloc_spec:
  "\<exists>rv r. nni_msg_alloc st al sz = Some (rv, r :: 'p nng_msg option) \<and>
     rv = (if sz > 2 ^ 60 - 1 then NNG_EMSGSIZE
           else if st \<and> al (sz + 2 * alloc_head sz) then 0 else NNG_ENOMEM) \<and>
     (case r of
        None \<Rightarrow> rv \<noteq> 0
      | Some m \<Rightarrow> rv = 0 \<and> msg_wf m \<and> nni_msg_body m = replicate sz 0 \<and> nni_msg_header m = [] \<and>
          m_refcnt m = 1)"
proof -
  obtain rv and r :: "'p nng_msg option" where a: "nni_msg_alloc st al sz = Some (rv, r)"
    using nni_msg_alloc_returns by fastforce
  have rv: "rv = (if sz > 2 ^ 60 - 1 then NNG_EMSGSIZE
           else if st \<and> al (sz + 2 * alloc_head sz) then 0 else NNG_ENOMEM)"
      "r = None \<longleftrightarrow> rv \<noteq> 0"
    using a by (auto simp: nni_msg_alloc_eq Let_def mult_2 add.assoc split: if_splits)
  show ?thesis
    using a rv nni_msg_alloc_some [of st al sz rv]
    by (cases r) (auto simp del: nni_msg_alloc_eq)
qed


definition one_msg :: "unit nng_msg" where
  "one_msg = zero_msg\<lparr>m_body := \<lparr>ch_cap = 64, ch_len = 0, ch_buf = replicate 64 0, ch_ptr = Some 32\<rparr>,
                      m_refcnt := 1\<rparr>"

lemma one_msg_alloc: "nni_msg_alloc True (\<lambda>k. True) 0 = Some (0, Some one_msg)"
  by (simp add: nni_msg_alloc_eq one_msg_def alloc_head_def)

lemma one_msg_wf [simp]: "msg_wf one_msg"
  by (simp add: one_msg_def msg_wf_def chunk_wf_def zero_msg_def)

lemma one_msg_run:
  "msg_step\<^sup>*\<^sup>* (Map.empty, \<lambda>_. 0)
     (nni_msg_clone [3 \<mapsto> one_msg] 3, give (Some 3) (give (Some 3) (\<lambda>_. 0)))"
proof -
  have "msg_step (Map.empty, \<lambda>_. 0) ([3 \<mapsto> one_msg], give (Some 3) (\<lambda>_. 0))"
    by (rule step_alloc [OF _ one_msg_alloc]) simp
  moreover have "msg_step ([3 \<mapsto> one_msg], give (Some 3) (\<lambda>_. 0))
      (nni_msg_clone [3 \<mapsto> one_msg] 3, give (Some 3) (give (Some 3) (\<lambda>_. 0)))"
    by (rule step_clone) (simp add: give_def)
  ultimately show ?thesis by (meson converse_rtranclp_into_rtranclp rtranclp.rtrancl_refl)
qed


text \<open>C30: \<open>nni_msg_unique\<close> hands out a message that nobody else holds, with the bytes of the original; a
  second holder of the original keeps it, one reference less and the bytes untouched. When it
  fails, the caller's reference is gone as well.\<close>

theorem nni_msg_unique_exclusive:
  assumes "h p = Some m" "msg_wf m" "1 \<le> m_refcnt m" "h a = None"
    and "nni_msg_unique st al a h p = (q, h')"
  shows "(\<forall>q'. q = Some q' \<longrightarrow> (\<exists>m'. h' q' = Some m' \<and> m_refcnt m' = 1 \<and> msg_wf m' \<and>
            nni_msg_body m' = nni_msg_body m \<and> nni_msg_header m' = nni_msg_header m)) \<and>
    (m_refcnt m > 1 \<longrightarrow> q \<noteq> Some p \<and> h' p = Some (m\<lparr>m_refcnt := m_refcnt m - 1\<rparr>)) \<and>
    (\<forall>x. x \<noteq> p \<longrightarrow> x \<noteq> a \<longrightarrow> h' x = h x)"
  using assms(1,5)
proof (cases rule: nni_msg_unique_cases)
  case keep
  with assms show ?thesis by simp
next
  case (copy m')
  have "a \<noteq> p" using assms by auto
  with copy assms nni_msg_dup_ok [OF assms(2) copy(2)] show ?thesis
    by (auto simp: nni_msg_free_shared)
next
  case fail
  with assms show ?thesis by (auto simp: nni_msg_free_shared)
qed

theorem nni_msg_unique_exclusive_witness:
  "\<exists>m'. snd (nni_msg_unique True (\<lambda>k. True) 4 [3 \<mapsto> one_msg\<lparr>m_refcnt := 2\<rparr>] 3) 3 = Some m' \<and> m_refcnt m' = 1"
  using nni_msg_unique_exclusive [of "[3 \<mapsto> one_msg\<lparr>m_refcnt := 2\<rparr>]" 3 "one_msg\<lparr>m_refcnt := 2\<rparr>" 4 True
      "\<lambda>k. True" "fst (nni_msg_unique True (\<lambda>k. True) 4 [3 \<mapsto> one_msg\<lparr>m_refcnt := 2\<rparr>] 3)"
      "snd (nni_msg_unique True (\<lambda>k. True) 4 [3 \<mapsto> one_msg\<lparr>m_refcnt := 2\<rparr>] 3)"]
  by simp

text \<open>\<open>nni_msg_pull_up\<close> never panics; unless the insertion takes the shifting branch, and the
  allocator does not refuse, it returns an exclusive message with an empty header whose body is
  the old header followed by the old body.\<close>

theorem nni_msg_pull_up_merges:
  assumes "h p = Some m" "msg_wf m" "1 \<le> m_refcnt m" "h a = None" "\<And>k. al k"
    and "nni_msg_len m + nni_msg_header_len m < 2 ^ 60"
    and "\<not> insert_shifts (m_body m) (nni_msg_header_len m)"
  shows "\<exists>q h' m'. nni_msg_pull_up True al a h p = Some (Some q, h') \<and> h' q = Some m' \<and> merged m m'"
proof -
  obtain rv and r :: "'a nng_msg option"
    where al: "nni_msg_alloc True al (nni_msg_len m + nni_msg_header_len m) = Some (rv, r)"
    using nni_msg_alloc_returns by fastforce
  have r: "r \<noteq> None"
    using al assms(5,6) by (auto simp: nni_msg_alloc_eq Let_def split: if_splits)
  obtain q h' where u: "nni_msg_pull_up True al a h p = Some (q, h')" "q \<noteq> None"
    using assms(1) al r
    by (cases "nni_chunk_room (m_body m) < nni_msg_header_len m \<or> m_refcnt m \<noteq> 1")
      (auto simp: nni_msg_pull_up_def Let_def)
  from assms(1,2) u(1) show ?thesis
  proof (cases rule: nni_msg_pull_up_cases)
    case (copy m')
    have "a \<noteq> p" using assms by auto
    with copy u show ?thesis by (auto simp: nni_msg_free_other)
  next
    case fail
    with u show ?thesis by simp
  next
    case (inplace m')
    with u nni_msg_insert_merged [OF assms(2) inplace(2) assms(7), of al] assms(5) show ?thesis
      by auto
  qed
qed

theorem nni_msg_pull_up_merges_witness:
  "\<exists>q h' m'. nni_msg_pull_up True (\<lambda>k. True) 4 [3 \<mapsto> one_msg\<lparr>m_header_len := 4\<rparr>] 3 = Some (Some q, h') \<and>
     h' q = Some m' \<and> merged (one_msg\<lparr>m_header_len := 4\<rparr>) m'"
  using nni_msg_pull_up_merges [of "[3 \<mapsto> one_msg\<lparr>m_header_len := 4\<rparr>]" 3 "one_msg\<lparr>m_header_len := 4\<rparr>" 4
      "\<lambda>k. True"]
  by (simp add: one_msg_def msg_wf_def chunk_wf_def zero_msg_def insert_shifts_def
      nni_msg_header_len_def nni_msg_len_def ch_off_def)

end
