(* ===== verification/Lmq.thy ===== *)
theory Lmq
  imports Message
begin

text \<open>
  The lightweight message queue of \<^verbatim>\<open>src/core/lmq.c\<close>: a ring buffer of message pointers whose size
  is a power of two. Pointers are addresses of the message store of \<open>Message\<close>; a slot that was
  never written, or holds a null pointer, is \<open>None\<close>.

  The array \<^verbatim>\<open>lmq_msgs\<close> is the list \<open>lmq_msgs\<close>; it is the inline \<^verbatim>\<open>lmq_buf\<close> of two slots while \<open>lmq_alloc\<close>
  is 0. An operation that reads or writes outside of it is \<open>None\<close>. Sizes are natural numbers,
  and the two multiplications in \<open>nni_lmq_resize\<close> that can leave 64 bits are reduced.

  Contents: the operations; the queue as a list of its messages; the contract of a bounded queue
  as a locale and its interpretation; the defect of \<open>nni_lmq_resize\<close>.
\<close>

section \<open>The operations\<close>

record nni_lmq =
  lmq_cap :: nat
  lmq_alloc :: nat
  lmq_mask :: nat
  lmq_len :: nat
  lmq_get :: nat
  lmq_put :: nat
  lmq_msgs :: "nat option list"

definition nni_lmq_len :: "nni_lmq \<Rightarrow> nat" where
  "nni_lmq_len lmq = lmq_len lmq"

definition nni_lmq_cap :: "nni_lmq \<Rightarrow> nat" where
  "nni_lmq_cap lmq = lmq_cap lmq"

definition nni_lmq_full :: "nni_lmq \<Rightarrow> bool" where
  "nni_lmq_full lmq \<longleftrightarrow> lmq_len lmq \<ge> lmq_cap lmq"

definition nni_lmq_empty :: "nni_lmq \<Rightarrow> bool" where
  "nni_lmq_empty lmq \<longleftrightarrow> lmq_len lmq = 0"

definition nni_lmq_put :: "nni_lmq \<Rightarrow> nat option \<Rightarrow> (int \<times> nni_lmq) option" where
  "nni_lmq_put lmq msg =
     (if lmq_len lmq \<ge> lmq_cap lmq then Some (NNG_EAGAIN, lmq)
      else if lmq_put lmq \<ge> length (lmq_msgs lmq) then None
      else Some (0, lmq\<lparr>lmq_msgs := (lmq_msgs lmq)[lmq_put lmq := msg],
                        lmq_len := lmq_len lmq + 1,
                        lmq_put := (lmq_put lmq + 1) AND lmq_mask lmq\<rparr>))"

text \<open>The message a get returns is the second component; on \<open>NNG_EAGAIN\<close> none is stored.\<close>

definition nni_lmq_get :: "nni_lmq \<Rightarrow> (int \<times> nat option \<times> nni_lmq) option" where
  "nni_lmq_get lmq =
     (if lmq_len lmq = 0 then Some (NNG_EAGAIN, None, lmq)
      else if lmq_get lmq \<ge> length (lmq_msgs lmq) then None
      else Some (0, lmq_msgs lmq ! lmq_get lmq,
                 lmq\<lparr>lmq_get := (lmq_get lmq + 1) AND lmq_mask lmq, lmq_len := lmq_len lmq - 1\<rparr>))"

function nni_lmq_flush :: "'p msg_store \<Rightarrow> nni_lmq \<Rightarrow> ('p msg_store \<times> nni_lmq) option" where
  "nni_lmq_flush h lmq =
     (if lmq_len lmq > 0 then
        (if lmq_get lmq \<ge> length (lmq_msgs lmq) then None
         else nni_lmq_flush (nni_msg_free h (lmq_msgs lmq ! lmq_get lmq))
                (lmq\<lparr>lmq_get := (lmq_get lmq + 1) AND lmq_mask lmq, lmq_len := lmq_len lmq - 1\<rparr>))
      else Some (h, lmq))"
  by pat_completeness auto
termination by (relation "measure (\<lambda>(h, lmq). lmq_len lmq)") auto

declare nni_lmq_flush.simps [simp del]

text \<open>The loop of \<open>nni_lmq_fini\<close> is the one of \<open>nni_lmq_flush\<close>; the array is then released.\<close>

definition nni_lmq_fini :: "'p msg_store \<Rightarrow> nni_lmq option \<Rightarrow> ('p msg_store \<times> nni_lmq option) option" where
  "nni_lmq_fini h q =
     (case q of
        None \<Rightarrow> Some (h, None)
      | Some lmq \<Rightarrow>
          (case nni_lmq_flush h lmq of
             None \<Rightarrow> None
           | Some (h', lmq') \<Rightarrow>
               Some (h', Some (if lmq_alloc lmq' > 0 then lmq'\<lparr>lmq_msgs := []\<rparr> else lmq'))))"

partial_function (option) lmq_round :: "nat \<Rightarrow> nat \<Rightarrow> nat option" where
  "lmq_round cap alloc = (if alloc < cap then lmq_round cap ((alloc * 2) mod 2 ^ 64) else Some alloc)"

function lmq_drain ::
    "nat \<Rightarrow> nni_lmq \<Rightarrow> nat \<Rightarrow> nat option list \<Rightarrow> (nni_lmq \<times> nat \<times> nat option list) option" where
  "lmq_drain cap lmq len new_q =
     (if len < cap then
        (case nni_lmq_get lmq of
           None \<Rightarrow> None
         | Some (rv, msg, lmq') \<Rightarrow>
             if rv \<noteq> 0 then Some (lmq', len, new_q)
             else if len \<ge> length new_q then None
             else lmq_drain cap lmq' (len + 1) (new_q[len := msg]))
      else Some (lmq, len, new_q))"
  by pat_completeness auto
termination by (relation "measure (\<lambda>(cap, lmq, len, new_q). cap - len)") auto

declare lmq_drain.simps [simp del]

text \<open>\<^verbatim>\<open>sizeof(nng_msg *)\<close> is 8. \<open>al\<close> decides about the requested bytes.\<close>

definition nni_lmq_resize ::
    "allocator \<Rightarrow> 'p msg_store \<Rightarrow> nni_lmq \<Rightarrow> nat \<Rightarrow> (int \<times> 'p msg_store \<times> nni_lmq) option" where
  "nni_lmq_resize al h lmq cap =
     (case lmq_round cap 2 of
        None \<Rightarrow> None
      | Some alloc \<Rightarrow>
          (let bytes = (8 * alloc) mod 2 ^ 64 in
           if \<not> al bytes then Some (NNG_ENOMEM, h, lmq)
           else
             (case lmq_drain cap lmq 0 (replicate (bytes div 8) None) of
                None \<Rightarrow> None
              | Some (lmq1, len, new_q) \<Rightarrow>
                  (case nni_lmq_flush h lmq1 of
                     None \<Rightarrow> None
                   | Some (h', lmq2) \<Rightarrow>
                       Some (0, h', lmq2\<lparr>lmq_msgs := new_q, lmq_cap := cap, lmq_alloc := alloc,
                                         lmq_mask := alloc - 1, lmq_len := len, lmq_put := len,
                                         lmq_get := 0\<rparr>)))))"

definition lmq_inline :: nni_lmq where
  "lmq_inline = \<lparr>lmq_cap = 2, lmq_alloc = 0, lmq_mask = 1, lmq_len = 0, lmq_get = 0, lmq_put = 0,
                 lmq_msgs = [None, None]\<rparr>"

definition nni_lmq_init :: "allocator \<Rightarrow> 'p msg_store \<Rightarrow> nat \<Rightarrow> ('p msg_store \<times> nni_lmq) option" where
  "nni_lmq_init al h cap =
     (if cap > 2 then map_option snd (nni_lmq_resize al h lmq_inline cap)
      else Some (h, lmq_inline\<lparr>lmq_cap := cap\<rparr>))"

section \<open>The queue as a list\<close>

definition lmq_items :: "nni_lmq \<Rightarrow> nat option list" where
  "lmq_items lmq = map (\<lambda>i. lmq_msgs lmq ! ((lmq_get lmq + i) mod length (lmq_msgs lmq))) [0..<lmq_len lmq]"

definition lmq_shape :: "nni_lmq \<Rightarrow> bool" where
  "lmq_shape lmq \<longleftrightarrow>
     (\<exists>k. length (lmq_msgs lmq) = 2 ^ Suc k \<and> lmq_mask lmq = 2 ^ Suc k - 1 \<and>
        (if lmq_alloc lmq = 0 then k = 0 else lmq_alloc lmq = 2 ^ Suc k))"

definition lmq_wf :: "nni_lmq \<Rightarrow> bool" where
  "lmq_wf lmq \<longleftrightarrow>
     lmq_shape lmq \<and> lmq_get lmq < length (lmq_msgs lmq) \<and> lmq_len lmq \<le> lmq_cap lmq \<and>
     lmq_cap lmq \<le> length (lmq_msgs lmq) \<and>
     lmq_put lmq = (lmq_get lmq + lmq_len lmq) mod length (lmq_msgs lmq)"

lemma and_mask_nat: "(x :: nat) AND (2 ^ k - 1) = x mod 2 ^ k"
  by (metis mask_eq_exp_minus_1 take_bit_eq_mask take_bit_eq_mod)

lemma lmq_shape_mask: "lmq_shape lmq \<Longrightarrow> x AND lmq_mask lmq = x mod length (lmq_msgs lmq)"
  unfolding lmq_shape_def using and_mask_nat by metis

lemma lmq_shape_upd [simp]:
  "lmq_shape (lmq\<lparr>lmq_get := g, lmq_len := n\<rparr>) = lmq_shape lmq"
  "lmq_shape (lmq\<lparr>lmq_msgs := (lmq_msgs lmq)[i := m], lmq_len := n, lmq_put := q\<rparr>) = lmq_shape lmq"
  "lmq_shape (lmq\<lparr>lmq_cap := c\<rparr>) = lmq_shape lmq"
  by (simp_all add: lmq_shape_def)

lemma length_lmq_items [simp]: "length (lmq_items lmq) = lmq_len lmq"
  by (simp add: lmq_items_def)

lemma lmq_wfD:
  assumes "lmq_wf lmq"
  shows "lmq_get lmq < length (lmq_msgs lmq)" "lmq_put lmq < length (lmq_msgs lmq)"
    "lmq_len lmq \<le> lmq_cap lmq" "lmq_cap lmq \<le> length (lmq_msgs lmq)"
    "x AND lmq_mask lmq = x mod length (lmq_msgs lmq)"
  using assms lmq_shape_mask by (auto simp: lmq_wf_def intro: mod_less_divisor)

lemma nni_lmq_get_ok:
  assumes wf: "lmq_wf lmq" and ne: "lmq_len lmq \<noteq> 0"
  shows "\<exists>lmq'. nni_lmq_get lmq = Some (0, hd (lmq_items lmq), lmq') \<and> lmq_wf lmq' \<and>
    lmq_items lmq' = tl (lmq_items lmq) \<and> lmq_cap lmq' = lmq_cap lmq"
proof -
  let ?l = "lmq\<lparr>lmq_get := (lmq_get lmq + 1) AND lmq_mask lmq, lmq_len := lmq_len lmq - 1\<rparr>"
  note d = lmq_wfD [OF wf]
  have "hd (lmq_items lmq) = lmq_msgs lmq ! lmq_get lmq"
    using ne d by (simp add: lmq_items_def hd_map)
  moreover have "lmq_items ?l = tl (lmq_items lmq)"
    using ne d by (intro nth_equalityI) (auto simp: lmq_items_def nth_tl mod_add_left_eq)
  moreover have "lmq_wf ?l"
    using wf ne d(1,3,4) mod_add_left_eq [of "lmq_get lmq + 1" "length (lmq_msgs lmq)" "lmq_len lmq - 1"]
    by (auto simp: lmq_wf_def d(5) intro: mod_less_divisor)
  ultimately show ?thesis
    using d ne by (simp add: nni_lmq_get_def)
qed

lemma nni_lmq_put_ok:
  assumes wf: "lmq_wf lmq" and room: "lmq_len lmq < lmq_cap lmq"
  shows "\<exists>lmq'. nni_lmq_put lmq msg = Some (0, lmq') \<and> lmq_wf lmq' \<and>
    lmq_items lmq' = lmq_items lmq @ [msg] \<and> lmq_cap lmq' = lmq_cap lmq"
proof -
  let ?n = "length (lmq_msgs lmq)"
  let ?l = "lmq\<lparr>lmq_msgs := (lmq_msgs lmq)[lmq_put lmq := msg], lmq_len := lmq_len lmq + 1,
              lmq_put := (lmq_put lmq + 1) AND lmq_mask lmq\<rparr>"
  note d = lmq_wfD [OF wf]
  have put: "lmq_put lmq = (lmq_get lmq + lmq_len lmq) mod ?n"
    using wf by (simp add: lmq_wf_def)
  have other: "(lmq_get lmq + i) mod ?n \<noteq> lmq_put lmq" if "i < lmq_len lmq" for i
  proof
    assume "(lmq_get lmq + i) mod ?n = lmq_put lmq"
    then have "(lmq_get lmq + i + (lmq_len lmq - i)) mod ?n = (lmq_get lmq + i) mod ?n"
      using that put by simp
    then have "?n dvd lmq_len lmq - i"
      by (metis add_diff_cancel_left' le_add1 mod_eq_dvd_iff_nat)
    with that room d show False by (auto dest: dvd_imp_le)
  qed
  have "lmq_items ?l = lmq_items lmq @ [msg]"
  proof (intro nth_equalityI)
    fix i assume "i < length (lmq_items ?l)"
    then consider "i < lmq_len lmq" | "i = lmq_len lmq" by fastforce
    then show "lmq_items ?l ! i = (lmq_items lmq @ [msg]) ! i"
      using other [of i] put d(2) by cases (auto simp: lmq_items_def nth_append nth_list_update)
  qed simp
  moreover have "lmq_wf ?l"
    using wf room d by (auto simp: lmq_wf_def d(5) mod_Suc_eq)
  ultimately show ?thesis
    using d room by (simp add: nni_lmq_put_def)
qed

lemma nni_lmq_flush_ok:
  assumes "lmq_wf lmq"
  shows "\<exists>lmq'. nni_lmq_flush h lmq = Some (fold (\<lambda>m h. nni_msg_free h m) (lmq_items lmq) h, lmq') \<and>
    lmq_wf lmq' \<and> lmq_items lmq' = [] \<and> lmq_cap lmq' = lmq_cap lmq"
  using assms
proof (induction h lmq rule: nni_lmq_flush.induct)
  case (1 h lmq)
  show ?case
  proof (cases "lmq_len lmq = 0")
    case True
    with 1(2) show ?thesis by (simp add: nni_lmq_flush.simps [of h lmq] lmq_items_def)
  next
    case False
    let ?l = "lmq\<lparr>lmq_get := (lmq_get lmq + 1) AND lmq_mask lmq, lmq_len := lmq_len lmq - 1\<rparr>"
    note d = lmq_wfD [OF 1(2)]
    have g: "lmq_msgs lmq ! lmq_get lmq = hd (lmq_items lmq)" "lmq_wf ?l"
        "lmq_items ?l = tl (lmq_items lmq)"
      using nni_lmq_get_ok [OF 1(2) False] d False by (simp_all add: nni_lmq_get_def)
    have "lmq_items lmq = hd (lmq_items lmq) # tl (lmq_items lmq)"
      using False by (metis length_lmq_items length_0_conv list.collapse)
    then have "fold (\<lambda>m h. nni_msg_free h m) (lmq_items lmq) h =
        fold (\<lambda>m h. nni_msg_free h m) (tl (lmq_items lmq)) (nni_msg_free h (hd (lmq_items lmq)))"
      by (metis fold_simps(2))
    with 1(1) [OF _ _ g(2)] d(1) False g show ?thesis
      by (simp add: nni_lmq_flush.simps [of h lmq])
  qed
qed

lemma lmq_drain_ok:
  assumes "lmq_wf lmq" "len \<le> cap" "cap \<le> length new_q"
  shows "\<exists>lmq'. lmq_drain cap lmq len new_q =
      Some (lmq', min cap (len + lmq_len lmq),
            take len new_q @ take (cap - len) (lmq_items lmq) @ drop (min cap (len + lmq_len lmq)) new_q) \<and>
    lmq_wf lmq' \<and> lmq_items lmq' = drop (cap - len) (lmq_items lmq)"
  using assms
proof (induction cap lmq len new_q rule: lmq_drain.induct)
  case (1 cap lmq len new_q)
  show ?case
  proof (cases "len < cap \<and> lmq_len lmq \<noteq> 0")
    case False
    then show ?thesis
      using 1(2-4) by (auto simp: lmq_drain.simps [of cap lmq len] nni_lmq_get_def lmq_items_def min_def)
  next
    case True
    obtain l1 where l1: "nni_lmq_get lmq = Some (0, hd (lmq_items lmq), l1)" "lmq_wf l1"
        "lmq_items l1 = tl (lmq_items lmq)"
      using nni_lmq_get_ok [OF 1(2)] True by blast
    have len: "lmq_len l1 = lmq_len lmq - 1"
      using l1(3) by (metis length_lmq_items length_tl)
    have items: "lmq_items lmq = hd (lmq_items lmq) # lmq_items l1"
      using True l1(3) by (metis length_lmq_items length_0_conv list.collapse)
    have "take (cap - len) (lmq_items lmq) = hd (lmq_items lmq) # take (cap - (len + 1)) (lmq_items l1)"
        "drop (cap - len) (lmq_items lmq) = drop (cap - (len + 1)) (lmq_items l1)"
      using True items by (metis Suc_diff_Suc Suc_eq_plus1 take_Suc_Cons drop_Suc_Cons)+
    moreover have "min cap (len + 1 + lmq_len l1) = min cap (len + lmq_len lmq)"
      "drop (min cap (len + lmq_len lmq)) (new_q[len := hd (lmq_items lmq)]) =
       drop (min cap (len + lmq_len lmq)) new_q"
      using True len by (auto simp: drop_update_cancel)
    moreover have "take (len + 1) (new_q[len := hd (lmq_items lmq)]) = take len new_q @ [hd (lmq_items lmq)]"
      using True 1(4) by (simp add: take_Suc_conv_app_nth)
    ultimately show ?thesis
      using 1(1) [OF _ l1(1) refl refl _ _ l1(2)] 1(4) True l1(1)
      by (simp add: lmq_drain.simps [of cap lmq len])
  qed
qed

lemma lmq_round_step: "cap \<le> 2 ^ n \<Longrightarrow> n < 64 \<Longrightarrow> j \<le> n \<Longrightarrow>
   \<exists>k. lmq_round cap (2 ^ j) = Some (2 ^ k) \<and> j \<le> k \<and> k \<le> n \<and> cap \<le> 2 ^ k"
proof (induction "n - j" arbitrary: j)
  case 0
  then show ?case by (auto simp: lmq_round.simps [of cap "2 ^ j"])
next
  case (Suc d)
  show ?case
  proof (cases "2 ^ j < cap")
    case True
    then have "j < n" using Suc by (metis le_antisym not_less order_less_le)
    then have "d = n - Suc j" "Suc j \<le> n" using Suc(2) by auto
    then obtain k where k: "lmq_round cap (2 ^ Suc j) = Some (2 ^ k)" "Suc j \<le> k" "k \<le> n" "cap \<le> 2 ^ k"
      using Suc(1) [of "Suc j"] Suc(3,4) by blast
    have "(2 :: nat) ^ Suc j < 2 ^ 64"
      using \<open>j < n\<close> Suc by (intro power_strict_increasing) auto
    then have "2 ^ j * 2 mod 2 ^ 64 = (2 :: nat) ^ Suc j" by simp
    with True k show ?thesis
      unfolding lmq_round.simps [of cap "2 ^ j"] by (auto intro!: exI [of _ k])
  next
    case False
    with Suc show ?thesis by (auto simp: lmq_round.simps [of cap "2 ^ j"])
  qed
qed

lemma lmq_round_ok:
  assumes "cap \<le> 2 ^ 60"
  obtains k where "lmq_round cap 2 = Some (2 ^ Suc k)" "cap \<le> 2 ^ Suc k" "Suc k \<le> 60"
proof -
  obtain k where "lmq_round cap (2 ^ 1) = Some (2 ^ k)" "1 \<le> k" "k \<le> 60" "cap \<le> 2 ^ k"
    using lmq_round_step [of cap 60 1] assms by auto
  with that [of "k - 1"] show ?thesis by simp
qed

lemma nni_lmq_resize_cases:
  assumes wf: "lmq_wf lmq" and cap: "cap \<le> 2 ^ 60"
  obtains (nomem) "nni_lmq_resize al h lmq cap = Some (NNG_ENOMEM, h, lmq)"
  | (resized) lmq' k where "cap \<le> 2 ^ Suc k" "lmq_round cap 2 = Some (2 ^ Suc k)"
      "nni_lmq_resize al h lmq cap =
         Some (0, fold (\<lambda>m h. nni_msg_free h m) (drop cap (lmq_items lmq)) h, lmq')"
      "lmq_shape lmq'" "lmq_items lmq' = take cap (lmq_items lmq)" "lmq_cap lmq' = cap"
      "lmq_len lmq' = min cap (lmq_len lmq)" "length (lmq_msgs lmq') = 2 ^ Suc k"
      "lmq_put lmq' = lmq_len lmq'" "lmq_get lmq' = 0"
proof -
  obtain k where k: "lmq_round cap 2 = Some (2 ^ Suc k)" "cap \<le> 2 ^ Suc k" "Suc k \<le> 60"
    using lmq_round_ok [OF cap] .
  have "(2 :: nat) ^ Suc k \<le> 2 ^ 60"
    using k(3) by (intro power_increasing) auto
  then have bytes: "(8 * 2 ^ Suc k) mod 2 ^ 64 = (8 * 2 ^ Suc k :: nat)" by simp
  show ?thesis
  proof (cases "al (8 * 2 ^ Suc k)")
    case False
    with k bytes show ?thesis by (intro nomem) (simp add: nni_lmq_resize_def)
  next
    case True
    let ?q = "replicate (2 ^ Suc k) None :: nat option list"
    let ?new = "take cap (lmq_items lmq) @ drop (min cap (lmq_len lmq)) ?q"
    obtain l1 where l1: "lmq_drain cap lmq 0 ?q = Some (l1, min cap (lmq_len lmq), ?new)" "lmq_wf l1"
        "lmq_items l1 = drop cap (lmq_items lmq)"
      using lmq_drain_ok [OF wf, of 0 cap ?q] k by auto
    obtain l2 where l2: "nni_lmq_flush h l1 =
        Some (fold (\<lambda>m h. nni_msg_free h m) (drop cap (lmq_items lmq)) h, l2)"
      using nni_lmq_flush_ok [OF l1(2), of h] l1(3) by auto
    have len: "length ?new = 2 ^ Suc k"
      using k(2) by simp
    show ?thesis
    proof (rule resized [OF k(2,1)])
      show "nni_lmq_resize al h lmq cap = Some (0, fold (\<lambda>m h. nni_msg_free h m) (drop cap (lmq_items lmq)) h,
          l2\<lparr>lmq_msgs := ?new, lmq_cap := cap, lmq_alloc := 2 ^ Suc k, lmq_mask := 2 ^ Suc k - 1,
             lmq_len := min cap (lmq_len lmq), lmq_put := min cap (lmq_len lmq), lmq_get := 0\<rparr>)"
        using k True l1 l2 bytes by (simp add: nni_lmq_resize_def Let_def)
      show "lmq_items (l2\<lparr>lmq_msgs := ?new, lmq_cap := cap, lmq_alloc := 2 ^ Suc k, lmq_mask := 2 ^ Suc k - 1,
             lmq_len := min cap (lmq_len lmq), lmq_put := min cap (lmq_len lmq), lmq_get := 0\<rparr>) =
          take cap (lmq_items lmq)"
        using len k(2) by (intro nth_equalityI) (auto simp: lmq_items_def nth_append)
    qed (use len in \<open>auto simp: lmq_shape_def\<close>)
  qed
qed

section \<open>The contract of a bounded queue\<close>

primrec put_all :: "('q \<Rightarrow> 'm \<Rightarrow> (int \<times> 'q) option) \<Rightarrow> 'q \<Rightarrow> 'm list \<Rightarrow> 'q option" where
  "put_all put q [] = Some q"
| "put_all put q (m # ms) =
     (case put q m of None \<Rightarrow> None | Some (rv, q') \<Rightarrow> if rv \<noteq> 0 then None else put_all put q' ms)"

primrec get_n :: "('q \<Rightarrow> (int \<times> 'm \<times> 'q) option) \<Rightarrow> 'q \<Rightarrow> nat \<Rightarrow> ('m list \<times> 'q) option" where
  "get_n get q 0 = Some ([], q)"
| "get_n get q (Suc n) =
     (case get q of
        None \<Rightarrow> None
      | Some (rv, m, q') \<Rightarrow>
          if rv \<noteq> 0 then None
          else (case get_n get q' n of None \<Rightarrow> None | Some (ms, q'') \<Rightarrow> Some (m # ms, q'')))"

locale bounded_queue =
  fixes wf :: "'q \<Rightarrow> bool" and items :: "'q \<Rightarrow> 'm list" and cap :: "'q \<Rightarrow> nat"
    and put :: "'q \<Rightarrow> 'm \<Rightarrow> (int \<times> 'q) option" and get :: "'q \<Rightarrow> (int \<times> 'm \<times> 'q) option"
  assumes put_ok: "wf q \<Longrightarrow> length (items q) < cap q \<Longrightarrow>
      \<exists>q'. put q m = Some (0, q') \<and> wf q' \<and> items q' = items q @ [m] \<and> cap q' = cap q"
    and put_full: "wf q \<Longrightarrow> cap q \<le> length (items q) \<Longrightarrow> put q m = Some (NNG_EAGAIN, q)"
    and get_ok: "wf q \<Longrightarrow> items q = m # ms \<Longrightarrow>
      \<exists>q'. get q = Some (0, m, q') \<and> wf q' \<and> items q' = ms \<and> cap q' = cap q"
    and get_empty: "wf q \<Longrightarrow> items q = [] \<Longrightarrow> \<exists>m. get q = Some (NNG_EAGAIN, m, q)"
begin

lemma put_all_ok:
  "wf q \<Longrightarrow> length (items q) + length ms \<le> cap q \<Longrightarrow>
   \<exists>q'. put_all put q ms = Some q' \<and> wf q' \<and> items q' = items q @ ms \<and> cap q' = cap q"
proof (induction ms arbitrary: q)
  case (Cons m ms)
  then obtain q1 where "put q m = Some (0, q1)" "wf q1" "items q1 = items q @ [m]" "cap q1 = cap q"
    using put_ok [of q m] by auto
  with Cons.IH [of q1] Cons.prems show ?case by auto
qed simp

lemma get_n_ok:
  "wf q \<Longrightarrow> n \<le> length (items q) \<Longrightarrow>
   \<exists>q'. get_n get q n = Some (take n (items q), q') \<and> wf q' \<and> items q' = drop n (items q)"
proof (induction n arbitrary: q)
  case (Suc n)
  then obtain m ms where ms: "items q = m # ms" by (cases "items q") auto
  then obtain q1 where "get q = Some (0, m, q1)" "wf q1" "items q1 = ms"
    using get_ok [OF Suc.prems(1)] by blast
  with Suc.IH [of q1] Suc.prems ms show ?case by auto
qed simp

lemma fifo:
  assumes "wf q" "length (items q) + length ms \<le> cap q"
  shows "\<exists>q1 q2. put_all put q ms = Some q1 \<and> get_n get q1 (length (items q) + length ms) = Some (items q @ ms, q2) \<and>
    wf q2 \<and> items q2 = []"
  using put_all_ok [OF assms] get_n_ok by fastforce

end

interpretation lmq_queue: bounded_queue lmq_wf lmq_items lmq_cap nni_lmq_put nni_lmq_get
proof
  fix q :: nni_lmq and m ms
  assume wf: "lmq_wf q"
  show "length (lmq_items q) < lmq_cap q \<Longrightarrow> \<exists>q'. nni_lmq_put q m = Some (0, q') \<and> lmq_wf q' \<and>
      lmq_items q' = lmq_items q @ [m] \<and> lmq_cap q' = lmq_cap q"
    using nni_lmq_put_ok [OF wf] by simp
  show "lmq_cap q \<le> length (lmq_items q) \<Longrightarrow> nni_lmq_put q m = Some (NNG_EAGAIN, q)"
    by (simp add: nni_lmq_put_def)
  show "lmq_items q = m # ms \<Longrightarrow> \<exists>q'. nni_lmq_get q = Some (0, m, q') \<and> lmq_wf q' \<and> lmq_items q' = ms \<and>
      lmq_cap q' = lmq_cap q"
    using nni_lmq_get_ok [OF wf] by (metis length_lmq_items length_0_conv list.distinct(1) list.sel(1,3))
  show "lmq_items q = [] \<Longrightarrow> \<exists>m. nni_lmq_get q = Some (NNG_EAGAIN, m, q)"
    by (metis length_lmq_items list.size(3) nni_lmq_get_def)
qed

lemma lmq_inline_wf [simp]: "lmq_wf lmq_inline" "lmq_items lmq_inline = []" "lmq_len lmq_inline = 0"
  "lmq_cap lmq_inline = 2"
  by (simp_all add: lmq_wf_def lmq_shape_def lmq_inline_def lmq_items_def)

section \<open>Properties of the queue\<close>



text \<open>Initialising a queue always succeeds, for capacities up to \<open>2 ^ 60\<close>: the queue is well formed and
  empty; its capacity is the requested one, or 2 when more was requested and memory was refused.
  (\<open>nni_lmq_init\<close>.)\<close>

theorem nni_lmq_init_spec:
  assumes "cap \<le> 2 ^ 60"
  shows "\<exists>q. nni_lmq_init al h cap = Some (h, q) \<and> lmq_wf q \<and> nni_lmq_empty q \<and>
    (nni_lmq_cap q = cap \<or> cap > 2 \<and> nni_lmq_cap q = 2)"
proof (cases "cap > 2")
  case False
  then show ?thesis
    by (simp add: nni_lmq_init_def lmq_wf_def lmq_shape_def lmq_inline_def nni_lmq_empty_def nni_lmq_cap_def)
next
  case True
  from lmq_inline_wf(1) assms show ?thesis
  proof (cases rule: nni_lmq_resize_cases [where al = al and h = h])
    case nomem
    with True show ?thesis
      by (auto simp: nni_lmq_init_def nni_lmq_empty_def nni_lmq_cap_def)
  next
    case (resized q k)
    with True show ?thesis
      by (auto simp: nni_lmq_init_def nni_lmq_empty_def nni_lmq_cap_def lmq_wf_def)
  qed
qed

theorem nni_lmq_init_spec_witness:
  "\<exists>q. nni_lmq_init (\<lambda>k. k < 100) (Map.empty :: unit msg_store) 5 = Some (Map.empty, q) \<and> lmq_wf q \<and>
    nni_lmq_empty q \<and> (nni_lmq_cap q = 5 \<or> nni_lmq_cap q = 2)"
  using nni_lmq_init_spec [of 5 "\<lambda>k. k < 100" "Map.empty :: unit msg_store"] by simp

text \<open>C29: Resizing keeps the oldest messages, as many as the new capacity allows and in their order, and
  frees the others oldest first; when memory is refused nothing changes. It never leaves its
  buffers. (\<open>nni_lmq_resize\<close>, \<open>nni_lmq_flush\<close>.)\<close>

theorem nni_lmq_resize_keeps_oldest:
  assumes "lmq_wf q" "cap \<le> 2 ^ 60"
  shows "nni_lmq_resize al h q cap = Some (NNG_ENOMEM, h, q) \<or>
    (\<exists>q'. nni_lmq_resize al h q cap =
        Some (0, fold (\<lambda>m h. nni_msg_free h m) (drop cap (lmq_items q)) h, q') \<and>
      lmq_items q' = take cap (lmq_items q) \<and> lmq_cap q' = cap \<and>
      (lmq_len q' < length (lmq_msgs q') \<longrightarrow> lmq_wf q'))"
  using assms
proof (cases rule: nni_lmq_resize_cases [where al = al and h = h])
  case (resized q' k)
  then show ?thesis by (auto simp: lmq_wf_def)
qed simp

theorem nni_lmq_resize_keeps_oldest_witness:
  "nni_lmq_resize (\<lambda>k. True) (Map.empty :: unit msg_store)
     (lmq_inline\<lparr>lmq_len := 2, lmq_msgs := [Some 3, Some 4]\<rparr>) 1 \<noteq> None"
  using nni_lmq_resize_keeps_oldest [of "lmq_inline\<lparr>lmq_len := 2, lmq_msgs := [Some 3, Some 4]\<rparr>" 1
      "\<lambda>k. True" "Map.empty :: unit msg_store"]
  by (auto simp: lmq_inline_def lmq_wf_def lmq_shape_def)

text \<open>C39: Resizing a queue to a power of two that it fills leaves the put index one past the end of the
  buffer: after the next get, the next put writes outside the allocated array.
  (\<open>nni_lmq_resize\<close> sets \<^verbatim>\<open>lmq_put = len\<close> without the mask.)\<close>

theorem nni_lmq_resize_full_overflows:
  assumes "lmq_wf q" "cap = 2 ^ Suc k" "cap \<le> 2 ^ 60" "cap \<le> lmq_len q" "\<And>n. al n"
  shows "\<exists>h' q1 m q2. nni_lmq_resize al h q cap = Some (0, h', q1) \<and>
    nni_lmq_get q1 = Some (0, m, q2) \<and> nni_lmq_put q2 m' = None"
proof -
  have k: "Suc k \<le> 60"
    using assms(2,3) power_increasing_iff [of "2 :: nat" "Suc k" 60] by simp
  obtain k' where k': "lmq_round cap 2 = Some (2 ^ k')" "1 \<le> k'" "k' \<le> Suc k" "cap \<le> 2 ^ k'"
    using lmq_round_step [of cap "Suc k" 1] assms(2) k by auto
  then have round: "lmq_round cap 2 = Some cap"
    using assms(2) by (metis one_less_numeral_iff power_increasing_iff le_antisym semiring_norm(76))
  from assms(1,3) show ?thesis
  proof (cases rule: nni_lmq_resize_cases [where al = al and h = h])
    case nomem
    have "nni_lmq_resize al h q cap \<noteq> Some (NNG_ENOMEM, h, q)"
      using assms(5) round by (auto simp: nni_lmq_resize_def Let_def split: option.splits)
    with nomem show ?thesis by simp
  next
    case (resized q1 k2)
    have "length (lmq_msgs q1) = cap" using resized(2,8) round by simp
    moreover have "cap > 0" "lmq_len q1 = cap" using assms(2,4) resized(7) by simp_all
    ultimately show ?thesis
      using resized(3,6,9,10) by (simp add: nni_lmq_get_def nni_lmq_put_def)
  qed
qed

theorem nni_lmq_resize_full_overflows_witness:
  "\<exists>h' q1 m q2. nni_lmq_resize (\<lambda>k. True) (Map.empty :: unit msg_store)
     (lmq_inline\<lparr>lmq_len := 2, lmq_msgs := [Some 3, Some 4]\<rparr>) 2 = Some (0, h', q1) \<and>
     nni_lmq_get q1 = Some (0, m, q2) \<and> nni_lmq_put q2 (Some 5) = None"
  using nni_lmq_resize_full_overflows [of "lmq_inline\<lparr>lmq_len := 2, lmq_msgs := [Some 3, Some 4]\<rparr>" 2 0
      "\<lambda>k. True" "Map.empty :: unit msg_store" "Some 5"]
  by (simp add: lmq_inline_def lmq_wf_def lmq_shape_def)

end
