(* ===== verification/Probe.thy ===== *)
theory Probe
  imports Nng_Prelude
begin

text \<open>
  The probe sequence of the id hash table (\<^verbatim>\<open>ID_NEXT\<close> of \<^verbatim>\<open>src/core/idhash.c\<close>): \<open>j \<mapsto> (5 j + 1) mod N\<close>
  for a power of two \<open>N\<close>. The comment in the source says that it visits every cell; here this is
  proved (the map is a single cycle), together with what the table needs to know about the
  distance of two cells and the cells passed on the way.
\<close>

section \<open>Cycles\<close>

text \<open>
  A step function on the cells below \<open>N\<close> whose orbit reaches every cell. \<open>pdist\<close> is the number
  of steps from one cell to another.
\<close>

definition pdist :: "(nat \<Rightarrow> nat) \<Rightarrow> nat \<Rightarrow> nat \<Rightarrow> nat" where
  "pdist nxt h t = (LEAST i. (nxt ^^ i) h = t)"

definition passes :: "(nat \<Rightarrow> nat) \<Rightarrow> nat \<Rightarrow> nat \<Rightarrow> nat \<Rightarrow> bool" where
  "passes nxt h t s \<longleftrightarrow> (\<exists>i < pdist nxt h t. (nxt ^^ i) h = s)"

locale probe_cycle =
  fixes N :: nat and nxt :: "nat \<Rightarrow> nat"
  assumes N_pos: "0 < N"
    and nxt_less: "j < N \<Longrightarrow> nxt j < N"
    and cover: "h < N \<Longrightarrow> t < N \<Longrightarrow> \<exists>i < N. (nxt ^^ i) h = t"
begin

lemma orbit_less: "h < N \<Longrightarrow> (nxt ^^ i) h < N"
  by (induction i) (auto intro: nxt_less)

lemma orbit_inj:
  assumes h: "h < N" shows "inj_on (\<lambda>i. (nxt ^^ i) h) {..<N}"
proof -
  have "(\<lambda>i. (nxt ^^ i) h) ` {..<N} = {..<N}"
    using cover [OF h] orbit_less [OF h] by (auto simp: image_iff)
  then show ?thesis by (simp add: eq_card_imp_inj_on)
qed

lemma pdist_ok:
  assumes "h < N" "t < N"
  shows "(nxt ^^ pdist nxt h t) h = t" "pdist nxt h t < N"
proof -
  obtain i where i: "i < N" "(nxt ^^ i) h = t" using cover [OF assms] by blast
  then show "(nxt ^^ pdist nxt h t) h = t" unfolding pdist_def by (metis (mono_tags, lifting) LeastI)
  have "pdist nxt h t \<le> i" unfolding pdist_def using i by (intro Least_le) simp
  with i show "pdist nxt h t < N" by simp
qed

lemma pdist_eq: "h < N \<Longrightarrow> i < N \<Longrightarrow> pdist nxt h ((nxt ^^ i) h) = i"
  using orbit_inj pdist_ok orbit_less by (meson inj_onD lessThan_iff)

lemma orbit_return:
  assumes "h < N" "i < N" "(nxt ^^ Suc i) h = h"
  shows "Suc i = N"
proof (rule ccontr)
  assume "Suc i \<noteq> N"
  then have "Suc i < N" using assms by simp
  from pdist_eq [OF assms(1) this] pdist_eq [OF assms(1) N_pos] assms(3) show False by simp
qed

lemma orbit_N: "h < N \<Longrightarrow> (nxt ^^ N) h = h"
proof -
  assume h: "h < N"
  obtain n where n: "N = Suc n" using N_pos gr0_implies_Suc by blast
  let ?t = "(nxt ^^ N) h"
  obtain i where i: "i < N" "(nxt ^^ i) h = ?t"
    using cover [OF h orbit_less [OF h, of N]] by blast
  show ?thesis
  proof (cases i)
    case 0
    with i show ?thesis by simp
  next
    case (Suc j)
    have inj: "inj_on nxt {..<N}"
    proof -
      have "t \<in> nxt ` {..<N}" if t: "t < N" for t
      proof -
        obtain m where m: "m < N" "(nxt ^^ m) (nxt t) = t" using cover [OF nxt_less [OF t] t] by blast
        then have "nxt ((nxt ^^ m) t) = t" by (simp add: funpow_swap1)
        with orbit_less [OF t, of m] show ?thesis by force
      qed
      then have "nxt ` {..<N} = {..<N}" using nxt_less by auto
      then show ?thesis by (simp add: eq_card_imp_inj_on)
    qed
    have "nxt ((nxt ^^ j) h) = nxt ((nxt ^^ n) h)"
      using i Suc n by simp
    then have "(nxt ^^ j) h = (nxt ^^ n) h"
      using inj orbit_less [OF h] by (meson inj_onD lessThan_iff)
    then have "j = n"
      using orbit_inj [OF h] i Suc n by (auto dest!: inj_onD)
    with i Suc n show ?thesis by simp
  qed
qed

lemma passes_iff:
  assumes "h < N" "t < N" "s < N"
  shows "passes nxt h t s \<longleftrightarrow> pdist nxt h s < pdist nxt h t"
  unfolding passes_def using pdist_eq pdist_ok assms by (metis order_less_trans)

lemma not_passes_self: "h < N \<Longrightarrow> t < N \<Longrightarrow> \<not> passes nxt h t t"
  by (simp add: passes_iff)

lemma passes_orbit: "h < N \<Longrightarrow> t < N \<Longrightarrow> i < pdist nxt h t \<Longrightarrow> passes nxt h t ((nxt ^^ i) h)"
  by (auto simp: passes_def)

end

section \<open>The probe of the table\<close>

definition id_next :: "nat \<Rightarrow> nat \<Rightarrow> nat" where
  "id_next cap j = (j * 5 + 1) AND (cap - 1)"

lemma id_next_pow2: "id_next (2 ^ k) j = (5 * j + 1) mod 2 ^ k"
  by (metis id_next_def mask_eq_exp_minus_1 mult.commute take_bit_eq_mask take_bit_eq_mod)

lemma pow5_mod8: "(5 :: nat) ^ d mod 8 = (if even d then 1 else 5)"
proof (induction d)
  case (Suc d)
  have "5 ^ Suc d mod 8 = 5 * (5 ^ d mod 8) mod (8 :: nat)"
    by (simp add: mod_mult_right_eq)
  with Suc show ?case by simp
qed simp

lemma pow5_mod4: "(5 :: nat) ^ e mod 4 = 1"
proof (induction e)
  case (Suc e)
  have "5 ^ Suc e mod 4 = 5 * (5 ^ e mod 4) mod (4 :: nat)"
    by (simp add: mod_mult_right_eq)
  with Suc show ?case by simp
qed simp

lemma square_minus_1: "1 \<le> x \<Longrightarrow> x * x - 1 = (x - 1) * (x + 1 :: nat)"
  by (simp add: algebra_simps diff_mult_distrib)

lemma pow5_plus_1:
  obtains q where "(5 :: nat) ^ e + 1 = 2 * q" "odd q"
proof -
  have "((5 :: nat) ^ e + 1) mod 4 = 2"
    using pow5_mod4 [of e] by (metis mod_add_left_eq one_add_one mod_less numeral_less_iff semiring_norm(76,78))
  moreover have "\<exists>q. x = 2 * q \<and> odd q" if "x mod 4 = 2" for x :: nat
    using that by presburger
  ultimately show ?thesis using that by blast
qed

lemma pow5_order: "2 ^ (k + 2) dvd (5 :: nat) ^ d - 1 \<Longrightarrow> 2 ^ k dvd d"
proof (induction k arbitrary: d)
  case (Suc k)
  have "(2 :: nat) ^ 3 dvd 2 ^ (Suc k + 2)" by (intro le_imp_power_dvd) simp
  from dvd_trans [OF this Suc.prems] have "8 dvd (5 :: nat) ^ d - 1" by simp
  then have "(5 :: nat) ^ d mod 8 = 1 mod 8"
    by (subst mod_eq_dvd_iff_nat) simp_all
  then have "(if even d then 1 else 5 :: nat) = 1"
    unfolding pow5_mod8 by simp
  then have "even d" by (simp split: if_splits)
  then obtain e where d: "d = 2 * e" by blast
  obtain q where q: "(5 :: nat) ^ e + 1 = 2 * q" "odd q" using pow5_plus_1 .
  have "(5 :: nat) ^ d - 1 = (5 ^ e - 1) * (5 ^ e + 1)"
    unfolding d mult_2 power_add by (rule square_minus_1) simp
  then have "(5 :: nat) ^ d - 1 = 2 * ((5 ^ e - 1) * q)"
    by (metis q(1) mult.left_commute)
  then have "2 * 2 ^ (k + 2) dvd 2 * ((5 ^ e - 1) * q)"
    using Suc.prems by (simp only: add_Suc power_Suc)
  then have "2 ^ (k + 2) dvd (5 ^ e - 1) * q"
    by (simp only: nat_mult_dvd_cancel_disj) simp
  moreover have "coprime (2 ^ (k + 2)) q"
    using q(2) by (simp only: coprime_power_left_iff coprime_left_2_iff_odd simp_thms)
  ultimately have "2 ^ (k + 2) dvd (5 :: nat) ^ e - 1"
    by (simp only: coprime_dvd_mult_left_iff)
  from Suc.IH [OF this] show ?case by (simp add: d)
qed simp

lemma id_next_orbit: "(4 * (id_next (2 ^ k) ^^ i) h + 1) mod 2 ^ (k + 2) = 5 ^ i * (4 * h + 1) mod 2 ^ (k + 2)"
proof (induction i)
  case (Suc i)
  let ?j = "(id_next (2 ^ k) ^^ i) h" let ?M = "2 ^ (k + 2) :: nat"
  have "4 * (id_next (2 ^ k) ^^ Suc i) h = (4 * (5 * ?j + 1)) mod ?M"
    by (simp add: id_next_pow2 mult_mod_right power_add)
  then have "(4 * (id_next (2 ^ k) ^^ Suc i) h + 1) mod ?M = (4 * (5 * ?j + 1) + 1) mod ?M"
    by (simp only: mod_add_left_eq)
  also have "4 * (5 * ?j + 1) + 1 = 5 * (4 * ?j + 1)" by simp
  also have "5 * (4 * ?j + 1) mod ?M = 5 * (5 ^ i * (4 * h + 1)) mod ?M"
    by (metis Suc mod_mult_right_eq)
  finally show ?case by (simp add: mult.assoc)
qed simp

lemma id_next_return:
  assumes "(id_next (2 ^ k) ^^ i) h = (id_next (2 ^ k) ^^ j) h" "i \<le> j"
  shows "2 ^ k dvd j - i"
proof -
  let ?M = "2 ^ (k + 2) :: nat"
  have "5 ^ j * (4 * h + 1) mod ?M = 5 ^ i * (4 * h + 1) mod ?M"
    using id_next_orbit [where k = k and i = i and h = h] id_next_orbit [where k = k and i = j and h = h] assms(1)
    by metis
  then have "?M dvd 5 ^ j * (4 * h + 1) - 5 ^ i * (4 * h + 1)"
    by (subst mod_eq_dvd_iff_nat [symmetric]) (use assms(2) in \<open>intro mult_le_mono1 power_increasing; simp\<close>)
  moreover have "5 ^ j * (4 * h + 1) - 5 ^ i * (4 * h + 1) = (5 ^ (j - i) - 1) * (5 ^ i * (4 * h + 1))"
    unfolding diff_mult_distrib mult.assoc [symmetric] power_add [symmetric] using assms(2) by simp
  moreover have "odd (5 ^ i * (4 * h + 1))" by simp
  then have "coprime ?M (5 ^ i * (4 * h + 1))"
    by (simp only: coprime_power_left_iff coprime_left_2_iff_odd simp_thms)
  ultimately have "?M dvd 5 ^ (j - i) - 1"
    by (simp only: coprime_dvd_mult_left_iff)
  then show ?thesis by (rule pow5_order)
qed

interpretation id_cycle: probe_cycle "2 ^ k" "id_next (2 ^ k)" for k
proof
  show less: "id_next (2 ^ k) j < 2 ^ k" if "j < 2 ^ k" for j
    by (simp add: id_next_pow2)
  fix h t :: nat assume h: "h < 2 ^ k" and t: "t < 2 ^ k"
  have orb: "(id_next (2 ^ k) ^^ i) h < 2 ^ k" for i
    using h by (cases i) (simp_all add: id_next_pow2)
  let ?f = "\<lambda>i. (id_next (2 ^ k) ^^ i) h"
  have "inj_on ?f {..<2 ^ k}"
  proof (rule linorder_inj_onI)
    fix i j :: nat assume ij: "i < j" "i \<in> {..<2 ^ k}" "j \<in> {..<2 ^ k}"
    show "?f i \<noteq> ?f j"
    proof
      assume "?f i = ?f j"
      then have "2 ^ k dvd j - i" using ij by (intro id_next_return) auto
      with ij show False by (auto dest: dvd_imp_le)
    qed
  qed (simp add: linear)
  then have "?f ` {..<2 ^ k} = {..<2 ^ k}"
    using orb by (intro endo_inj_surj) auto
  with t have "t \<in> ?f ` {..<2 ^ k}" by (simp only: lessThan_iff)
  then show "\<exists>i < 2 ^ k. ?f i = t" by blast
qed simp

end
