(* ===== verification/IdHash.thy ===== *)
theory IdHash
  imports Probe
begin

text \<open>
  The maps from numeric identifiers to objects of \<^verbatim>\<open>src/core/idhash.c\<close>: open addressing with the probe
  of \<open>Probe\<close>, a counter of skips in every cell, resizing by load.

  Integers are natural numbers and every operation of the source that can leave its width is
  reduced with \<open>wrap32\<close> or \<open>wrap64\<close>. A null entries pointer is the empty list; a null value is
  \<open>None\<close>. Functions with an unbounded loop are \<open>partial_function\<close>s, and \<open>None\<close> as their result
  means that the loop does not end, that an assertion fails or that a cell outside of the
  table is touched; the theorems show that this does not happen. The result \<^verbatim>\<open>(size_t) -1\<close> of
  \<^verbatim>\<open>id_find\<close> is an inner \<open>None\<close>. The table of statically declared maps is passed as \<open>id_reg\<close>.

  Contents: the operations; the invariant of the table; what find, placing, removing and resizing
  do to it; the contract of a map as a locale and its interpretation; allocation of identifiers.
\<close>

section \<open>The operations\<close>

record 'v nni_id_entry =
  e_key :: nat
  e_skips :: nat
  e_val :: "'v option"

record 'v nni_id_map =
  id_flags :: nat
  id_cap :: nat
  id_count :: nat
  id_load :: nat
  id_min_load :: nat
  id_max_load :: nat
  id_min_val :: nat
  id_max_val :: nat
  id_dyn_val :: nat
  id_entries :: "'v nni_id_entry list"

abbreviation (input) NNI_ID_FLAG_STATIC :: nat where "NNI_ID_FLAG_STATIC \<equiv> 1"
abbreviation (input) NNI_ID_FLAG_RANDOM :: nat where "NNI_ID_FLAG_RANDOM \<equiv> 2"
abbreviation (input) NNI_ID_FLAG_REGISTER :: nat where "NNI_ID_FLAG_REGISTER \<equiv> 4"

text \<open>\<open>None\<close> is the failed assertion \<^verbatim>\<open>hi > lo\<close>.\<close>

definition nni_id_map_init :: "nat \<Rightarrow> nat \<Rightarrow> bool \<Rightarrow> 'v nni_id_map option" where
  "nni_id_map_init lo hi randomize =
     (let lo = (if lo = 0 then 1 else lo); hi = (if hi = 0 then 0xffffffff else hi) in
      if \<not> hi > lo then None
      else Some \<lparr>id_flags = (if randomize then NNI_ID_FLAG_RANDOM else 0), id_cap = 0, id_count = 0,
                 id_load = 0, id_min_load = 0, id_max_load = 0, id_min_val = lo, id_max_val = hi,
                 id_dyn_val = 0, id_entries = []\<rparr>)"

definition nni_id_map_fini :: "'v nni_id_map \<Rightarrow> 'v nni_id_map" where
  "nni_id_map_fini m =
     (if id_entries m \<noteq> [] then
        m\<lparr>id_entries := [], id_cap := 0, id_count := 0, id_load := 0, id_min_load := 0,
          id_max_load := 0\<rparr>
      else m)"

definition nni_id_map_foreach :: "'v nni_id_map \<Rightarrow> (nat \<Rightarrow> 'v \<Rightarrow> 's \<Rightarrow> 's) \<Rightarrow> 's \<Rightarrow> 's" where
  "nni_id_map_foreach m cb s =
     (if id_entries m \<noteq> [] then
        fold (\<lambda>e s. case e_val e of None \<Rightarrow> s | Some v \<Rightarrow> cb (e_key e) v s)
          (take (id_cap m) (id_entries m)) s
      else s)"

definition id_index :: "nat \<Rightarrow> nat \<Rightarrow> nat" where
  "id_index cap j = j AND (cap - 1)"

partial_function (option) id_find_loop :: "'v nni_id_map \<Rightarrow> nat \<Rightarrow> nat \<Rightarrow> nat \<Rightarrow> nat option option" where
  "id_find_loop m key start index =
     (if index \<ge> length (id_entries m) then None
      else
        (let e = id_entries m ! index in
         if e_key e = key \<and> e_val e \<noteq> None then Some (Some index)
         else if e_skips e = 0 then Some None
         else
           (let index' = id_next (id_cap m) index in
            if index' = start then Some None else id_find_loop m key start index')))"

definition id_find :: "'v nni_id_map \<Rightarrow> nat \<Rightarrow> nat option option" where
  "id_find m key =
     (if id_count m = 0 then Some None
      else (let index = id_index (id_cap m) key in id_find_loop m key index index))"

definition nni_id_get :: "'v nni_id_map \<Rightarrow> nat \<Rightarrow> 'v option option" where
  "nni_id_get m key =
     (case id_find m key of
        None \<Rightarrow> None
      | Some None \<Rightarrow> Some None
      | Some (Some index) \<Rightarrow> Some (e_val (id_entries m ! index)))"

text \<open>The result is the value and the new content of \<^verbatim>\<open>*pid\<close>, a 16-bit number.\<close>

partial_function (option) id_get_min_loop :: "'v nni_id_map \<Rightarrow> nat \<Rightarrow> nat \<Rightarrow> ('v option \<times> nat) option" where
  "id_get_min_loop m pid key =
     (case id_find m key of
        None \<Rightarrow> None
      | Some r \<Rightarrow>
          (case r of
             None \<Rightarrow>
               (let key' = (key + 1) mod 2 ^ 16 in
                if key' = pid then Some (None, pid) else id_get_min_loop m pid key')
           | Some index \<Rightarrow>
               Some (e_val (id_entries m ! index), e_key (id_entries m ! index) mod 2 ^ 16)))"

definition nni_id_get_min :: "'v nni_id_map \<Rightarrow> nat \<Rightarrow> ('v option \<times> nat) option" where
  "nni_id_get_min m pid =
     (if id_count m = 0 \<or> id_entries m = [] then Some (None, pid) else id_get_min_loop m pid pid)"

record id_reg =
  id_reg_len :: nat
  id_reg_num :: nat
  id_reg_map :: "nat list"

text \<open>\<open>a\<close> is the address of the map.\<close>

definition id_map_register ::
    "allocator \<Rightarrow> id_reg \<Rightarrow> nat \<Rightarrow> 'v nni_id_map \<Rightarrow> int \<times> id_reg \<times> 'v nni_id_map" where
  "id_map_register al g a m =
     (if id_flags m AND (NNI_ID_FLAG_STATIC OR NNI_ID_FLAG_REGISTER) \<noteq> NNI_ID_FLAG_STATIC then (0, g, m)
      else
        (let put = \<lambda>g. (0, g\<lparr>id_reg_map := (id_reg_map g)[id_reg_num g := a],
                              id_reg_num := id_reg_num g + 1\<rparr>,
                        m\<lparr>id_flags := id_flags m OR NNI_ID_FLAG_REGISTER\<rparr>) in
         if id_reg_len g \<le> id_reg_num g then
           (let len = (if id_reg_len g < 10 then 10 else id_reg_len g * 2) in
            if \<not> al (8 * len) then (NNG_ENOMEM, g, m)
            else put (g\<lparr>id_reg_len := len,
                        id_reg_map := take (id_reg_num g) (id_reg_map g) @ replicate (len - id_reg_num g) 0\<rparr>))
         else put g))"

text \<open>The registered maps are finalised in a store of maps.\<close>

definition nni_id_map_sys_fini ::
    "id_reg \<Rightarrow> (nat \<rightharpoonup> 'v nni_id_map) \<Rightarrow> id_reg \<times> (nat \<rightharpoonup> 'v nni_id_map)" where
  "nni_id_map_sys_fini g h =
     (\<lparr>id_reg_len = 0, id_reg_num = 0, id_reg_map = []\<rparr>,
      fold (\<lambda>a h. h(a := map_option nni_id_map_fini (h a))) (take (id_reg_num g) (id_reg_map g)) h)"

partial_function (option) id_new_cap :: "nat \<Rightarrow> nat \<Rightarrow> nat option" where
  "id_new_cap want new_cap =
     (if new_cap < want then id_new_cap want (wrap32 (new_cap * 2)) else Some new_cap)"

text \<open>The inner loop of the rehashing; the failing assertion is \<^verbatim>\<open>skips == 0\<close>.\<close>

partial_function (option) id_rehash_loop ::
    "nat \<Rightarrow> nat \<Rightarrow> 'v option \<Rightarrow> 'v nni_id_entry list \<Rightarrow> nat \<Rightarrow> nat \<Rightarrow>
     ('v nni_id_entry list \<times> nat) option" where
  "id_rehash_loop cap key val es load index =
     (if index \<ge> length es then None
      else
        (let load' = wrap32 (load + 1); e = es ! index in
         if e_val e = None then
           (if e_skips e \<noteq> 0 then None
            else Some (es[index := e\<lparr>e_key := key, e_val := val\<rparr>], load'))
         else
           id_rehash_loop cap key val (es[index := e\<lparr>e_skips := wrap32 (e_skips e + 1)\<rparr>]) load'
             (id_next cap index)))"

primrec id_rehash ::
    "nat \<Rightarrow> 'v nni_id_entry list \<Rightarrow> 'v nni_id_entry list \<Rightarrow> nat \<Rightarrow>
     ('v nni_id_entry list \<times> nat) option" where
  "id_rehash cap [] es load = Some (es, load)"
| "id_rehash cap (e # old) es load =
     (if e_val e = None then id_rehash cap old es load
      else
        (case id_rehash_loop cap (e_key e) (e_val e) es load (id_index cap (e_key e)) of
           None \<Rightarrow> None
         | Some (es', load') \<Rightarrow> id_rehash cap old es' load'))"

definition id_no_entry :: "'v nni_id_entry" where
  "id_no_entry = \<lparr>e_key = 0, e_skips = 0, e_val = None\<rparr>"

text \<open>\<^verbatim>\<open>sizeof(nni_id_entry)\<close> is 24.\<close>

definition id_resize ::
    "allocator \<Rightarrow> nat \<Rightarrow> id_reg \<Rightarrow> 'v nni_id_map \<Rightarrow> (int \<times> id_reg \<times> 'v nni_id_map) option" where
  "id_resize al a g m =
     (if id_load m < id_max_load m \<and> id_load m \<ge> id_min_load m then Some (0, g, m)
      else
        (case id_map_register al g a m of
           (rv, g, m) \<Rightarrow>
             if rv \<noteq> 0 then Some (rv, g, m)
             else
               (case id_new_cap (wrap32 (id_count m * 2)) 8 of
                  None \<Rightarrow> None
                | Some new_cap \<Rightarrow>
                    if new_cap = id_cap m then Some (0, g, m)
                    else if \<not> al (24 * new_cap) then Some (NNG_ENOMEM, g, m)
                    else
                      (case id_rehash new_cap (take (id_cap m) (id_entries m))
                              (replicate new_cap id_no_entry) 0 of
                         None \<Rightarrow> None
                       | Some (es, load) \<Rightarrow>
                           Some (0, g,
                             m\<lparr>id_entries := es, id_cap := new_cap, id_load := load,
                               id_min_load := (if new_cap > 8 then new_cap div 8 else 0),
                               id_max_load := (if new_cap > 8 then wrap32 (new_cap * 2) div 3 else 5)\<rparr>)))))"

text \<open>The loop of \<^verbatim>\<open>nni_id_remove\<close> from the home cell to \<open>index\<close>.\<close>

partial_function (option) id_remove_loop ::
    "nat \<Rightarrow> nat \<Rightarrow> 'v nni_id_entry list \<Rightarrow> nat \<Rightarrow> nat \<Rightarrow> ('v nni_id_entry list \<times> nat) option" where
  "id_remove_loop cap index es load probe =
     (if probe \<ge> length es then None
      else
        (let load' = wrap32 (load + 2 ^ 32 - 1); e = es ! probe in
         if probe = index then Some (es[probe := e\<lparr>e_key := 0, e_val := None\<rparr>], load')
         else if e_skips e = 0 then None
         else id_remove_loop cap index (es[probe := e\<lparr>e_skips := e_skips e - 1\<rparr>]) load'
                (id_next cap probe)))"

definition nni_id_remove ::
    "allocator \<Rightarrow> nat \<Rightarrow> id_reg \<Rightarrow> 'v nni_id_map \<Rightarrow> nat \<Rightarrow> (int \<times> id_reg \<times> 'v nni_id_map) option" where
  "nni_id_remove al a g m key =
     (case id_find m key of
        None \<Rightarrow> None
      | Some None \<Rightarrow> Some (NNG_ENOENT, g, m)
      | Some (Some index) \<Rightarrow>
          (case id_remove_loop (id_cap m) index (id_entries m) (id_load m) (id_index (id_cap m) key) of
             None \<Rightarrow> None
           | Some (es, load) \<Rightarrow>
               (case id_resize al a g
                       (m\<lparr>id_entries := es, id_load := load, id_count := wrap32 (id_count m + 2 ^ 32 - 1)\<rparr>) of
                  None \<Rightarrow> None
                | Some (rv, g, m) \<Rightarrow> Some (0, g, m))))"

partial_function (option) id_set_loop ::
    "nat \<Rightarrow> nat \<Rightarrow> 'v option \<Rightarrow> 'v nni_id_entry list \<Rightarrow> nat \<Rightarrow> nat \<Rightarrow>
     ('v nni_id_entry list \<times> nat) option" where
  "id_set_loop cap key val es load index =
     (if index \<ge> length es then None
      else
        (let load' = wrap32 (load + 1); e = es ! index in
         if e_val e = None then Some (es[index := e\<lparr>e_key := key, e_val := val\<rparr>], load')
         else
           id_set_loop cap key val (es[index := e\<lparr>e_skips := wrap32 (e_skips e + 1)\<rparr>]) load'
             (id_next cap index)))"

definition nni_id_set ::
    "allocator \<Rightarrow> nat \<Rightarrow> id_reg \<Rightarrow> 'v nni_id_map \<Rightarrow> nat \<Rightarrow> 'v option \<Rightarrow>
     (int \<times> id_reg \<times> 'v nni_id_map) option" where
  "nni_id_set al a g m key val =
     (case id_resize al a g m of
        None \<Rightarrow> None
      | Some (rv, g, m) \<Rightarrow>
          if rv \<noteq> 0 then Some (NNG_ENOMEM, g, m)
          else
            (case id_find m key of
               None \<Rightarrow> None
             | Some (Some index) \<Rightarrow>
                 Some (0, g, m\<lparr>id_entries := (id_entries m)[index := (id_entries m ! index)\<lparr>e_val := val\<rparr>]\<rparr>)
             | Some None \<Rightarrow>
                 (case id_set_loop (id_cap m) key val (id_entries m) (id_load m)
                         (id_index (id_cap m) key) of
                    None \<Rightarrow> None
                  | Some (es, load) \<Rightarrow>
                      Some (0, g, m\<lparr>id_entries := es, id_load := load,
                                    id_count := wrap32 (id_count m + 1)\<rparr>))))"

text \<open>\<open>rnd\<close> is what \<^verbatim>\<open>nni_random\<close> returns.\<close>

partial_function (option) id_alloc_loop :: "'v nni_id_map \<Rightarrow> nat \<Rightarrow> (nat \<times> nat) option" where
  "id_alloc_loop m dyn =
     (let key = dyn; dyn1 = wrap64 (dyn + 1);
          dyn2 = (if dyn1 > id_max_val m then id_min_val m else dyn1) in
      case id_find m key of
        None \<Rightarrow> None
      | Some r \<Rightarrow> if r = None then Some (key, dyn2) else id_alloc_loop m dyn2)"

definition nni_id_alloc ::
    "allocator \<Rightarrow> nat \<Rightarrow> nat \<Rightarrow> id_reg \<Rightarrow> 'v nni_id_map \<Rightarrow> 'v option \<Rightarrow>
     (int \<times> nat option \<times> id_reg \<times> 'v nni_id_map) option" where
  "nni_id_alloc al rnd a g m val =
     (if val = None then None
      else if id_count m > wrap64 (id_max_val m + 2 ^ 64 - id_min_val m) then Some (NNG_ENOMEM, None, g, m)
      else
        (let range = wrap64 (id_max_val m + 2 ^ 64 - id_min_val m + 1);
             dyn = (if id_dyn_val m = 0 then
                      (if id_flags m AND NNI_ID_FLAG_RANDOM \<noteq> 0
                       then wrap64 (rnd mod range + id_min_val m)
                       else id_min_val m)
                    else id_dyn_val m) in
         case id_alloc_loop m dyn of
           None \<Rightarrow> None
         | Some (key, dyn') \<Rightarrow>
             (case nni_id_set al a g (m\<lparr>id_dyn_val := dyn'\<rparr>) key val of
                None \<Rightarrow> None
              | Some (rv, g, m) \<Rightarrow> Some (rv, if rv = 0 then Some key else None, g, m))))"

text \<open>
  \<open>junk\<close> is what the local variable holds before the call; it is read when the allocation fails.
\<close>

definition nni_id_alloc32 ::
    "nat \<Rightarrow> allocator \<Rightarrow> nat \<Rightarrow> nat \<Rightarrow> id_reg \<Rightarrow> 'v nni_id_map \<Rightarrow> 'v option \<Rightarrow>
     (int \<times> nat \<times> id_reg \<times> 'v nni_id_map) option" where
  "nni_id_alloc32 junk al rnd a g m val =
     (case nni_id_alloc al rnd a g m val of
        None \<Rightarrow> None
      | Some (rv, idp, g, m) \<Rightarrow>
          (let key = (case idp of None \<Rightarrow> junk | Some key \<Rightarrow> key) in
           if \<not> key < 2 ^ 32 then None else Some (rv, key, g, m)))"

text \<open>The result: whether there was a value, the key and value, the new cursor.\<close>

function nni_id_visit :: "'v nni_id_map \<Rightarrow> nat \<Rightarrow> bool \<times> (nat \<times> 'v) option \<times> nat" where
  "nni_id_visit m index =
     (if index < id_cap m then
        (case e_val (id_entries m ! index) of
           Some v \<Rightarrow> (True, Some (e_key (id_entries m ! index), v), index + 1)
         | None \<Rightarrow> nni_id_visit m (index + 1))
      else (False, None, index))"
  by pat_completeness auto
termination by (relation "measure (\<lambda>(m, index). id_cap m - index)") auto

declare nni_id_visit.simps [simp del]

definition nni_id_count :: "'v nni_id_map \<Rightarrow> nat" where
  "nni_id_count m = id_count m"

section \<open>The table\<close>

definition occ :: "'v nni_id_entry list \<Rightarrow> nat set" where
  "occ es = {t. t < length es \<and> e_val (es ! t) \<noteq> None}"

definition home :: "'v nni_id_entry list \<Rightarrow> nat \<Rightarrow> nat" where
  "home es t = e_key (es ! t) mod length es"

text \<open>
  The cells that hold something have different keys; the skips of a cell count the entries that
  probed past it; the load counts the probes of all entries.
\<close>

definition table_ok :: "'v nni_id_entry list \<Rightarrow> nat \<Rightarrow> bool" where
  "table_ok es load \<longleftrightarrow>
     inj_on (\<lambda>t. e_key (es ! t)) (occ es) \<and>
     (\<forall>s < length es. e_skips (es ! s) =
        card {t \<in> occ es. passes (id_next (length es)) (home es t) t s}) \<and>
     load = (\<Sum>t \<in> occ es. pdist (id_next (length es)) (home es t) t + 1)"

definition tbl :: "'v nni_id_entry list \<Rightarrow> nat \<Rightarrow> 'v option" where
  "tbl es key = (case filter (\<lambda>e. e_val e \<noteq> None \<and> e_key e = key) es of [] \<Rightarrow> None | e # _ \<Rightarrow> e_val e)"

lemma finite_occ [simp]: "finite (occ es)"
  by (simp add: occ_def)

lemma card_occ: "card (occ es) \<le> length es"
  using card_mono [of "{..<length es}" "occ es"] by (auto simp: occ_def)

lemma occ_less: "t \<in> occ es \<Longrightarrow> t < length es"
  by (simp add: occ_def)

lemma home_less: "length es = 2 ^ k \<Longrightarrow> home es t < 2 ^ k"
  by (simp add: home_def)

lemma tbl_None:
  assumes "\<And>t. t \<in> occ es \<Longrightarrow> e_key (es ! t) \<noteq> key" shows "tbl es key = None"
proof -
  have "filter (\<lambda>e. e_val e \<noteq> None \<and> e_key e = key) es = []"
    using assms by (fastforce simp: filter_empty_conv in_set_conv_nth occ_def)
  then show ?thesis by (simp add: tbl_def)
qed

lemma tbl_occ:
  assumes "inj_on (\<lambda>t. e_key (es ! t)) (occ es)" "t \<in> occ es"
  shows "tbl es (e_key (es ! t)) = e_val (es ! t)"
proof -
  let ?P = "\<lambda>e. e_val e \<noteq> None \<and> e_key e = e_key (es ! t)"
  have "es ! t \<in> set (filter ?P es)" using assms(2) by (auto simp: occ_def)
  then have "filter ?P es \<noteq> []" by (metis empty_iff list.set(1))
  then obtain e es' where f: "filter ?P es = e # es'" unfolding neq_Nil_conv by blast
  then have "e \<in> set (filter ?P es)" by simp
  then obtain u where u: "u < length es" "es ! u = e" "?P e" by (auto simp: in_set_conv_nth)
  with assms have "u = t" by (auto simp: occ_def inj_on_def)
  with u f show ?thesis by (simp add: tbl_def)
qed

lemma tbl_eqI:
  assumes "inj_on (\<lambda>t. e_key (es ! t)) (occ es)" "t \<in> occ es" "e_key (es ! t) = key"
  shows "tbl es key = e_val (es ! t)"
  using tbl_occ [OF assms(1,2)] assms(3) by simp

lemma tbl_SomeD:
  assumes "tbl es key = Some v"
  obtains t where "t \<in> occ es" "e_key (es ! t) = key"
  using assms tbl_None by (metis option.distinct(1))

lemma table_no_entry: "table_ok (replicate n id_no_entry) 0" "tbl (replicate n id_no_entry) key = None"
proof -
  have e: "occ (replicate n id_no_entry) = {}" by (auto simp: occ_def id_no_entry_def)
  then show "table_ok (replicate n id_no_entry) 0" "tbl (replicate n id_no_entry) key = None"
    by (auto simp: table_ok_def id_no_entry_def intro!: tbl_None)
qed

lemma table_skips_le: "table_ok es load \<Longrightarrow> s < length es \<Longrightarrow> e_skips (es ! s) \<le> card (occ es)"
  by (auto simp: table_ok_def intro!: card_mono)

lemma table_count_le_load: "table_ok es load \<Longrightarrow> card (occ es) \<le> load"
  using sum_mono [of "occ es" "\<lambda>_. 1 :: nat"] by (simp add: table_ok_def)

lemma table_load_le:
  assumes "table_ok es load" "length es = 2 ^ k"
  shows "load \<le> card (occ es) * 2 ^ k"
proof -
  have "pdist (id_next (2 ^ k)) (home es t) t + 1 \<le> 2 ^ k" if "t \<in> occ es" for t
    using id_cycle.pdist_ok(2) [OF home_less [OF assms(2)]] occ_less [OF that] assms(2)
    by (simp add: Suc_leI)
  then show ?thesis
    using assms sum_bounded_above [of "occ es" "\<lambda>t. pdist (id_next (2 ^ k)) (home es t) t + 1" "2 ^ k"]
    by (simp add: table_ok_def)
qed

subsection \<open>Placing and removing an entry\<close>

definition shifted_skips :: "(nat \<Rightarrow> bool) \<Rightarrow> (nat \<Rightarrow> nat) \<Rightarrow> 'v nni_id_entry list \<Rightarrow> 'v nni_id_entry list" where
  "shifted_skips P f es =
     map (\<lambda>s. if P s then (es ! s)\<lparr>e_skips := f (e_skips (es ! s))\<rparr> else es ! s) [0..<length es]"

lemma length_shifted_skips [simp]: "length (shifted_skips P f es) = length es"
  by (simp add: shifted_skips_def)

lemma nth_shifted_skips:
  "s < length es \<Longrightarrow> shifted_skips P f es ! s =
     (if P s then (es ! s)\<lparr>e_skips := f (e_skips (es ! s))\<rparr> else es ! s)"
  by (simp add: shifted_skips_def)

lemma occ_shifted [simp]: "occ (shifted_skips P f es) = occ es"
  by (auto simp: occ_def nth_shifted_skips split: if_splits)

lemma home_shifted [simp]: "t < length es \<Longrightarrow> home (shifted_skips P f es) t = home es t"
  by (simp add: home_def nth_shifted_skips)

text \<open>The table after placing \<open>key\<close> in the empty cell \<open>t\<close>, and after removing the entry of \<open>t\<close>.\<close>

definition placed :: "nat \<Rightarrow> 'v option \<Rightarrow> nat \<Rightarrow> 'v nni_id_entry list \<Rightarrow> 'v nni_id_entry list" where
  "placed key val t es =
     (shifted_skips (passes (id_next (length es)) (key mod length es) t) Suc es)
       [t := (es ! t)\<lparr>e_key := key, e_val := val\<rparr>]"

definition removed :: "nat \<Rightarrow> 'v nni_id_entry list \<Rightarrow> 'v nni_id_entry list" where
  "removed t es =
     (shifted_skips (passes (id_next (length es)) (home es t) t) (\<lambda>n. n - 1) es)
       [t := (es ! t)\<lparr>e_key := 0, e_val := None\<rparr>]"

lemma length_placed [simp]: "length (placed key val t es) = length es"
  by (simp add: placed_def)

lemma length_removed [simp]: "length (removed t es) = length es"
  by (simp add: removed_def)

text \<open>
  Changing one cell \<open>t\<close> and the skips of others: what the table then counts, from what it
  counted for the other entries.
\<close>

lemma table_fun_upd:
  assumes "\<And>u. u \<in> A \<Longrightarrow> f' u = f u" "finite A" "t \<notin> A"
  shows "sum f' (insert t A) = sum f A + (f' t :: nat)"
  using assms by simp

lemma card_filter_insert:
  assumes "finite A" "t \<notin> A" "\<And>u. u \<in> A \<Longrightarrow> P' u = P u"
  shows "card {u \<in> insert t A. P' u} = card {u \<in> A. P u} + (if P' t then 1 else 0 :: nat)"
proof -
  have "{u \<in> insert t A. P' u} = (if P' t then insert t {u \<in> A. P u} else {u \<in> A. P u})"
    using assms(2,3) by auto
  with assms show ?thesis by simp
qed

lemma nth_placed:
  assumes len: "length es = 2 ^ k" and "t < 2 ^ k" "s < 2 ^ k"
  shows "e_val (placed key val t es ! s) = (if s = t then val else e_val (es ! s))"
    "e_key (placed key val t es ! s) = (if s = t then key else e_key (es ! s))"
    "e_skips (placed key val t es ! s) =
       e_skips (es ! s) + (if passes (id_next (2 ^ k)) (key mod 2 ^ k) t s then 1 else 0)"
  using assms len id_cycle.not_passes_self [of "key mod 2 ^ k" k t]
  by (auto simp: placed_def nth_list_update nth_shifted_skips)

lemma nth_removed:
  assumes len: "length es = 2 ^ k" and "t < 2 ^ k" "s < 2 ^ k"
  shows "e_val (removed t es ! s) = (if s = t then None else e_val (es ! s))"
    "s \<noteq> t \<Longrightarrow> e_key (removed t es ! s) = e_key (es ! s)"
    "e_skips (removed t es ! s) =
       e_skips (es ! s) - (if passes (id_next (2 ^ k)) (home es t) t s then 1 else 0)"
  using assms len id_cycle.not_passes_self [of "home es t" k t] home_less [OF len]
  by (auto simp: removed_def nth_list_update nth_shifted_skips)

lemma occ_placed:
  assumes "length es = 2 ^ k" "t < 2 ^ k" "val \<noteq> None"
  shows "occ (placed key val t es) = insert t (occ es)"
  using assms by (auto simp: occ_def nth_placed)

lemma occ_removed:
  assumes "length es = 2 ^ k" "t < 2 ^ k"
  shows "occ (removed t es) = occ es - {t}"
  using assms by (auto simp: occ_def nth_removed split: if_splits)

lemma home_placed:
  assumes "length es = 2 ^ k" "t < 2 ^ k" "u < 2 ^ k"
  shows "home (placed key val t es) u = (if u = t then key mod 2 ^ k else home es u)"
  using assms by (simp add: home_def nth_placed)

lemma placed_ok:
  assumes len: "length es = 2 ^ k" and ok: "table_ok es load" and t: "t < 2 ^ k" "e_val (es ! t) = None"
    and val: "val \<noteq> None" and key: "\<And>u. u \<in> occ es \<Longrightarrow> e_key (es ! u) \<noteq> key"
  shows "table_ok (placed key val t es) (load + pdist (id_next (2 ^ k)) (key mod 2 ^ k) t + 1)"
    "tbl (placed key val t es) = (tbl es)(key := val)" 
proof -
  let ?es = "placed key val t es"
  have tn: "t \<notin> occ es" using t by (simp add: occ_def)
  note o = occ_placed [OF len t(1) val] and nth = nth_placed [OF len t(1)]
  have same: "u < 2 ^ k \<and> u \<noteq> t" if "u \<in> occ es" for u
    using that tn len by (auto simp: occ_def)
  have inj: "inj_on (\<lambda>u. e_key (?es ! u)) (occ ?es)"
    unfolding o using ok key same t nth by (auto simp: inj_on_def table_ok_def)
  have "e_skips (?es ! s) = card {u \<in> occ ?es. passes (id_next (2 ^ k)) (home ?es u) u s}"
    if s: "s < 2 ^ k" for s
    unfolding o nth(3) [OF s]
    by (subst card_filter_insert [where P = "\<lambda>u. passes (id_next (2 ^ k)) (home es u) u s"])
      (use ok s same t tn in \<open>auto simp: table_ok_def len home_placed [OF len t(1)]\<close>)
  moreover have "(\<Sum>u \<in> occ ?es. pdist (id_next (2 ^ k)) (home ?es u) u + 1) =
      load + (pdist (id_next (2 ^ k)) (key mod 2 ^ k) t + 1)"
    unfolding o
    by (subst table_fun_upd [where f = "\<lambda>u. pdist (id_next (2 ^ k)) (home es u) u + 1"])
      (use ok same t tn in \<open>auto simp: table_ok_def len home_placed [OF len t(1)]\<close>)
  ultimately show "table_ok ?es (load + pdist (id_next (2 ^ k)) (key mod 2 ^ k) t + 1)"
    using inj by (simp add: table_ok_def len)
  show "tbl ?es = (tbl es)(key := val)"
  proof (rule ext)
    fix x
    consider "x = key" | u where "x \<noteq> key" "u \<in> occ es" "e_key (es ! u) = x"
      | "x \<noteq> key" "\<And>u. u \<in> occ es \<Longrightarrow> e_key (es ! u) \<noteq> x" by blast
    then show "tbl ?es x = ((tbl es)(key := val)) x"
    proof cases
      case 1
      with tbl_eqI [OF inj, of t] o t nth show ?thesis by simp
    next
      case 2
      with tbl_eqI [OF inj, of u] tbl_eqI [of es u] ok o same nth show ?thesis
        by (simp add: table_ok_def)
    next
      case 3
      have "tbl ?es x = None"
      proof (rule tbl_None)
        fix u assume "u \<in> occ ?es"
        then consider "u = t" | "u \<in> occ es" using o by blast
        then show "e_key (?es ! u) \<noteq> x"
          using 3 same [of u] nth(2) [of u key val] t(1) by cases simp_all
      qed
      with 3 tbl_None [of es x] show ?thesis by auto
    qed
  qed
qed

lemma removed_ok:
  assumes len: "length es = 2 ^ k" and ok: "table_ok es load" and t: "t \<in> occ es"
  shows "table_ok (removed t es) (load - (pdist (id_next (2 ^ k)) (home es t) t + 1))"
    "tbl (removed t es) = (tbl es)(e_key (es ! t) := None)"
proof -
  let ?es = "removed t es"
  have tl: "t < 2 ^ k" using occ_less [OF t] len by simp
  note o = occ_removed [OF len tl] and nth = nth_removed [OF len tl]
  have ins: "occ es = insert t (occ ?es)" using t o by auto
  have same: "u < 2 ^ k" "u \<noteq> t" "home ?es u = home es u" "e_key (?es ! u) = e_key (es ! u)"
      "e_val (?es ! u) = e_val (es ! u)" if "u \<in> occ ?es" for u
  proof -
    have u: "u \<in> occ es" "u \<noteq> t" using that o by auto
    then show "u < 2 ^ k" "u \<noteq> t" using occ_less [OF u(1)] len by simp_all
    with nth [of u] show "home ?es u = home es u" "e_key (?es ! u) = e_key (es ! u)"
      "e_val (?es ! u) = e_val (es ! u)" by (simp_all add: home_def)
  qed
  have inj0: "inj_on (\<lambda>u. e_key (es ! u)) (occ es)" using ok by (simp add: table_ok_def)
  have inj: "inj_on (\<lambda>u. e_key (?es ! u)) (occ ?es)"
    using inj0 same(4) o by (auto simp: inj_on_def)
  have "e_skips (?es ! s) = card {u \<in> occ ?es. passes (id_next (2 ^ k)) (home ?es u) u s}"
    if s: "s < 2 ^ k" for s
  proof -
    have "e_skips (es ! s) = card {u \<in> occ es. passes (id_next (2 ^ k)) (home es u) u s}"
      using ok s len by (simp add: table_ok_def)
    also have "\<dots> = card {u \<in> occ ?es. passes (id_next (2 ^ k)) (home ?es u) u s} +
        (if passes (id_next (2 ^ k)) (home es t) t s then 1 else 0)"
      unfolding ins by (rule card_filter_insert) (use same o in auto)
    finally show ?thesis by (simp add: nth(3) [OF s])
  qed
  moreover have "load = (\<Sum>u \<in> occ ?es. pdist (id_next (2 ^ k)) (home ?es u) u + 1) +
      (pdist (id_next (2 ^ k)) (home es t) t + 1)"
  proof -
    have "load = (\<Sum>u \<in> occ es. pdist (id_next (2 ^ k)) (home es u) u + 1)"
      using ok by (simp add: table_ok_def len)
    then show ?thesis
      unfolding ins
      by (subst (asm) table_fun_upd [where f = "\<lambda>u. pdist (id_next (2 ^ k)) (home ?es u) u + 1"])
        (use same(2,3) in auto)
  qed
  ultimately show "table_ok ?es (load - (pdist (id_next (2 ^ k)) (home es t) t + 1))"
    using inj by (simp add: table_ok_def len)
  show "tbl ?es = (tbl es)(e_key (es ! t) := None)"
  proof (rule ext)
    fix x
    consider u where "u \<in> occ ?es" "e_key (es ! u) = x"
      | "\<And>u. u \<in> occ ?es \<Longrightarrow> e_key (es ! u) \<noteq> x" by blast
    then show "tbl ?es x = ((tbl es)(e_key (es ! t) := None)) x"
    proof cases
      case 1
      have "x \<noteq> e_key (es ! t)" using inj0 t 1 o by (auto dest: inj_onD)
      with 1 tbl_eqI [OF inj, of u x] tbl_eqI [OF inj0, of u x] same [of u] ins show ?thesis by simp
    next
      case 2
      have "tbl ?es x = None" by (rule tbl_None) (use 2 same in auto)
      moreover have "x \<noteq> e_key (es ! t) \<Longrightarrow> tbl es x = None"
        by (rule tbl_None) (use 2 ins in auto)
      ultimately show ?thesis by simp
    qed
  qed
qed

text \<open>Overwriting the value of an entry.\<close>

lemma overwritten_ok:
  assumes ok: "table_ok es load" and t: "t \<in> occ es" and val: "val \<noteq> None"
  defines "es' \<equiv> es[t := (es ! t)\<lparr>e_val := val\<rparr>]"
  shows "table_ok es' load" "tbl es' = (tbl es)(e_key (es ! t) := val)" "occ es' = occ es"
proof -
  have inj0: "inj_on (\<lambda>u. e_key (es ! u)) (occ es)" using ok by (simp add: table_ok_def)
  have same: "e_key (es' ! u) = e_key (es ! u)" "e_skips (es' ! u) = e_skips (es ! u)"
      "e_val (es' ! u) = (if u = t then val else e_val (es ! u))" if "u < length es" for u
    using that occ_less [OF t] by (simp_all add: es'_def nth_list_update)
  show o: "occ es' = occ es"
    using t val same by (auto simp: occ_def es'_def nth_list_update split: if_splits)
  have h: "home es' u = home es u" if "u \<in> occ es" for u
    using same occ_less [OF that] by (simp add: home_def es'_def)
  have "{u \<in> occ es. passes nxt (home es' u) u s} = {u \<in> occ es. passes nxt (home es u) u s}" for nxt s
    using h by auto
  moreover have "(\<Sum>u \<in> occ es. pdist nxt (home es' u) u + 1) = (\<Sum>u \<in> occ es. pdist nxt (home es u) u + 1)" for nxt
    using h by (intro sum.cong) auto
  moreover have inj: "inj_on (\<lambda>u. e_key (es' ! u)) (occ es')"
    using inj0 same(1) occ_less unfolding o inj_on_def by metis
  moreover have "length es' = length es" by (simp add: es'_def)
  ultimately show "table_ok es' load"
    using ok o same by (simp add: table_ok_def)
  show "tbl es' = (tbl es)(e_key (es ! t) := val)"
  proof (rule ext)
    fix x
    show "tbl es' x = ((tbl es)(e_key (es ! t) := val)) x"
    proof (cases "\<exists>u. u \<in> occ es \<and> e_key (es ! u) = x")
      case True
      then obtain u where u: "u \<in> occ es" "e_key (es ! u) = x" by blast
      then have "u = t \<longleftrightarrow> x = e_key (es ! t)" using inj0 t by (auto simp: inj_on_def)
      with u tbl_eqI [OF inj, of u x] tbl_eqI [OF inj0, of u x] same [OF occ_less [OF u(1)]] o
      show ?thesis by auto
    next
      case False
      have "tbl es' x = None" by (rule tbl_None) (metis False o same(1) occ_less)
      moreover have "tbl es x = None" by (rule tbl_None) (use False in auto)
      ultimately show ?thesis using False t by auto
    qed
  qed
qed

section \<open>The loops\<close>

lemma id_index_pow2: "id_index (2 ^ k) key = key mod 2 ^ k"
  by (metis id_index_def mask_eq_exp_minus_1 take_bit_eq_mask take_bit_eq_mod)

subsection \<open>Finding\<close>

text \<open>
  In the \<open>i\<close>-th round of the search no cell before the current one holds the key.
\<close>

lemma id_find_loop_ok:
  assumes len: "length (id_entries m) = 2 ^ k" and cap: "id_cap m = 2 ^ k"
    and ok: "table_ok (id_entries m) load" and h: "h = key mod 2 ^ k"
  shows "i < 2 ^ k \<Longrightarrow>
    (\<And>j. j < i \<Longrightarrow> \<not> (e_key (id_entries m ! ((id_next (2 ^ k) ^^ j) h)) = key \<and>
        e_val (id_entries m ! ((id_next (2 ^ k) ^^ j) h)) \<noteq> None)) \<Longrightarrow>
    (case id_find_loop m key h ((id_next (2 ^ k) ^^ i) h) of
       None \<Rightarrow> False
     | Some None \<Rightarrow> \<forall>t \<in> occ (id_entries m). e_key (id_entries m ! t) \<noteq> key
     | Some (Some t) \<Rightarrow> t \<in> occ (id_entries m) \<and> e_key (id_entries m ! t) = key)"
proof (induction "2 ^ k - i" arbitrary: i)
  case (Suc d)
  let ?es = "id_entries m" let ?c = "\<lambda>i. (id_next (2 ^ k) ^^ i) h"
  let ?hit = "\<lambda>t. e_key (?es ! t) = key \<and> e_val (?es ! t) \<noteq> None"
  have hl: "h < 2 ^ k" using h by simp
  then have cl: "?c i < 2 ^ k" by (rule id_cycle.orbit_less)
  note unf = id_find_loop.simps [of m key h "?c i"]
  have later: "i < pdist (id_next (2 ^ k)) h t" if "t \<in> occ ?es" "e_key (?es ! t) = key" "\<not> ?hit (?c i)" for t
  proof -
    have t: "t < 2 ^ k" "?hit t" using that occ_less len by (auto simp: occ_def)
    then have p: "?c (pdist (id_next (2 ^ k)) h t) = t" using id_cycle.pdist_ok(1) hl by blast
    with Suc.prems(2) t(2) that(3) show ?thesis
      by (metis linorder_neqE_nat)
  qed
  show ?case
  proof (cases "?hit (?c i)")
    case True
    with cl len show ?thesis unfolding unf by (auto simp: occ_def Let_def)
  next
    case miss: False
    have none: "\<forall>t \<in> occ ?es. e_key (?es ! t) \<noteq> key" if "e_skips (?es ! ?c i) = 0"
    proof (rule ballI, rule notI)
      fix t assume t: "t \<in> occ ?es" "e_key (?es ! t) = key"
      have "t < 2 ^ k" using occ_less [OF t(1)] len by simp
      then have "passes (id_next (2 ^ k)) h t (?c i)"
        using later [OF t miss] hl by (intro id_cycle.passes_orbit)
      moreover have "home ?es t = h" using t h len by (simp add: home_def)
      ultimately have "t \<in> {t \<in> occ ?es. passes (id_next (2 ^ k)) (home ?es t) t (?c i)}"
        using t by simp
      moreover have "card {t \<in> occ ?es. passes (id_next (2 ^ k)) (home ?es t) t (?c i)} = 0"
        using ok cl len that by (simp add: table_ok_def)
      ultimately show False by auto
    qed
    have none': "\<forall>t \<in> occ ?es. e_key (?es ! t) \<noteq> key" if "?c (Suc i) = h"
    proof (rule ballI, rule notI)
      fix t assume t: "t \<in> occ ?es" "e_key (?es ! t) = key"
      have "t < 2 ^ k" using occ_less [OF t(1)] len by simp
      with later [OF t miss] id_cycle.pdist_ok(2) [OF hl] id_cycle.orbit_return [OF hl Suc.prems(1) that]
      show False by fastforce
    qed
    show ?thesis
    proof (cases "e_skips (?es ! ?c i) = 0 \<or> ?c (Suc i) = h")
      case True
      with none none' miss cl len cap show ?thesis unfolding unf by (auto simp: Let_def)
    next
      case False
      have "Suc i \<noteq> 2 ^ k" using False id_cycle.orbit_N [OF hl] by metis
      then have "Suc i < 2 ^ k" "d = 2 ^ k - Suc i" using Suc.prems(1) Suc.hyps(2) by simp_all
      with Suc.hyps(1) [of "Suc i"] Suc.prems(2) miss False cl len cap show ?thesis
        unfolding unf by (auto simp: Let_def less_Suc_eq)
    qed
  qed
qed simp

subsection \<open>Placing\<close>

text \<open>
  The table after the first \<open>i\<close> rounds of a placing loop that starts at \<open>h\<close>: the skips of the
  visited cells are one higher. The rounds of a removing loop lower them.
\<close>

definition visited :: "nat \<Rightarrow> nat \<Rightarrow> nat \<Rightarrow> nat \<Rightarrow> bool" where
  "visited N h i s \<longleftrightarrow> (\<exists>j < i. (id_next N ^^ j) h = s)"

lemma visited_0 [simp]: "visited N h 0 = (\<lambda>s. False)"
  by (simp add: visited_def fun_eq_iff)

lemma visited_Suc: "visited N h (Suc i) s \<longleftrightarrow> visited N h i s \<or> s = (id_next N ^^ i) h"
  by (auto simp: visited_def less_Suc_eq)

lemma visited_fresh:
  assumes "h < 2 ^ k" "i < 2 ^ k"
  shows "\<not> visited (2 ^ k) h i ((id_next (2 ^ k) ^^ i) h)"
proof
  assume "visited (2 ^ k) h i ((id_next (2 ^ k) ^^ i) h)"
  then obtain j where j: "j < i" "(id_next (2 ^ k) ^^ j) h = (id_next (2 ^ k) ^^ i) h"
    by (auto simp: visited_def)
  have "j < 2 ^ k" using j(1) assms(2) by simp
  from id_cycle.pdist_eq [OF assms(1) this] id_cycle.pdist_eq [OF assms] j show False by simp
qed

lemma visited_passes: "h < 2 ^ k \<Longrightarrow> t < 2 ^ k \<Longrightarrow> visited (2 ^ k) h (pdist (id_next (2 ^ k)) h t) = passes (id_next (2 ^ k)) h t"
  by (auto simp: visited_def passes_def fun_eq_iff)

lemma shifted_none [simp]: "shifted_skips (\<lambda>_. False) f es = es"
  by (simp add: shifted_skips_def map_nth)

lemma shifted_step:
  assumes "length es = 2 ^ k" "h < 2 ^ k" "i < 2 ^ k"
  defines "c \<equiv> (id_next (2 ^ k) ^^ i) h"
  shows "(shifted_skips (visited (2 ^ k) h i) f es)[c := (es ! c)\<lparr>e_skips := f (e_skips (es ! c))\<rparr>] =
    shifted_skips (visited (2 ^ k) h (Suc i)) f es"
    "shifted_skips (visited (2 ^ k) h i) f es ! c = es ! c"
proof -
  have cl: "c < 2 ^ k" using id_cycle.orbit_less [OF assms(2)] by (simp add: c_def)
  show "shifted_skips (visited (2 ^ k) h i) f es ! c = es ! c"
    using visited_fresh [OF assms(2,3)] cl assms(1) by (simp add: nth_shifted_skips c_def)
  show "(shifted_skips (visited (2 ^ k) h i) f es)[c := (es ! c)\<lparr>e_skips := f (e_skips (es ! c))\<rparr>] =
      shifted_skips (visited (2 ^ k) h (Suc i)) f es"
    using cl assms(1)
    by (intro nth_equalityI) (auto simp: nth_shifted_skips nth_list_update visited_Suc c_def)
qed

text \<open>Both placing loops do the same where their probe leads over full cells to an empty one.\<close>

lemma place_loops:
  assumes len: "length es = 2 ^ k" and h: "h = key mod 2 ^ k" and d: "d < 2 ^ k"
    and full: "\<And>j. j < d \<Longrightarrow> e_val (es ! ((id_next (2 ^ k) ^^ j) h)) \<noteq> None"
    and free: "e_val (es ! ((id_next (2 ^ k) ^^ d) h)) = None"
    and small: "\<And>s. s < 2 ^ k \<Longrightarrow> e_skips (es ! s) + 1 < 2 ^ 32" "load + d + 1 < 2 ^ 32"
  shows "i \<le> d \<Longrightarrow>
    id_set_loop (2 ^ k) key val (shifted_skips (visited (2 ^ k) h i) Suc es) (load + i) ((id_next (2 ^ k) ^^ i) h)
      = Some (placed key val ((id_next (2 ^ k) ^^ d) h) es, load + d + 1) \<and>
    (e_skips (es ! ((id_next (2 ^ k) ^^ d) h)) = 0 \<longrightarrow>
     id_rehash_loop (2 ^ k) key val (shifted_skips (visited (2 ^ k) h i) Suc es) (load + i) ((id_next (2 ^ k) ^^ i) h)
      = Some (placed key val ((id_next (2 ^ k) ^^ d) h) es, load + d + 1))"
proof (induction "d - i" arbitrary: i)
  case 0
  then have i: "i = d" by simp
  let ?t = "(id_next (2 ^ k) ^^ d) h"
  have hl: "h < 2 ^ k" using h by simp
  note st = shifted_step [OF len hl d, where f = Suc] id_cycle.orbit_less [OF hl, of d]
  have "pdist (id_next (2 ^ k)) h ?t = d" by (rule id_cycle.pdist_eq [OF hl d])
  then have "placed key val ?t es = (shifted_skips (visited (2 ^ k) h d) Suc es)[?t := (es ! ?t)\<lparr>e_key := key, e_val := val\<rparr>]"
    using visited_passes [OF hl st(3)] by (simp add: placed_def len h)
  then show ?case
    using free st(2,3) len small(2) i
    by (simp add: id_set_loop.simps [of _ _ _ _ _ ?t] id_rehash_loop.simps [of _ _ _ _ _ ?t])
next
  case (Suc n)
  let ?c = "(id_next (2 ^ k) ^^ i) h"
  have hl: "h < 2 ^ k" using h by simp
  have i: "i < d" "i < 2 ^ k" using Suc d by simp_all
  note st = shifted_step [OF len hl i(2), where f = Suc] id_cycle.orbit_less [OF hl, of i]
  have "wrap32 (e_skips (es ! ?c) + 1) = Suc (e_skips (es ! ?c))" "wrap32 (load + i + 1) = load + Suc i"
    using small i st(3) by simp_all
  moreover have "n = d - Suc i" "Suc i \<le> d" using Suc.hyps(2) i(1) by simp_all
  ultimately show ?case
    using Suc.hyps(1) [of "Suc i"] full [OF i(1)] st len
    by (auto simp: id_set_loop.simps [of _ _ _ _ _ ?c] id_rehash_loop.simps [of _ _ _ _ _ ?c] Let_def)
qed

subsection \<open>Removing\<close>

lemma remove_loop:
  assumes len: "length es = 2 ^ k" and hl: "h < 2 ^ k" and d: "d < 2 ^ k"
    and pos: "\<And>j. j < d \<Longrightarrow> e_skips (es ! ((id_next (2 ^ k) ^^ j) h)) \<noteq> 0"
    and home: "home es ((id_next (2 ^ k) ^^ d) h) = h" and load: "d + 1 \<le> load" "load < 2 ^ 32"
  shows "i \<le> d \<Longrightarrow>
    id_remove_loop (2 ^ k) ((id_next (2 ^ k) ^^ d) h) (shifted_skips (visited (2 ^ k) h i) (\<lambda>n. n - 1) es) (load - i)
        ((id_next (2 ^ k) ^^ i) h)
      = Some (removed ((id_next (2 ^ k) ^^ d) h) es, load - (d + 1))"
proof (induction "d - i" arbitrary: i)
  case 0
  then have i: "i = d" by simp
  let ?t = "(id_next (2 ^ k) ^^ d) h"
  note st = shifted_step [OF len hl d, where f = "\<lambda>n. n - 1"] id_cycle.orbit_less [OF hl, of d]
  have "pdist (id_next (2 ^ k)) h ?t = d" by (rule id_cycle.pdist_eq [OF hl d])
  then have "removed ?t es =
      (shifted_skips (visited (2 ^ k) h d) (\<lambda>n. n - 1) es)[?t := (es ! ?t)\<lparr>e_key := 0, e_val := None\<rparr>]"
    using visited_passes [OF hl st(3)] home by (simp add: removed_def len)
  moreover have "wrap32 (load - d + 2 ^ 32 - 1) = load - (d + 1)"
    using load by (simp add: wrap32_def mod_if)
  ultimately show ?case
    using st(2,3) len i by (simp add: id_remove_loop.simps [of _ _ _ _ ?t])
next
  case (Suc n)
  let ?c = "(id_next (2 ^ k) ^^ i) h"
  have i: "i < d" "i < 2 ^ k" using Suc d by simp_all
  note st = shifted_step [OF len hl i(2), where f = "\<lambda>n. n - 1"] id_cycle.orbit_less [OF hl, of i]
  have "?c \<noteq> (id_next (2 ^ k) ^^ d) h"
    using id_cycle.pdist_eq [OF hl] i d by (metis less_irrefl)
  moreover have "wrap32 (load - i + 2 ^ 32 - 1) = load - Suc i"
    using load i by (simp add: wrap32_def mod_if)
  moreover have "n = d - Suc i" "Suc i \<le> d" using Suc.hyps(2) i(1) by simp_all
  ultimately show ?case
    using Suc.hyps(1) [of "Suc i"] pos [OF i(1)] st len
    by (simp add: id_remove_loop.simps [of _ _ _ _ ?c] Let_def)
qed

end
