(* ===== verification/IdMap.thy ===== *)
theory IdMap
  imports IdHash
begin

text \<open>
  The operations of \<^verbatim>\<open>src/core/idhash.c\<close> on whole maps: a well-formedness invariant, that every
  operation returns and keeps it, and that the map is refined to a partial function from keys to
  values. The invariant bounds a map to \<open>2 ^ 15\<close> entries and \<open>2 ^ 16\<close> cells; then no 32-bit counter
  wraps, whatever the keys are.
\<close>

section \<open>Well-formed maps\<close>

definition id_limits :: "'v nni_id_map \<Rightarrow> bool" where
  "id_limits m \<longleftrightarrow>
     (if id_cap m > 8 then id_min_load m = id_cap m div 8 \<and> id_max_load m = wrap32 (id_cap m * 2) div 3
      else id_min_load m = 0 \<and> id_max_load m = 5)"

definition id_empty :: "'v nni_id_map \<Rightarrow> bool" where
  "id_empty m \<longleftrightarrow> id_cap m = 0 \<and> id_entries m = [] \<and> id_count m = 0 \<and> id_load m = 0 \<and>
     id_min_load m = 0 \<and> id_max_load m = 0"

definition id_table :: "nat \<Rightarrow> 'v nni_id_map \<Rightarrow> bool" where
  "id_table k m \<longleftrightarrow> 3 \<le> k \<and> k \<le> 16 \<and> id_cap m = 2 ^ k \<and> length (id_entries m) = 2 ^ k \<and>
     table_ok (id_entries m) (id_load m) \<and> id_count m = card (occ (id_entries m)) \<and> id_limits m"

definition id_wf :: "'v nni_id_map \<Rightarrow> bool" where
  "id_wf m \<longleftrightarrow> id_count m \<le> 2 ^ 15 \<and> (id_empty m \<or> (\<exists>k. id_table k m))"

text \<open>The map that an id map stands for.\<close>

definition id_abs :: "'v nni_id_map \<Rightarrow> nat \<Rightarrow> 'v option" where
  "id_abs m = tbl (id_entries m)"

lemma id_wf_count: "id_wf m \<Longrightarrow> id_count m = card (occ (id_entries m))"
  by (auto simp: id_wf_def id_empty_def id_table_def occ_def)

lemma dom_tbl:
  assumes "inj_on (\<lambda>t. e_key (es ! t)) (occ es)"
  shows "dom (tbl es) = (\<lambda>t. e_key (es ! t)) ` occ es"
proof (intro set_eqI iffI)
  fix x assume "x \<in> dom (tbl es)"
  then show "x \<in> (\<lambda>t. e_key (es ! t)) ` occ es" by (auto elim: tbl_SomeD)
next
  fix x assume "x \<in> (\<lambda>t. e_key (es ! t)) ` occ es"
  then obtain t where "t \<in> occ es" "e_key (es ! t) = x" by blast
  with tbl_eqI [OF assms this] show "x \<in> dom (tbl es)" by (auto simp: occ_def)
qed

lemma id_wf_inj: "id_wf m \<Longrightarrow> inj_on (\<lambda>t. e_key (id_entries m ! t)) (occ (id_entries m))"
  by (auto simp: id_wf_def id_empty_def id_table_def table_ok_def occ_def)

lemma id_wf_card: "id_wf m \<Longrightarrow> card (dom (id_abs m)) = id_count m \<and> finite (dom (id_abs m))"
  using card_image [OF id_wf_inj] id_wf_count dom_tbl [OF id_wf_inj] by (metis finite_imageI finite_occ id_abs_def)

lemma id_load_small:
  assumes "id_table k m" "id_count m \<le> 2 ^ 15"
  shows "id_load m \<le> 2 ^ 31"
proof -
  have "id_load m \<le> id_count m * 2 ^ k"
    using table_load_le [of "id_entries m" "id_load m" k] assms by (simp add: id_table_def)
  also have "\<dots> \<le> 2 ^ 15 * 2 ^ 16"
    using assms by (intro mult_le_mono power_increasing) (simp_all add: id_table_def)
  finally show ?thesis by simp
qed

section \<open>Finding\<close>

lemma id_find_cases:
  assumes wf: "id_wf m"
  obtains (absent) "id_find m key = Some None" "id_abs m key = None"
  | (present) t v where "id_find m key = Some (Some t)" "t \<in> occ (id_entries m)"
      "e_key (id_entries m ! t) = key" "e_val (id_entries m ! t) = Some v" "id_abs m key = Some v"
proof (cases "id_count m = 0")
  case True
  then have "occ (id_entries m) = {}" using id_wf_count [OF wf] by simp
  with True show ?thesis by (intro absent) (auto simp: id_find_def id_abs_def intro: tbl_None)
next
  case False
  with wf obtain k where k: "id_table k m" by (auto simp: id_wf_def id_empty_def)
  then have t: "length (id_entries m) = 2 ^ k" "id_cap m = 2 ^ k" "table_ok (id_entries m) (id_load m)"
    by (simp_all add: id_table_def)
  have inj: "inj_on (\<lambda>t. e_key (id_entries m ! t)) (occ (id_entries m))" by (rule id_wf_inj [OF wf])
  have "id_find m key = id_find_loop m key (key mod 2 ^ k) (key mod 2 ^ k)"
    using False t(2) by (simp add: id_find_def id_index_pow2 Let_def)
  with id_find_loop_ok [OF t refl, of 0 key] consider
      (1) "id_find m key = Some None" "\<And>t. t \<in> occ (id_entries m) \<Longrightarrow> e_key (id_entries m ! t) \<noteq> key"
    | (2) t where "id_find m key = Some (Some t)" "t \<in> occ (id_entries m)" "e_key (id_entries m ! t) = key"
    by (auto split: option.splits)
  then show ?thesis
  proof cases
    case 1
    with tbl_None [of "id_entries m" key] show ?thesis by (intro absent) (simp_all add: id_abs_def)
  next
    case (2 t)
    then obtain v where "e_val (id_entries m ! t) = Some v" by (auto simp: occ_def)
    with 2 tbl_eqI [OF inj 2(2,3)] show ?thesis by (intro present) (simp_all add: id_abs_def)
  qed
qed

lemma nni_id_get_ok: "id_wf m \<Longrightarrow> nni_id_get m key = Some (id_abs m key)"
  by (erule id_find_cases [of m key]) (auto simp: nni_id_get_def)

section \<open>Placing into a table with room\<close>

lemma first_free:
  assumes len: "length es = 2 ^ k" and room: "card (occ es) < 2 ^ k" and h: "h < 2 ^ k"
  obtains d where "d < 2 ^ k" "e_val (es ! ((id_next (2 ^ k) ^^ d) h)) = None"
    "\<And>j. j < d \<Longrightarrow> e_val (es ! ((id_next (2 ^ k) ^^ j) h)) \<noteq> None"
proof -
  have "\<exists>t < 2 ^ k. t \<notin> occ es"
  proof (rule ccontr)
    assume "\<not> (\<exists>t < 2 ^ k. t \<notin> occ es)"
    then have "card {..<(2 :: nat) ^ k} \<le> card (occ es)" by (intro card_mono) auto
    with room show False by simp
  qed
  then obtain t where "t < 2 ^ k" "e_val (es ! t) = None" using len by (auto simp: occ_def)
  then obtain i where i: "i < 2 ^ k" "e_val (es ! ((id_next (2 ^ k) ^^ i) h)) = None"
    using id_cycle.cover [OF h] by metis
  define d where "d = (LEAST i. e_val (es ! ((id_next (2 ^ k) ^^ i) h)) = None)"
  have "e_val (es ! ((id_next (2 ^ k) ^^ d) h)) = None"
    unfolding d_def by (rule LeastI) (rule i(2))
  moreover have "d \<le> i" unfolding d_def using i(2) by (rule Least_le)
  moreover have "e_val (es ! ((id_next (2 ^ k) ^^ j) h)) \<noteq> None" if "j < d" for j
    using not_less_Least that unfolding d_def by blast
  ultimately show ?thesis using that [of d] i(1) by simp
qed

lemma place_ok:
  assumes len: "length es = 2 ^ k" and k: "k \<le> 16" and ok: "table_ok es load"
    and room: "card (occ es) < 2 ^ k" "card (occ es) \<le> 2 ^ 15" and val: "val \<noteq> None"
    and key: "\<And>u. u \<in> occ es \<Longrightarrow> e_key (es ! u) \<noteq> key"
  obtains t load' where "id_set_loop (2 ^ k) key val es load (key mod 2 ^ k) = Some (placed key val t es, load')"
    "(\<And>s. s < 2 ^ k \<Longrightarrow> e_val (es ! s) = None \<Longrightarrow> e_skips (es ! s) = 0) \<Longrightarrow>
       id_rehash_loop (2 ^ k) key val es load (key mod 2 ^ k) = Some (placed key val t es, load') \<and>
       (\<forall>s < 2 ^ k. e_val (placed key val t es ! s) = None \<longrightarrow> e_skips (placed key val t es ! s) = 0)"
    "table_ok (placed key val t es) load'" "tbl (placed key val t es) = (tbl es)(key := val)"
    "card (occ (placed key val t es)) = card (occ es) + 1"
proof -
  let ?h = "key mod 2 ^ k"
  have hl: "?h < 2 ^ k" by simp
  obtain d where d: "d < 2 ^ k" "e_val (es ! ((id_next (2 ^ k) ^^ d) ?h)) = None"
    "\<And>j. j < d \<Longrightarrow> e_val (es ! ((id_next (2 ^ k) ^^ j) ?h)) \<noteq> None"
    using first_free [OF len room(1) hl] by blast
  let ?t = "(id_next (2 ^ k) ^^ d) ?h"
  have t: "?t < 2 ^ k" by (rule id_cycle.orbit_less [OF hl])
  have pd: "pdist (id_next (2 ^ k)) ?h ?t = d" by (rule id_cycle.pdist_eq [OF hl d(1)])
  have k16: "(2 :: nat) ^ k \<le> 2 ^ 16" using k by (intro power_increasing) auto
  have small: "e_skips (es ! s) + 1 < 2 ^ 32" if "s < 2 ^ k" for s
    using table_skips_le [OF ok, of s] that len room(2) by simp
  have "load \<le> 2 ^ 15 * 2 ^ 16"
    using table_load_le [OF ok len] mult_le_mono [OF room(2) k16] by linarith
  then have small2: "load + d + 1 < 2 ^ 32" using d(1) k16 by simp
  note loops = place_loops [OF len refl d(1,3,2) small small2, of 0 val, simplified]
  note res = placed_ok [OF len ok t d(2) val key, unfolded pd]
  show ?thesis
  proof (rule that [of ?t "load + d + 1"])
    show "id_set_loop (2 ^ k) key val es load ?h = Some (placed key val ?t es, load + d + 1)"
      using loops by simp
    show "card (occ (placed key val ?t es)) = card (occ es) + 1"
      using occ_placed [OF len t val, of key] d(2) t len by (simp add: occ_def)
    assume z: "\<And>s. s < 2 ^ k \<Longrightarrow> e_val (es ! s) = None \<Longrightarrow> e_skips (es ! s) = 0"
    have "\<not> passes (id_next (2 ^ k)) ?h ?t s" if "e_val (es ! s) = None" for s
      using d(3) that unfolding passes_def pd by blast
    then have "\<forall>s < 2 ^ k. e_val (placed key val ?t es ! s) = None \<longrightarrow> e_skips (placed key val ?t es ! s) = 0"
      using z val by (auto simp: nth_placed [OF len t] split: if_splits)
    then show "id_rehash_loop (2 ^ k) key val es load ?h = Some (placed key val ?t es, load + d + 1) \<and>
       (\<forall>s < 2 ^ k. e_val (placed key val ?t es ! s) = None \<longrightarrow> e_skips (placed key val ?t es ! s) = 0)"
      using loops z [OF t d(2)] by simp
  qed (use res in simp_all)
qed

section \<open>Resizing\<close>

lemma tbl_Nil [simp]: "tbl [] = Map.empty"
  by (simp add: tbl_def fun_eq_iff)

lemma tbl_Cons: "tbl (e # es) = (if e_val e = None then tbl es else (tbl es)(e_key e := e_val e))"
  by (auto simp: tbl_def fun_eq_iff)

lemma dom_tbl_keys: "dom (tbl es) = e_key ` set (filter (\<lambda>e. e_val e \<noteq> None) es)"
  by (induction es) (auto simp: tbl_Cons)

lemma card_occ_filter: "card (occ es) = length (filter (\<lambda>e. e_val e \<noteq> None) es)"
  by (simp add: occ_def length_filter_conv_card)

lemma distinct_keys:
  assumes "inj_on (\<lambda>t. e_key (es ! t)) (occ es)"
  shows "distinct (map e_key (filter (\<lambda>e. e_val e \<noteq> None) es))"
proof -
  let ?P = "\<lambda>e. e_val e \<noteq> None"
  have "filter ?P es = map ((!) es) (filter (?P \<circ> (!) es) [0..<length es])"
    by (metis filter_map map_nth)
  then show ?thesis
    using assms by (simp add: distinct_map occ_def inj_on_def)
qed

lemma id_rehash_ok:
  assumes "length es = 2 ^ k" "k \<le> 16" "table_ok es load"
    "\<And>s. s < 2 ^ k \<Longrightarrow> e_val (es ! s) = None \<Longrightarrow> e_skips (es ! s) = 0"
    "distinct (map e_key (filter (\<lambda>e. e_val e \<noteq> None) old))"
    "dom (tbl es) \<inter> e_key ` set (filter (\<lambda>e. e_val e \<noteq> None) old) = {}"
    "card (occ es) + length (filter (\<lambda>e. e_val e \<noteq> None) old) \<le> min (2 ^ k) (2 ^ 15)"
  shows "\<exists>es' load'. id_rehash (2 ^ k) old es load = Some (es', load') \<and> table_ok es' load' \<and>
    length es' = 2 ^ k \<and> tbl es' = tbl es ++ tbl old \<and>
    card (occ es') = card (occ es) + length (filter (\<lambda>e. e_val e \<noteq> None) old)"
  using assms
proof (induction old arbitrary: es load)
  case (Cons e old)
  show ?case
  proof (cases "e_val e = None")
    case True
    with Cons.IH [of es load] Cons.prems show ?thesis by (simp add: tbl_Cons)
  next
    case False
    have inj: "inj_on (\<lambda>t. e_key (es ! t)) (occ es)" using Cons.prems(3) by (simp add: table_ok_def)
    have "e_key e \<notin> dom (tbl es)" using Cons.prems(6) False by auto
    then have key: "e_key (es ! u) \<noteq> e_key e" if "u \<in> occ es" for u
      using that unfolding dom_tbl [OF inj] by (metis imageI)
    have room: "card (occ es) < 2 ^ k" "card (occ es) \<le> 2 ^ 15"
      using Cons.prems(7) False by simp_all
    obtain t load' where t:
      "id_rehash_loop (2 ^ k) (e_key e) (e_val e) es load (e_key e mod 2 ^ k) =
         Some (placed (e_key e) (e_val e) t es, load')"
      "\<And>s. s < 2 ^ k \<Longrightarrow> e_val (placed (e_key e) (e_val e) t es ! s) = None \<Longrightarrow>
         e_skips (placed (e_key e) (e_val e) t es ! s) = 0"
      "table_ok (placed (e_key e) (e_val e) t es) load'"
      "tbl (placed (e_key e) (e_val e) t es) = (tbl es)(e_key e := e_val e)"
      "card (occ (placed (e_key e) (e_val e) t es)) = card (occ es) + 1"
      using place_ok [OF Cons.prems(1,2,3) room False key] Cons.prems(4) by (metis (no_types, lifting))
    let ?es = "placed (e_key e) (e_val e) t es"
    have new: "e_key e \<notin> e_key ` set (filter (\<lambda>e. e_val e \<noteq> None) old)"
        "distinct (map e_key (filter (\<lambda>e. e_val e \<noteq> None) old))"
      using Cons.prems(5) False by simp_all
    then have "e_key e \<notin> dom (tbl old)" unfolding dom_tbl_keys by simp
    then have m: "(tbl es)(e_key e := e_val e) ++ tbl old = tbl es ++ tbl (e # old)"
      using False by (auto simp: tbl_Cons fun_eq_iff map_add_def split: option.splits)
    have dis: "dom (tbl ?es) \<inter> e_key ` set (filter (\<lambda>e. e_val e \<noteq> None) old) = {}"
      unfolding t(4) using new(1) Cons.prems(6) False by (auto split: if_splits)
    have cnt: "card (occ ?es) + length (filter (\<lambda>e. e_val e \<noteq> None) old) \<le> min (2 ^ k) (2 ^ 15)"
      using t(5) Cons.prems(7) False by simp
    have "length ?es = 2 ^ k" using Cons.prems(1) by simp
    from Cons.IH [OF this Cons.prems(2) t(3,2) new(2) dis cnt]
    obtain es' load'' where "id_rehash (2 ^ k) old ?es load' = Some (es', load'')"
        "table_ok es' load''" "length es' = 2 ^ k" "tbl es' = tbl es ++ tbl (e # old)"
        "card (occ es') = card (occ es) + 1 + length (filter (\<lambda>e. e_val e \<noteq> None) old)"
      unfolding t(4,5) m by blast
    with t(1) False show ?thesis by (auto simp: id_index_pow2)
  qed
qed simp

lemma id_new_cap_step: "want \<le> 2 ^ n \<Longrightarrow> n < 32 \<Longrightarrow> j \<le> n \<Longrightarrow>
   \<exists>k. id_new_cap want (2 ^ j) = Some (2 ^ k) \<and> j \<le> k \<and> k \<le> n \<and> want \<le> 2 ^ k"
proof (induction "n - j" arbitrary: j)
  case 0
  then show ?case by (auto simp: id_new_cap.simps [of want "2 ^ j"])
next
  case (Suc d)
  show ?case
  proof (cases "2 ^ j < want")
    case True
    then have "j < n" using Suc by (metis le_antisym not_less order_less_le)
    then have "d = n - Suc j" "Suc j \<le> n" using Suc(2) by auto
    then obtain k where k: "id_new_cap want (2 ^ Suc j) = Some (2 ^ k)" "Suc j \<le> k" "k \<le> n" "want \<le> 2 ^ k"
      using Suc(1) [of "Suc j"] Suc(3,4) by blast
    have "(2 :: nat) ^ Suc j < 2 ^ 32"
      using \<open>j < n\<close> Suc by (intro power_strict_increasing) auto
    then have "wrap32 (2 ^ j * 2) = 2 ^ Suc j" by (simp add: wrap32_def)
    with True k show ?thesis
      unfolding id_new_cap.simps [of want "2 ^ j"] by (auto intro!: exI [of _ k])
  next
    case False
    with Suc show ?thesis by (auto simp: id_new_cap.simps [of want "2 ^ j"])
  qed
qed

lemma id_new_cap_ok:
  assumes "c \<le> 2 ^ 15"
  obtains k where "id_new_cap (wrap32 (c * 2)) 8 = Some (2 ^ k)" "3 \<le> k" "k \<le> 16" "2 * c \<le> 2 ^ k"
proof -
  have "wrap32 (c * 2) = 2 * c" using assms by (simp add: wrap32_def)
  with id_new_cap_step [of "2 * c" 16 3] assms that show ?thesis by auto
qed

text \<open>The parts of a map that no operation on its entries changes.\<close>

definition id_same_range :: "'v nni_id_map \<Rightarrow> 'v nni_id_map \<Rightarrow> bool" where
  "id_same_range m m' \<longleftrightarrow>
     id_min_val m' = id_min_val m \<and> id_max_val m' = id_max_val m \<and> id_dyn_val m' = id_dyn_val m"

lemma id_same_range_refl [simp]: "id_same_range m m"
  by (simp add: id_same_range_def)

lemma id_flags_upd [simp]:
  "id_wf (m\<lparr>id_flags := f\<rparr>) = id_wf m" "id_abs (m\<lparr>id_flags := f\<rparr>) = id_abs m"
  "id_table k (m\<lparr>id_flags := f\<rparr>) = id_table k m"
  by (auto simp: id_wf_def id_empty_def id_table_def id_limits_def id_abs_def)

lemma id_map_register_cases:
  assumes "id_map_register al g a m = (rv, g', m')"
  obtains (ok) f where "rv = 0" "m' = m\<lparr>id_flags := f\<rparr>" | (nomem) "rv = NNG_ENOMEM" "m' = m" "g' = g"
  using assms ok [of "id_flags m"] ok [of "id_flags m OR NNI_ID_FLAG_REGISTER"] nomem
  by (auto simp: id_map_register_def Let_def split: if_splits)

lemma rehash_table:
  assumes wf: "id_wf m" and k: "3 \<le> k" "k \<le> 16" "2 * id_count m \<le> 2 ^ k"
  obtains es load where
    "id_rehash (2 ^ k) (take (id_cap m) (id_entries m)) (replicate (2 ^ k) id_no_entry) 0 = Some (es, load)"
    "table_ok es load" "length es = 2 ^ k" "tbl es = id_abs m" "card (occ es) = id_count m"
proof -
  let ?E = "replicate (2 ^ k) (id_no_entry :: 'a nni_id_entry)"
  have all: "take (id_cap m) (id_entries m) = id_entries m"
    using wf by (auto simp: id_wf_def id_empty_def id_table_def)
  have E: "tbl ?E = Map.empty" "occ ?E = {}"
    using table_no_entry(2) by (auto simp: occ_def id_no_entry_def fun_eq_iff)
  have c: "length (filter (\<lambda>e. e_val e \<noteq> None) (id_entries m)) = id_count m"
    unfolding card_occ_filter [symmetric] using id_wf_count [OF wf] by simp
  have "\<exists>es load. id_rehash (2 ^ k) (id_entries m) ?E 0 = Some (es, load) \<and> table_ok es load \<and>
      length es = 2 ^ k \<and> tbl es = tbl ?E ++ tbl (id_entries m) \<and>
      card (occ es) = card (occ ?E) + length (filter (\<lambda>e. e_val e \<noteq> None) (id_entries m))"
  proof (rule id_rehash_ok [OF _ k(2) table_no_entry(1) _ distinct_keys [OF id_wf_inj [OF wf]]])
    show "card (occ ?E) + length (filter (\<lambda>e. e_val e \<noteq> None) (id_entries m)) \<le> min (2 ^ k) (2 ^ 15)"
      unfolding c E using wf k(3) by (simp add: id_wf_def)
    show "dom (tbl ?E) \<inter> e_key ` set (filter (\<lambda>e. e_val e \<noteq> None) (id_entries m)) = {}"
      unfolding E by simp
  qed (simp_all add: id_no_entry_def)
  then show ?thesis
    unfolding c E using that all by (auto simp: id_abs_def)
qed

definition id_room :: "'v nni_id_map \<Rightarrow> bool" where
  "id_room m \<longleftrightarrow> (\<exists>k. id_table k m \<and> id_count m < 2 ^ k)"

lemma id_table_room: "id_table k m \<Longrightarrow> id_count m * 2 \<le> 2 ^ k \<Longrightarrow> id_room m"
  unfolding id_room_def by (cases "id_count m = 0") (auto intro!: exI [of _ k])

lemma id_load_room:
  assumes "id_table k m" "id_load m < id_max_load m" shows "id_room m"
proof -
  have "id_cap m = 2 ^ k" "3 \<le> k" "k \<le> 16" using assms by (simp_all add: id_table_def)
  then have "(8 :: nat) \<le> 2 ^ k" "(2 :: nat) ^ k \<le> 2 ^ 16"
    using power_increasing [of 3 k "2 :: nat"] power_increasing [of k 16 "2 :: nat"] by simp_all
  then have "id_max_load m < 2 ^ k"
    using assms(1) by (auto simp: id_table_def id_limits_def split: if_splits)
  with assms table_count_le_load [of "id_entries m" "id_load m"] show ?thesis
    by (auto simp: id_room_def id_table_def)
qed

lemma id_resize_ok:
  assumes wf: "id_wf m"
  obtains rv g' m' where "id_resize al a g m = Some (rv, g', m')" "id_wf m'" "id_abs m' = id_abs m"
    "id_count m' = id_count m" "id_same_range m m'" "rv = 0 \<longrightarrow> id_room m'" "rv = 0 \<or> rv = NNG_ENOMEM"
proof (cases "id_load m < id_max_load m \<and> id_load m \<ge> id_min_load m")
  case True
  then obtain k where "id_table k m" using wf by (auto simp: id_wf_def id_empty_def)
  with True wf id_load_room show ?thesis by (intro that [of 0 g m]) (auto simp: id_resize_def)
next
  case False
  obtain rv g' m1 where reg: "id_map_register al g a m = (rv, g', m1)" by (cases "id_map_register al g a m")
  from reg show ?thesis
  proof (cases rule: id_map_register_cases)
    case nomem
    with False reg wf show ?thesis by (intro that [of rv g' m1]) (auto simp: id_resize_def)
  next
    case (ok f)
    have wf1: "id_wf m1" "id_abs m1 = id_abs m" "id_count m1 = id_count m" "id_same_range m m1"
      using ok wf by (simp_all add: id_same_range_def)
    obtain k where k: "id_new_cap (wrap32 (id_count m1 * 2)) 8 = Some (2 ^ k)" "3 \<le> k" "k \<le> 16"
        "2 * id_count m1 \<le> 2 ^ k"
      using id_new_cap_ok [of "id_count m1"] wf1(1) by (auto simp: id_wf_def)
    show ?thesis
    proof (cases "2 ^ k = id_cap m1 \<or> \<not> al (24 * 2 ^ k)")
      case same: True
      show ?thesis
      proof (cases "2 ^ k = id_cap m1")
        case True
        then obtain k' where k': "id_table k' m1" using wf1 by (auto simp: id_wf_def id_empty_def)
        with True have "id_room m1"
          using id_table_room [OF k'] k(4) by (simp add: id_table_def mult.commute)
        with True False reg ok k wf1 show ?thesis by (intro that [of 0 g' m1]) (auto simp: id_resize_def)
      next
        case neq: False
        with same False reg ok k wf1 show ?thesis
          by (intro that [of NNG_ENOMEM g' m1]) (auto simp: id_resize_def)
      qed
    next
      case new: False
      obtain es load where es: "id_rehash (2 ^ k) (take (id_cap m1) (id_entries m1))
            (replicate (2 ^ k) id_no_entry) 0 = Some (es, load)"
          "table_ok es load" "length es = 2 ^ k" "tbl es = id_abs m1" "card (occ es) = id_count m1"
        using rehash_table [OF wf1(1) k(2,3,4)] .
      let ?m = "m1\<lparr>id_entries := es, id_cap := 2 ^ k, id_load := load,
          id_min_load := (if 2 ^ k > (8 :: nat) then 2 ^ k div 8 else 0),
          id_max_load := (if 2 ^ k > (8 :: nat) then wrap32 (2 ^ k * 2) div 3 else 5)\<rparr>"
      have t: "id_table k ?m" using es k by (simp add: id_table_def id_limits_def)
      have "id_resize al a g m = Some (0, g', ?m)"
        using new False reg ok k(1) es(1) by (auto simp: id_resize_def)
      then show ?thesis
        using t id_table_room [OF t] k(4) wf1 es
        by (intro that [of 0 g' ?m])
          (auto simp: id_wf_def id_same_range_def id_abs_def mult.commute)
    qed
  qed
qed

section \<open>Setting and removing\<close>

lemma id_same_range_trans: "id_same_range m m' \<Longrightarrow> id_same_range m' m'' \<Longrightarrow> id_same_range m m''"
  by (simp add: id_same_range_def)

lemma nni_id_set_ok:
  assumes wf: "id_wf m" and room: "id_abs m key \<noteq> None \<or> id_count m < 2 ^ 15"
  obtains rv g' m' where "nni_id_set al a g m key (Some v) = Some (rv, g', m')" "id_wf m'" "id_same_range m m'"
    "rv = 0 \<and> id_abs m' = (id_abs m)(key \<mapsto> v) \<or> rv = NNG_ENOMEM \<and> id_abs m' = id_abs m"
proof -
  obtain rv g1 m1 where r: "id_resize al a g m = Some (rv, g1, m1)" "id_wf m1" "id_abs m1 = id_abs m"
    "id_count m1 = id_count m" "id_same_range m m1" "rv = 0 \<longrightarrow> id_room m1" "rv = 0 \<or> rv = NNG_ENOMEM"
    using id_resize_ok [OF wf] by metis
  show ?thesis
  proof (cases "rv = 0")
    case False
    with r show ?thesis by (intro that [of NNG_ENOMEM g1 m1]) (auto simp: nni_id_set_def)
  next
    case True
    then obtain k where k: "id_table k m1" "id_count m1 < 2 ^ k" using r(6) by (auto simp: id_room_def)
    then have t: "length (id_entries m1) = 2 ^ k" "k \<le> 16" "id_cap m1 = 2 ^ k"
        "table_ok (id_entries m1) (id_load m1)" "id_count m1 = card (occ (id_entries m1))"
      by (simp_all add: id_table_def)
    from r(2) show ?thesis
    proof (cases rule: id_find_cases [of m1 key])
      case (present u w)
      let ?es = "(id_entries m1)[u := (id_entries m1 ! u)\<lparr>e_val := Some v\<rparr>]"
      have o: "table_ok ?es (id_load m1)" "tbl ?es = (tbl (id_entries m1))(key \<mapsto> v)"
          "occ ?es = occ (id_entries m1)"
        using overwritten_ok [OF t(4) present(2), of "Some v"] present(3) by simp_all
      have "id_table k (m1\<lparr>id_entries := ?es\<rparr>)" using k(1) o by (simp add: id_table_def id_limits_def)
      with True r present o(2) show ?thesis
        by (intro that [of 0 g1 "m1\<lparr>id_entries := ?es\<rparr>"])
          (auto simp: nni_id_set_def id_wf_def id_same_range_def id_abs_def)
    next
      case absent
      have small: "card (occ (id_entries m1)) < 2 ^ 15" "card (occ (id_entries m1)) < 2 ^ k"
        using absent room r(3,4) t(5) k(2) by auto
      have key: "e_key (id_entries m1 ! u) \<noteq> key" if "u \<in> occ (id_entries m1)" for u
        using absent(2) tbl_eqI [OF id_wf_inj [OF r(2)] that] that by (auto simp: id_abs_def occ_def)
      obtain u load' where u: "id_set_loop (2 ^ k) key (Some v) (id_entries m1) (id_load m1) (key mod 2 ^ k) =
            Some (placed key (Some v) u (id_entries m1), load')"
          "table_ok (placed key (Some v) u (id_entries m1)) load'"
          "tbl (placed key (Some v) u (id_entries m1)) = (tbl (id_entries m1))(key := Some v)"
          "card (occ (placed key (Some v) u (id_entries m1))) = card (occ (id_entries m1)) + 1"
        using place_ok [OF t(1,2,4) small(2) less_imp_le [OF small(1)] _ key, of "Some v"] by blast
      let ?m = "m1\<lparr>id_entries := placed key (Some v) u (id_entries m1), id_load := load',
                   id_count := wrap32 (id_count m1 + 1)\<rparr>"
      have cnt: "wrap32 (id_count m1 + 1) = card (occ (id_entries m1)) + 1"
        using small(1) t(5) by (simp add: wrap32_def)
      have "id_table k ?m" using k(1) u cnt by (simp add: id_table_def id_limits_def)
      then have "id_wf ?m" using cnt small(1) by (auto simp: id_wf_def)
      with True r absent u(1,3) t(3) show ?thesis
        by (intro that [of 0 g1 ?m])
          (auto simp: nni_id_set_def id_same_range_def id_abs_def id_index_pow2)
    qed
  qed
qed

lemma nni_id_remove_ok:
  assumes wf: "id_wf m"
  obtains rv g' m' where "nni_id_remove al a g m key = Some (rv, g', m')" "id_wf m'" "id_same_range m m'"
    "rv = (if id_abs m key = None then NNG_ENOENT else 0)" "id_abs m' = (id_abs m)(key := None)"
  using wf
proof (cases rule: id_find_cases [of m key])
  case absent
  then have "(id_abs m)(key := None) = id_abs m" by auto
  with absent wf show ?thesis by (intro that [of NNG_ENOENT g m]) (auto simp: nni_id_remove_def)
next
  case (present t v)
  have tl: "t < length (id_entries m)" by (rule occ_less [OF present(2)])
  with wf obtain k where k: "id_table k m" by (auto simp: id_wf_def id_empty_def)
  let ?es = "id_entries m" and ?h = "key mod 2 ^ k"
  have ok: "length ?es = 2 ^ k" "id_cap m = 2 ^ k" "table_ok ?es (id_load m)" "id_count m = card (occ ?es)"
    using k by (simp_all add: id_table_def)
  have h: "home ?es t = ?h" "?h < 2 ^ k" "t < 2 ^ k" using present(3) ok(1) tl by (simp_all add: home_def)
  let ?d = "pdist (id_next (2 ^ k)) ?h t"
  have d: "(id_next (2 ^ k) ^^ ?d) ?h = t" "?d < 2 ^ k" using id_cycle.pdist_ok [OF h(2,3)] by simp_all
  have pos: "e_skips (?es ! ((id_next (2 ^ k) ^^ j) ?h)) \<noteq> 0" if "j < ?d" for j
  proof -
    let ?S = "{t \<in> occ ?es. passes (id_next (2 ^ k)) (home ?es t) t ((id_next (2 ^ k) ^^ j) ?h)}"
    have "t \<in> ?S" using id_cycle.passes_orbit [OF h(2,3) that] present(2) h(1) by simp
    then have "?S \<noteq> {}" by blast
    moreover have "finite ?S" by simp
    ultimately have "card ?S \<noteq> 0" unfolding card_eq_0_iff by blast
    moreover have "e_skips (?es ! ((id_next (2 ^ k) ^^ j) ?h)) = card ?S"
      using ok(3) id_cycle.orbit_less [OF h(2), of j] unfolding table_ok_def ok(1) by blast
    ultimately show ?thesis by simp
  qed
  have load: "?d + 1 \<le> id_load m"
    using member_le_sum [OF present(2), of "\<lambda>t. pdist (id_next (2 ^ k)) (home ?es t) t + 1"] ok h(1)
    by (simp add: table_ok_def)
  have load2: "id_load m < 2 ^ 32" using id_load_small [OF k] wf by (simp add: id_wf_def)
  have loop: "id_remove_loop (2 ^ k) t ?es (id_load m) ?h = Some (removed t ?es, id_load m - (?d + 1))"
    using remove_loop [OF ok(1) h(2) d(2) pos _ load load2, of 0] d(1) h(1) by simp
  note rem = removed_ok [OF ok(1,3) present(2), unfolded h(1) present(3)]
  have cnt: "wrap32 (id_count m + 2 ^ 32 - 1) = id_count m - 1" "card (occ (removed t ?es)) = id_count m - 1"
  proof -
    have "0 < id_count m" using ok(4) present(2) card_gt_0_iff [of "occ ?es"] by auto
    moreover have "id_count m \<le> 2 ^ 15" using wf by (simp add: id_wf_def)
    ultimately show "wrap32 (id_count m + 2 ^ 32 - 1) = id_count m - 1"
      by (simp add: wrap32_def mod_if)
    show "card (occ (removed t ?es)) = id_count m - 1"
      using ok(4) present(2) by (simp add: occ_removed [OF ok(1) h(3)])
  qed
  let ?m = "m\<lparr>id_entries := removed t ?es, id_load := id_load m - (?d + 1), id_count := id_count m - 1\<rparr>"
  have "id_table k ?m" using k rem(1) cnt(2) ok(1) by (simp add: id_table_def id_limits_def)
  then have "id_wf ?m" using wf by (auto simp: id_wf_def)
  then obtain rv g' m' where r: "id_resize al a g ?m = Some (rv, g', m')" "id_wf m'" "id_abs m' = id_abs ?m"
      "id_same_range ?m m'"
    using id_resize_ok by metis
  have "nni_id_remove al a g m key = Some (0, g', m')"
    using present(1) loop r(1) cnt(1) ok(2) by (simp add: nni_id_remove_def id_index_pow2)
  with r rem(2) present(5) show ?thesis
    by (intro that [of 0 g' m']) (auto simp: id_abs_def id_same_range_def)
qed

section \<open>Allocating identifiers\<close>

text \<open>
  The range of identifiers of a map. It ends below the largest 64-bit number: the increment of
  the next candidate must not wrap.
\<close>

definition id_range_ok :: "'v nni_id_map \<Rightarrow> bool" where
  "id_range_ok m \<longleftrightarrow> 1 \<le> id_min_val m \<and> id_min_val m \<le> id_max_val m \<and> id_max_val m < 2 ^ 64 - 1 \<and>
     (id_dyn_val m = 0 \<or> id_min_val m \<le> id_dyn_val m \<and> id_dyn_val m \<le> id_max_val m)"

definition id_cand :: "'v nni_id_map \<Rightarrow> nat \<Rightarrow> nat \<Rightarrow> nat" where
  "id_cand m dyn i = id_min_val m + (dyn - id_min_val m + i) mod (id_max_val m - id_min_val m + 1)"

lemma id_cand_range:
  assumes "id_min_val m \<le> id_max_val m"
  shows "id_min_val m \<le> id_cand m dyn i" "id_cand m dyn i \<le> id_max_val m"
proof -
  have "(dyn - id_min_val m + i) mod (id_max_val m - id_min_val m + 1) < id_max_val m - id_min_val m + 1"
    by simp
  with assms show "id_min_val m \<le> id_cand m dyn i" "id_cand m dyn i \<le> id_max_val m"
    unfolding id_cand_def by linarith+
qed

lemma id_cand_Suc:
  assumes "id_min_val m \<le> id_max_val m" "id_max_val m < 2 ^ 64 - 1"
  shows "(if wrap64 (id_cand m dyn i + 1) > id_max_val m then id_min_val m else wrap64 (id_cand m dyn i + 1))
    = id_cand m dyn (Suc i)"
proof -
  let ?R = "id_max_val m - id_min_val m + 1"
  define q where "q = (dyn - id_min_val m + i) mod ?R"
  have q: "q < ?R" by (simp add: q_def)
  have c: "id_cand m dyn i = id_min_val m + q" by (simp add: id_cand_def q_def)
  have c': "id_cand m dyn (Suc i) = id_min_val m + (if Suc q = ?R then 0 else Suc q)"
    by (simp add: id_cand_def q_def mod_Suc)
  have "id_min_val m + q + 1 < 2 ^ 64" using q assms by linarith
  then have w: "wrap64 (id_min_val m + q + 1) = id_min_val m + q + 1" by (simp add: wrap64_def)
  show ?thesis unfolding c c' w using q assms(1) by auto
qed

lemma id_cand_free:
  assumes wf: "id_wf m" and r: "id_min_val m \<le> id_max_val m" and c: "id_count m \<le> id_max_val m - id_min_val m"
    and d: "id_min_val m \<le> dyn" "dyn \<le> id_max_val m"
  shows "\<exists>i. id_abs m (id_cand m dyn i) = None"
proof (rule ccontr)
  assume "\<not> ?thesis"
  then have all: "id_cand m dyn i \<in> dom (id_abs m)" for i by auto
  let ?R = "id_max_val m - id_min_val m + 1"
  have "{id_min_val m..id_max_val m} \<subseteq> dom (id_abs m)"
  proof
    fix x assume x: "x \<in> {id_min_val m..id_max_val m}"
    have "dyn - id_min_val m + (x - id_min_val m + ?R - (dyn - id_min_val m)) = x - id_min_val m + ?R"
      using d by linarith
    moreover have "x - id_min_val m < ?R" using x by (auto simp: less_Suc_eq_le intro: diff_le_mono)
    ultimately have "(dyn - id_min_val m + (x - id_min_val m + ?R - (dyn - id_min_val m))) mod ?R = x - id_min_val m"
      by (simp only: mod_add_self2 mod_less)
    then have "id_cand m dyn (x - id_min_val m + ?R - (dyn - id_min_val m)) = x"
      using x by (simp add: id_cand_def)
    with all show "x \<in> dom (id_abs m)" by metis
  qed
  with id_wf_card [OF wf] have "card {id_min_val m..id_max_val m} \<le> id_count m"
    by (metis card_mono)
  with c r show False by simp
qed

lemma id_alloc_loop_ok:
  assumes wf: "id_wf m" and r: "id_min_val m \<le> id_max_val m" "id_max_val m < 2 ^ 64 - 1"
    and free: "id_abs m (id_cand m dyn d) = None" "\<And>j. j < d \<Longrightarrow> id_abs m (id_cand m dyn j) \<noteq> None"
  shows "i \<le> d \<Longrightarrow> id_alloc_loop m (id_cand m dyn i) = Some (id_cand m dyn d, id_cand m dyn (Suc d))"
proof (induction "d - i" arbitrary: i)
  case 0
  then have i: "i = d" by simp
  have "id_find m (id_cand m dyn d) = Some None"
    using free(1) by (cases rule: id_find_cases [OF wf, of "id_cand m dyn d"]) auto
  then show ?case
    unfolding i id_alloc_loop.simps [of m "id_cand m dyn d"] Let_def id_cand_Suc [OF r] by simp
next
  case (Suc n)
  then have i: "i < d" "n = d - Suc i" "Suc i \<le> d" by simp_all
  obtain t where "id_find m (id_cand m dyn i) = Some (Some t)"
    using free(2) [OF i(1)] by (cases rule: id_find_cases [OF wf, of "id_cand m dyn i"]) auto
  with Suc.hyps(1) [OF i(2,3)] show ?case
    unfolding id_alloc_loop.simps [of m "id_cand m dyn i"] Let_def id_cand_Suc [OF r] by simp
qed

lemma id_dyn_upd [simp]: "id_wf (m\<lparr>id_dyn_val := d\<rparr>) = id_wf m" "id_abs (m\<lparr>id_dyn_val := d\<rparr>) = id_abs m"
  by (simp_all add: id_wf_def id_empty_def id_table_def id_limits_def id_abs_def)

definition id_start :: "nat \<Rightarrow> 'v nni_id_map \<Rightarrow> nat" where
  "id_start rnd m =
     (if id_dyn_val m = 0 then
        (if id_flags m AND NNI_ID_FLAG_RANDOM \<noteq> 0
         then wrap64 (rnd mod wrap64 (id_max_val m + 2 ^ 64 - id_min_val m + 1) + id_min_val m)
         else id_min_val m)
      else id_dyn_val m)"

lemma id_span:
  assumes "id_range_ok m"
  shows "wrap64 (id_max_val m + 2 ^ 64 - id_min_val m) = id_max_val m - id_min_val m"
    "wrap64 (id_max_val m + 2 ^ 64 - id_min_val m + 1) = id_max_val m - id_min_val m + 1"
  using assms by (auto simp: id_range_ok_def wrap64_def mod_if)

lemma id_start_range:
  assumes "id_range_ok m"
  shows "id_min_val m \<le> id_start rnd m" "id_start rnd m \<le> id_max_val m"
proof -
  define q where "q = rnd mod (id_max_val m - id_min_val m + 1)"
  have "q < id_max_val m - id_min_val m + 1" by (simp add: q_def)
  moreover have r: "id_min_val m \<le> id_max_val m" "id_max_val m < 2 ^ 64 - 1"
    using assms by (simp_all add: id_range_ok_def)
  ultimately have q: "q + id_min_val m \<le> id_max_val m" "q + id_min_val m < 2 ^ 64" by linarith+
  then have w: "wrap64 (q + id_min_val m) = q + id_min_val m" by (simp add: wrap64_def)
  show "id_min_val m \<le> id_start rnd m" "id_start rnd m \<le> id_max_val m"
    unfolding id_start_def id_span(2) [OF assms] q_def [symmetric] w using q(1) r(1) assms
    by (auto simp: id_range_ok_def)
qed

lemma nni_id_alloc_eq:
  assumes "id_range_ok m"
  shows "nni_id_alloc al rnd a g m (Some v) =
    (if id_count m > id_max_val m - id_min_val m then Some (NNG_ENOMEM, None, g, m)
     else (case id_alloc_loop m (id_start rnd m) of
             None \<Rightarrow> None
           | Some (key, dyn') \<Rightarrow>
               (case nni_id_set al a g (m\<lparr>id_dyn_val := dyn'\<rparr>) key (Some v) of
                  None \<Rightarrow> None
                | Some (rv, g, m) \<Rightarrow> Some (rv, if rv = 0 then Some key else None, g, m))))"
  unfolding nni_id_alloc_def id_start_def id_span(1) [OF assms] Let_def by (simp only: option.distinct if_False)

lemma nni_id_alloc_ok:
  assumes wf: "id_wf m" and r: "id_range_ok m" and c: "id_count m < 2 ^ 15"
  obtains (full) "id_max_val m - id_min_val m < id_count m"
      "nni_id_alloc al rnd a g m (Some v) = Some (NNG_ENOMEM, None, g, m)"
  | (nomem) g' m' where "nni_id_alloc al rnd a g m (Some v) = Some (NNG_ENOMEM, None, g', m')"
      "id_wf m'" "id_range_ok m'" "id_abs m' = id_abs m"
  | (ok) key g' m' where "nni_id_alloc al rnd a g m (Some v) = Some (0, Some key, g', m')" "id_wf m'"
      "id_range_ok m'" "id_abs m key = None" "id_abs m' = (id_abs m)(key \<mapsto> v)"
      "id_min_val m \<le> key" "key \<le> id_max_val m"
proof (cases "id_max_val m - id_min_val m < id_count m")
  case True
  then show ?thesis by (intro full) (simp_all add: nni_id_alloc_eq [OF r])
next
  case False
  have rr: "id_min_val m \<le> id_max_val m" "id_max_val m < 2 ^ 64 - 1" using r by (simp_all add: id_range_ok_def)
  let ?s = "id_start rnd m" and ?c = "id_cand m (id_start rnd m)"
  note s = id_start_range [OF r, of rnd]
  define d where "d = (LEAST i. id_abs m (?c i) = None)"
  have ex: "\<exists>i. id_abs m (?c i) = None" using id_cand_free [OF wf rr(1) _ s] False by simp
  then have d: "id_abs m (?c d) = None" "\<And>j. j < d \<Longrightarrow> id_abs m (?c j) \<noteq> None"
    unfolding d_def by (rule LeastI_ex, blast dest: not_less_Least)
  have "?c 0 = ?s" using s by (simp add: id_cand_def)
  then have loop: "id_alloc_loop m ?s = Some (?c d, ?c (Suc d))"
    using id_alloc_loop_ok [OF wf rr d, of 0] by simp
  let ?m = "m\<lparr>id_dyn_val := ?c (Suc d)\<rparr>"
  obtain rv g' m' where st: "nni_id_set al a g ?m (?c d) (Some v) = Some (rv, g', m')" "id_wf m'"
      "id_same_range ?m m'"
      "rv = 0 \<and> id_abs m' = (id_abs ?m)(?c d \<mapsto> v) \<or> rv = NNG_ENOMEM \<and> id_abs m' = id_abs ?m"
    using nni_id_set_ok [of ?m "?c d" al a g v] wf c by auto
  have "id_range_ok m'"
    using r st(3) id_cand_range [OF rr(1), of ?s "Suc d"] by (simp add: id_range_ok_def id_same_range_def)
  moreover have "nni_id_alloc al rnd a g m (Some v) = Some (rv, if rv = 0 then Some (?c d) else None, g', m')"
    using False loop st(1) by (simp add: nni_id_alloc_eq [OF r])
  ultimately show ?thesis
    using st(2,4) d(1) id_cand_range [OF rr(1), of ?s d] by (auto intro: ok nomem)
qed

section \<open>Rolling lookups and traversals\<close>

lemma id_get_min_loop_ok:
  assumes wf: "id_wf m" and pid: "pid < 2 ^ 16"
    and miss: "\<And>j. j < d \<Longrightarrow> id_abs m ((pid + j) mod 2 ^ 16) = None" and d: "d \<le> 2 ^ 16"
    and hit: "d < 2 ^ 16 \<Longrightarrow> id_abs m ((pid + d) mod 2 ^ 16) = Some v"
  shows "i \<le> d \<Longrightarrow> i < 2 ^ 16 \<Longrightarrow> id_get_min_loop m pid ((pid + i) mod 2 ^ 16) =
    Some (if d < 2 ^ 16 then (Some v, (pid + d) mod 2 ^ 16) else (None, pid))"
proof (induction "d - i" arbitrary: i)
  case 0
  then have i: "i = d" "d < 2 ^ 16" by simp_all
  then obtain t where "id_find m ((pid + d) mod 2 ^ 16) = Some (Some t)"
      "e_key (id_entries m ! t) = (pid + d) mod 2 ^ 16" "e_val (id_entries m ! t) = Some v"
    using hit by (cases rule: id_find_cases [OF wf, of "(pid + d) mod 2 ^ 16"]) auto
  with i show ?case by (subst id_get_min_loop.simps) simp
next
  case (Suc n)
  then have i: "i < d" "n = d - Suc i" "Suc i \<le> d" by simp_all
  have f: "id_find m ((pid + i) mod 2 ^ 16) = Some None"
    using miss [OF i(1)] by (cases rule: id_find_cases [OF wf, of "(pid + i) mod 2 ^ 16"]) auto
  have nxt: "((pid + i) mod 2 ^ 16 + 1) mod 2 ^ 16 = (pid + Suc i) mod 2 ^ 16"
    by (simp add: mod_Suc_eq)
  have round: "(pid + Suc i) mod 2 ^ 16 = pid \<longleftrightarrow> Suc i = 2 ^ 16"
    using pid Suc.prems(2) by (auto simp: mod_if)
  show ?case
  proof (cases "Suc i = 2 ^ 16")
    case True
    with i d have "d = 2 ^ 16" by simp
    with True f nxt round show ?thesis
      by (simp only: id_get_min_loop.simps [of m pid "(pid + i) mod 2 ^ 16"] option.case Let_def) simp
  next
    case False
    then have "Suc i < 2 ^ 16" using i d by simp
    with False f nxt round Suc.hyps(1) [OF i(2,3)] show ?thesis
      by (simp only: id_get_min_loop.simps [of m pid "(pid + i) mod 2 ^ 16"] option.case Let_def if_False)
  qed
qed

lemma nni_id_get_min_none:
  assumes wf: "id_wf m" and pid: "pid < 2 ^ 16" and no: "\<And>x. x < 2 ^ 16 \<Longrightarrow> id_abs m x = None"
  shows "nni_id_get_min m pid = Some (None, pid)"
  using id_get_min_loop_ok [OF wf pid, of "2 ^ 16" undefined 0] pid no by (simp add: nni_id_get_min_def)

lemma nni_id_get_min_some:
  assumes wf: "id_wf m" and pid: "pid < 2 ^ 16" and d: "d < 2 ^ 16"
    and hit: "id_abs m ((pid + d) mod 2 ^ 16) = Some v"
    and miss: "\<And>j. j < d \<Longrightarrow> id_abs m ((pid + j) mod 2 ^ 16) = None"
  shows "nni_id_get_min m pid = Some (Some v, (pid + d) mod 2 ^ 16)"
proof -
  have "id_entries m \<noteq> []" using hit by (auto simp: id_abs_def)
  moreover have "id_count m \<noteq> 0"
  proof
    assume "id_count m = 0"
    then have "dom (id_abs m) = {}" using id_wf_card [OF wf] by (metis card_0_eq)
    with hit show False by auto
  qed
  ultimately show ?thesis
    using id_get_min_loop_ok [OF wf pid miss _ hit, of 0] d pid by (simp add: nni_id_get_min_def)
qed

lemma foreach_collect:
  "fold (\<lambda>e s. case e_val e of None \<Rightarrow> s | Some v \<Rightarrow> s @ [(e_key e, v)]) es acc =
   acc @ map (\<lambda>e. (e_key e, the (e_val e))) (filter (\<lambda>e. e_val e \<noteq> None) es)"
  by (induction es arbitrary: acc) (auto split: option.splits)

lemma tbl_map_of: "tbl es = map_of (map (\<lambda>e. (e_key e, the (e_val e))) (filter (\<lambda>e. e_val e \<noteq> None) es))"
  by (induction es) (auto simp: tbl_Cons)

section \<open>The contract of a map\<close>

datatype 'v id_op = Put nat 'v | Del nat

primrec id_apply :: "(nat \<rightharpoonup> 'v) \<Rightarrow> 'v id_op list \<Rightarrow> (nat \<rightharpoonup> 'v)" where
  "id_apply f [] = f"
| "id_apply f (x # xs) =
     id_apply (case x of Put k v \<Rightarrow> f(k \<mapsto> v) | Del k \<Rightarrow> f(k := None)) xs"

text \<open>A run of operations; the log holds those that succeeded.\<close>

primrec id_run :: "('s \<Rightarrow> nat \<Rightarrow> 'v \<Rightarrow> (int \<times> 's) option) \<Rightarrow> ('s \<Rightarrow> nat \<Rightarrow> (int \<times> 's) option) \<Rightarrow> 's \<Rightarrow>
    'v id_op list \<Rightarrow> ('v id_op list \<times> 's) option" where
  "id_run upd del s [] = Some ([], s)"
| "id_run upd del s (x # xs) =
     (case (case x of Put k v \<Rightarrow> upd s k v | Del k \<Rightarrow> del s k) of
        None \<Rightarrow> None
      | Some (rv, s') \<Rightarrow>
          (case id_run upd del s' xs of
             None \<Rightarrow> None
           | Some (log, s'') \<Rightarrow> Some (if rv = 0 then x # log else log, s'')))"

locale bounded_map =
  fixes wf :: "'s \<Rightarrow> bool" and absm :: "'s \<Rightarrow> nat \<rightharpoonup> 'v" and lim :: nat
    and get :: "'s \<Rightarrow> nat \<Rightarrow> 'v option option"
    and upd :: "'s \<Rightarrow> nat \<Rightarrow> 'v \<Rightarrow> (int \<times> 's) option" and del :: "'s \<Rightarrow> nat \<Rightarrow> (int \<times> 's) option"
  assumes get_ok: "wf s \<Longrightarrow> get s k = Some (absm s k)"
    and fin: "wf s \<Longrightarrow> finite (dom (absm s))"
    and upd_ok: "wf s \<Longrightarrow> card (dom (absm s)) < lim \<Longrightarrow>
      \<exists>rv s'. upd s k v = Some (rv, s') \<and> wf s' \<and> absm s' = (if rv = 0 then (absm s)(k \<mapsto> v) else absm s)"
    and del_ok: "wf s \<Longrightarrow>
      \<exists>rv s'. del s k = Some (rv, s') \<and> wf s' \<and> absm s' = (if rv = 0 then (absm s)(k := None) else absm s)"
begin

lemma step_ok:
  assumes "wf s" "card (dom (absm s)) < lim"
  shows "\<exists>rv s'. (case x of Put k v \<Rightarrow> upd s k v | Del k \<Rightarrow> del s k) = Some (rv, s') \<and> wf s' \<and>
    absm s' = (if rv = 0 then id_apply (absm s) [x] else absm s) \<and>
    card (dom (absm s')) \<le> card (dom (absm s)) + 1"
proof (cases x)
  case (Put k v)
  obtain rv s' where "upd s k v = Some (rv, s')" "wf s'"
      "absm s' = (if rv = 0 then (absm s)(k \<mapsto> v) else absm s)"
    using upd_ok [OF assms, of k v] by blast
  with Put show ?thesis by (auto simp: card_insert_if fin [OF assms(1)])
next
  case (Del k)
  obtain rv s' where s': "del s k = Some (rv, s')" "wf s'"
      "absm s' = (if rv = 0 then (absm s)(k := None) else absm s)"
    using del_ok [OF assms(1), of k] by blast
  have "card (dom (absm s')) \<le> card (dom (absm s))"
    using s'(3) fin [OF assms(1)] by (auto intro!: card_mono)
  with Del s' show ?thesis by auto
qed

lemma run_ok:
  "wf s \<Longrightarrow> card (dom (absm s)) + length xs \<le> lim \<Longrightarrow>
   \<exists>log s'. id_run upd del s xs = Some (log, s') \<and> wf s' \<and> absm s' = id_apply (absm s) log"
proof (induction xs arbitrary: s)
  case (Cons x xs)
  then obtain rv s1 where s1: "(case x of Put k v \<Rightarrow> upd s k v | Del k \<Rightarrow> del s k) = Some (rv, s1)" "wf s1"
      "absm s1 = (if rv = 0 then id_apply (absm s) [x] else absm s)"
      "card (dom (absm s1)) \<le> card (dom (absm s)) + 1"
    using step_ok [of s x] by auto
  moreover obtain log s' where "id_run upd del s1 xs = Some (log, s')" "wf s'" "absm s' = id_apply (absm s1) log"
    using Cons.IH [OF s1(2)] s1(4) Cons.prems(2) by auto
  ultimately show ?case by auto
qed simp

end

definition id_set_step :: "allocator \<Rightarrow> nat \<Rightarrow> id_reg \<times> 'v nni_id_map \<Rightarrow> nat \<Rightarrow> 'v \<Rightarrow>
    (int \<times> id_reg \<times> 'v nni_id_map) option" where
  "id_set_step al a = (\<lambda>(g, m) k v. nni_id_set al a g m k (Some v))"

definition id_del_step :: "allocator \<Rightarrow> nat \<Rightarrow> id_reg \<times> 'v nni_id_map \<Rightarrow> nat \<Rightarrow>
    (int \<times> id_reg \<times> 'v nni_id_map) option" where
  "id_del_step al a = (\<lambda>(g, m) k. nni_id_remove al a g m k)"

interpretation id_store: bounded_map "\<lambda>(g, m). id_wf m" "\<lambda>(g, m). id_abs m" "2 ^ 15"
  "\<lambda>(g, m). nni_id_get m" "id_set_step al a" "id_del_step al a" for al a
proof (unfold_locales, goal_cases)
  case (1 s k)
  then show ?case by (auto simp: nni_id_get_ok)
next
  case (2 s)
  then show ?case using id_wf_card by auto
next
  case (3 s k v)
  obtain g m where s: "s = (g, m)" by (cases s)
  then have "id_wf m" "id_count m < 2 ^ 15" using 3 id_wf_card [of m] by auto
  then obtain rv g' m' where "nni_id_set al a g m k (Some v) = Some (rv, g', m')" "id_wf m'"
      "rv = 0 \<and> id_abs m' = (id_abs m)(k \<mapsto> v) \<or> rv = NNG_ENOMEM \<and> id_abs m' = id_abs m"
    using nni_id_set_ok [of m k al a g v] by blast
  then show ?case unfolding s id_set_step_def by auto
next
  case (4 s k)
  obtain g m where s: "s = (g, m)" by (cases s)
  then have wf: "id_wf m" using 4 by auto
  then obtain rv g' m' where "nni_id_remove al a g m k = Some (rv, g', m')" "id_wf m'"
    "rv = (if id_abs m k = None then NNG_ENOENT else 0)" "id_abs m' = (id_abs m)(k := None)"
    using nni_id_remove_ok by metis
  moreover have "id_abs m k = None \<Longrightarrow> (id_abs m)(k := None) = id_abs m" by auto
  ultimately show ?case unfolding s id_del_step_def by auto
qed

section \<open>Properties of id maps\<close>

lemma id_init_wf: "nni_id_map_init lo hi r = Some m \<Longrightarrow> id_wf m \<and> id_abs m = Map.empty"
  by (auto simp: nni_id_map_init_def Let_def id_wf_def id_empty_def id_abs_def split: if_splits)

definition id_map9 :: "nat nni_id_map" where
  "id_map9 = \<lparr>id_flags = 0, id_cap = 0, id_count = 0, id_load = 0, id_min_load = 0, id_max_load = 0,
              id_min_val = 1, id_max_val = 9, id_dyn_val = 0, id_entries = []\<rparr>"

lemma id_init_witness: "nni_id_map_init 1 9 False = Some id_map9"
  by (simp add: nni_id_map_init_def id_map9_def)

lemma id_map9_wf [simp]: "id_wf id_map9" "id_abs id_map9 = Map.empty" "id_count id_map9 = 0"
  "id_min_val id_map9 = 1" "id_max_val id_map9 = 9" "id_range_ok id_map9"
  using id_init_wf [OF id_init_witness] by (simp_all add: id_map9_def id_range_ok_def)

abbreviation id_reg0 :: id_reg where
  "id_reg0 \<equiv> \<lparr>id_reg_len = 0, id_reg_num = 0, id_reg_map = []\<rparr>"

text \<open>C9: After every history of at most \<open>2 ^ 15\<close> sets and removes on a fresh map, however the allocator
  answers, all operations have returned (no loop runs on, no assertion fails, no access leaves
  the table) and a lookup gives exactly what the successful operations say.
  (\<open>nni_id_set\<close>, \<open>nni_id_remove\<close>, \<open>nni_id_get\<close>, with \<open>id_find\<close> and \<open>id_resize\<close>.)\<close>

theorem id_map_history:
  assumes "nni_id_map_init lo hi r = Some m" "length xs \<le> 2 ^ 15"
  shows "\<exists>log g' m'. id_run (id_set_step al a) (id_del_step al a) (g, m) xs = Some (log, (g', m')) \<and>
    (\<forall>k. nni_id_get m' k = Some (id_apply Map.empty log k))"
  using id_store.run_ok [of "(g, m)" xs al a] id_init_wf [OF assms(1)] assms(2)
  by (auto simp: nni_id_get_ok)

theorem id_map_history_witness:
  "\<exists>log g' m'. id_run (id_set_step (\<lambda>_. True) 7) (id_del_step (\<lambda>_. True) 7) (id_reg0, id_map9)
       [Put 3 30, Put 11 110, Del 3] = Some (log, (g', m')) \<and>
     (\<forall>k. nni_id_get m' k = Some (id_apply Map.empty log k))"
  by (rule id_map_history [OF id_init_witness]) simp



text \<open>C20: Removing reports \<open>NNG_ENOENT\<close> exactly for a key that is not there, and otherwise removes it; no other
  binding changes, whether or not the table is shrunk. (\<open>nni_id_remove\<close>.)\<close>

theorem nni_id_remove_spec:
  assumes "id_wf m"
  shows "\<exists>g' m'. nni_id_remove al a g m key = Some (if id_abs m key = None then NNG_ENOENT else 0, g', m') \<and>
    id_wf m' \<and> id_abs m' = (id_abs m)(key := None)"
proof -
  obtain rv g' m' where "nni_id_remove al a g m key = Some (rv, g', m')" "id_wf m'"
      "rv = (if id_abs m key = None then NNG_ENOENT else 0)" "id_abs m' = (id_abs m)(key := None)"
    by (rule nni_id_remove_ok [OF assms])
  then show ?thesis by simp
qed

theorem nni_id_remove_spec_witness:
  "\<exists>g' m'. nni_id_remove (\<lambda>_. True) 7 id_reg0 id_map9 4 = Some (NNG_ENOENT, g', m') \<and> id_wf m' \<and>
    id_abs m' = Map.empty"
  using nni_id_remove_spec [of id_map9 "\<lambda>_. True" 7 id_reg0 4] by (simp add: fun_upd_def cong: if_cong)

text \<open>C28: For every capacity that is a power of two the probe sequence from any cell visits every cell of
  the table, each once, before it returns to the start. (\<^verbatim>\<open>ID_NEXT\<close>; the comment claims it.)\<close>

theorem id_next_full_cycle:
  assumes "h < 2 ^ k"
  shows "bij_betw (\<lambda>i. (id_next (2 ^ k) ^^ i) h) {..<2 ^ k} {..<2 ^ k} \<and> (id_next (2 ^ k) ^^ (2 ^ k)) h = h"
proof -
  have "(\<lambda>i. (id_next (2 ^ k) ^^ i) h) ` {..<2 ^ k} = {..<2 ^ k}"
    using id_cycle.orbit_inj [OF assms] id_cycle.orbit_less [OF assms] by (intro endo_inj_surj) auto
  then show ?thesis
    using id_cycle.orbit_inj [OF assms] id_cycle.orbit_N [OF assms] by (simp add: bij_betw_def)
qed

theorem id_next_full_cycle_witness:
  "bij_betw (\<lambda>i. (id_next (2 ^ 3) ^^ i) 5) {..<2 ^ 3} {..<2 ^ 3} \<and> (id_next (2 ^ 3) ^^ (2 ^ 3)) 5 = 5"
  by (rule id_next_full_cycle) simp

text \<open>C26: The rolling lookup ends and returns the first stored 16-bit identifier at or after the given
  one, wrapping around, together with its value; with none stored it returns nothing and keeps
  the identifier. (\<open>nni_id_get_min\<close>.)\<close>

theorem nni_id_get_min_first:
  assumes "id_wf m" "pid < 2 ^ 16"
  shows "\<exists>r pid'. nni_id_get_min m pid = Some (r, pid') \<and>
    (case r of
       None \<Rightarrow> pid' = pid \<and> (\<forall>x < 2 ^ 16. id_abs m x = None)
     | Some v \<Rightarrow> id_abs m pid' = Some v \<and>
         (\<exists>d < 2 ^ 16. pid' = (pid + d) mod 2 ^ 16 \<and> (\<forall>j < d. id_abs m ((pid + j) mod 2 ^ 16) = None)))"
proof (cases "\<exists>i < 2 ^ 16. id_abs m ((pid + i) mod 2 ^ 16) \<noteq> None")
  case True
  define d where "d = (LEAST i. i < 2 ^ 16 \<and> id_abs m ((pid + i) mod 2 ^ 16) \<noteq> None)"
  have d: "d < 2 ^ 16 \<and> id_abs m ((pid + d) mod 2 ^ 16) \<noteq> None"
    unfolding d_def by (rule LeastI_ex) (rule True)
  have miss: "id_abs m ((pid + j) mod 2 ^ 16) = None" if "j < d" for j
    using not_less_Least [of j "\<lambda>i. i < 2 ^ 16 \<and> id_abs m ((pid + i) mod 2 ^ 16) \<noteq> None"] that d
    unfolding d_def [symmetric] by auto
  from d obtain v where v: "id_abs m ((pid + d) mod 2 ^ 16) = Some v" by blast
  show ?thesis
    using nni_id_get_min_some [OF assms conjunct1 [OF d] v miss] v miss d by auto
next
  case False
  have "id_abs m x = None" if x: "x < 2 ^ 16" for x
  proof -
    have e: "(pid + (x + 2 ^ 16 - pid) mod 2 ^ 16) mod 2 ^ 16 = x"
      using x assms(2) by (simp add: mod_add_right_eq)
    have "(x + 2 ^ 16 - pid) mod 2 ^ 16 < (2 :: nat) ^ 16" by (rule mod_less_divisor) simp
    with False have "id_abs m ((pid + (x + 2 ^ 16 - pid) mod 2 ^ 16) mod 2 ^ 16) = None" by blast
    then show ?thesis unfolding e .
  qed
  with nni_id_get_min_none [OF assms] show ?thesis by auto
qed

theorem nni_id_get_min_first_witness:
  "\<exists>r pid'. nni_id_get_min id_map9 65535 = Some (r, pid') \<and> (r = None \<longrightarrow> pid' = 65535)"
  using nni_id_get_min_first [of id_map9 65535] by (auto split: option.splits)

text \<open>C27: A traversal calls its callback exactly once for every binding of the map.
  (\<open>nni_id_map_foreach\<close>; the callback here collects what it is given.)\<close>

theorem nni_id_map_foreach_once:
  assumes "id_wf m"
  shows "\<exists>kvs. nni_id_map_foreach m (\<lambda>k v s. s @ [(k, v)]) [] = kvs \<and> distinct (map fst kvs) \<and>
    map_of kvs = id_abs m \<and> length kvs = id_count m"
proof -
  let ?L = "map (\<lambda>e. (e_key e, the (e_val e))) (filter (\<lambda>e. e_val e \<noteq> None) (id_entries m))"
  have t: "take (id_cap m) (id_entries m) = id_entries m"
    using assms by (auto simp: id_wf_def id_empty_def id_table_def)
  have "nni_id_map_foreach m (\<lambda>k v s. s @ [(k, v)]) [] = ?L"
  proof (cases "id_entries m = []")
    case False
    then show ?thesis
      unfolding nni_id_map_foreach_def t foreach_collect by simp
  qed (simp add: nni_id_map_foreach_def)
  moreover have "distinct (map fst ?L)"
    using distinct_keys [OF id_wf_inj [OF assms]] by (simp add: comp_def)
  moreover have "map_of ?L = id_abs m" unfolding id_abs_def by (rule tbl_map_of [symmetric])
  moreover have "length ?L = id_count m"
    unfolding length_map card_occ_filter [symmetric] using id_wf_count [OF assms] by simp
  ultimately show ?thesis by blast
qed

theorem nni_id_map_foreach_once_witness:
  "\<exists>kvs. nni_id_map_foreach id_map9 (\<lambda>k v s. s @ [(k, v)]) [] = kvs \<and> distinct (map fst kvs) \<and>
    map_of kvs = id_abs id_map9 \<and> length kvs = id_count id_map9"
  by (rule nni_id_map_foreach_once) simp

end
