(* ===== verification/MqttPrim.thy ===== *)
theory MqttPrim
  imports Message
begin

text \<open>
  The primitives of the MQTT codec: the position buffer with its readers and writers, the
  variable-length integers and the string buffers of \<^verbatim>\<open>supplemental/mqtt/mqtt_codec.c\<close>, and the second
  family of variable-length integer functions of \<^verbatim>\<open>sp/protocol/mqtt/mqtt_parser.c\<close>.

  A \<^verbatim>\<open>pos_buf\<close> that is read is the list of the bytes from \<^verbatim>\<open>curpos\<close> up to \<^verbatim>\<open>endpos\<close>; a reader returns
  an MQTT error code or the value and the bytes left. A \<^verbatim>\<open>pos_buf\<close> that is written is the record
  \<open>wbuf\<close> of the bytes written and the room left. 32-bit lengths are natural numbers reduced with \<open>wrap32\<close>.
  \<open>None\<close> as a result stands for an access outside of the buffer or through a null pointer.

  Contents: the functions; encodings of variable-length integers and that all readers and writers of
  the code base agree on them; strings; appending to a message.
\<close>

section \<open>Constants and buffers\<close>

abbreviation MQTT_SUCCESS :: int where "MQTT_SUCCESS \<equiv> 0"
abbreviation MQTT_ERR_NOMEM :: int where "MQTT_ERR_NOMEM \<equiv> 1"
abbreviation MQTT_ERR_PROTOCOL :: int where "MQTT_ERR_PROTOCOL \<equiv> 2"
abbreviation MQTT_ERR_INVAL :: int where "MQTT_ERR_INVAL \<equiv> 3"
abbreviation MQTT_ERR_PAYLOAD_SIZE :: int where "MQTT_ERR_PAYLOAD_SIZE \<equiv> 4"
abbreviation MQTT_ERR_MALFORMED :: int where "MQTT_ERR_MALFORMED \<equiv> 7"
abbreviation MQTT_MAX_MSG_LEN :: nat where "MQTT_MAX_MSG_LEN \<equiv> 268435455"

record mqtt_buf =
  blen :: nat
  bbuf :: "bytes option"

record mqtt_kv =
  kv_key :: mqtt_buf
  kv_value :: mqtt_buf

definition buf0 :: mqtt_buf where
  "buf0 = \<lparr>blen = 0, bbuf = None\<rparr>"

record wbuf =
  wout :: bytes
  room :: nat

section \<open>Variable-length integers\<close>

definition byte_number_for_variable_length :: "nat \<Rightarrow> nat" where
  "byte_number_for_variable_length variable =
     (if variable < 128 then 1
      else if variable < 16384 then 2
      else if variable < 2097152 then 3
      else if variable < 268435456 then 4
      else 5)"

text \<open>
  The bytes that the \<^verbatim>\<open>do\<close> loop stores at \<^verbatim>\<open>curpos\<close>, one per round; \<open>count\<close> is the number stored before.
\<close>

function write_var_loop :: "nat \<Rightarrow> nat \<Rightarrow> bytes" where
  "write_var_loop count val =
     (let byte = of_nat (val mod 128);
          val' = val div 128;
          byte' = (if val' > 0 then byte OR 0x80 else byte);
          count' = count + 1 in
      if val' > 0 \<and> count' < 5 then byte' # write_var_loop count' val' else [byte'])"
  by auto

termination
  by (relation "measure (\<lambda>(count, val). 5 - count)") auto

declare write_var_loop.simps [simp del]

text \<open>The returned count or -1, and the bytes that were stored: five when it is -1.\<close>

definition write_variable_length_value :: "nat \<Rightarrow> int \<times> bytes" where
  "write_variable_length_value val =
     (let bs = write_var_loop 0 val in
      (if length bs = 5 then -1 else int (length bs), bs))"

text \<open>
  The loop of \<^verbatim>\<open>read_variable_int\<close>; \<open>i\<close> counts the rounds and is also the distance of \<^verbatim>\<open>ptr\<close> from the
  start and the old \<^verbatim>\<open>lbytes\<close>. The result is an error or the value and the number of bytes used.
\<close>

function read_var_loop :: "bytes \<Rightarrow> nat \<Rightarrow> nat \<Rightarrow> nat \<Rightarrow> nat \<Rightarrow> int + nat \<times> nat" where
  "read_var_loop p len i multiplier lword =
     (if i < 4 then
        (if i + 1 > len then Inl MQTT_ERR_PAYLOAD_SIZE
         else
           (let lbytes = i + 1; byte = p ! i;
                lword' = lword + unat (byte AND 127) * multiplier in
            if byte AND 128 = 0 then
              (if lbytes > 1 \<and> byte = 0 then Inl MQTT_ERR_INVAL else Inr (lword', lbytes))
            else read_var_loop p len (i + 1) (multiplier * 128) lword'))
      else Inl MQTT_ERR_INVAL)"
  by auto

termination
  by (relation "measure (\<lambda>(p, len, i, multiplier, lword). 4 - i)") auto

declare read_var_loop.simps [simp del]

text \<open>
  The pointers \<^verbatim>\<open>value\<close> and \<^verbatim>\<open>used_bytes\<close> are passed as their old targets and returned as the new ones.
  \<open>p\<close> holds at least \<open>len\<close> bytes.
\<close>

definition read_variable_int :: "bytes option \<Rightarrow> nat \<Rightarrow> nat \<Rightarrow> nat \<Rightarrow> int \<times> nat \<times> nat" where
  "read_variable_int ptr len val used_bytes =
     (case ptr of
        None \<Rightarrow> (0, val, used_bytes)
      | Some p \<Rightarrow>
          (case read_var_loop p len 0 1 0 of
             Inl e \<Rightarrow> (e, val, used_bytes)
           | Inr (v, n) \<Rightarrow> (MQTT_SUCCESS, v, n)))"

text \<open>
  The comparison binds tighter than the assignment in
  \<^verbatim>\<open>rv = read_variable_int(...) != MQTT_SUCCESS\<close>, so that every error is returned as 1.
\<close>

definition read_variable_integer :: "bytes \<Rightarrow> nat \<Rightarrow> int + nat \<times> bytes" where
  "read_variable_integer b integer =
     (case read_variable_int (Some b) (length b) integer 0 of
        (e, v, n) \<Rightarrow> if e \<noteq> MQTT_SUCCESS then Inl 1 else Inr (v, drop n b))"

text \<open>
  \<open>None\<close>: the shift count reaches the width of \<^verbatim>\<open>uint32_t\<close>, which C leaves undefined. The third
  component is the buffer after the bytes that were consumed.
\<close>

fun read_packet_loop :: "bytes \<Rightarrow> nat \<Rightarrow> nat \<Rightarrow> nat \<Rightarrow> (int \<times> nat \<times> bytes) option" where
  "read_packet_loop [] shift cnt len =
     Some (if cnt \<ge> MQTT_MAX_MSG_LEN then MQTT_ERR_INVAL else MQTT_ERR_MALFORMED, len, [])"
| "read_packet_loop (b # r) shift cnt len =
     (if cnt \<ge> MQTT_MAX_MSG_LEN then Some (MQTT_ERR_INVAL, len, b # r)
      else if shift \<ge> 32 then None
      else
        (let len' = wrap32 (len + wrap32 (unat (b AND 0x7F) * 2 ^ shift));
             shift' = (shift + 7) mod 256;
             cnt' = cnt + 1 in
         if b AND 0x80 \<noteq> 0 then read_packet_loop r shift' cnt' len'
         else Some (if len' > MQTT_MAX_MSG_LEN then MQTT_ERR_INVAL else 0, len', r)))"

definition read_packet_length :: "bytes \<Rightarrow> (int \<times> nat \<times> bytes) option" where
  "read_packet_length b = read_packet_loop b 0 0 0"

text \<open>\<open>p\<close> holds at least \<open>max_len\<close> bytes.\<close>

function fast_read_loop :: "bytes \<Rightarrow> nat \<Rightarrow> nat \<Rightarrow> nat \<Rightarrow> nat \<Rightarrow> (nat \<times> nat) option" where
  "fast_read_loop p max_len i mult val =
     (if i < 4 then
        (if i \<ge> max_len then None
         else
           (let b = p ! i; val' = val + unat (b AND 0x7F) * mult in
            if b AND 0x80 = 0 then Some (val', i + 1)
            else fast_read_loop p max_len (i + 1) (mult * 128) val'))
      else None)"
  by auto

termination
  by (relation "measure (\<lambda>(p, max_len, i, mult, val). 4 - i)") auto

declare fast_read_loop.simps [simp del]

text \<open>The result is \<open>None\<close> for -1 and otherwise the value and the number of bytes.\<close>

definition fast_read_varint :: "bytes \<Rightarrow> nat \<Rightarrow> (nat \<times> nat) option" where
  "fast_read_varint p max_len = fast_read_loop p max_len 0 1 0"

subsection \<open>The functions of \<^verbatim>\<open>mqtt_parser.c\<close>\<close>

fun power_loop :: "nat \<Rightarrow> nat \<Rightarrow> nat \<Rightarrow> nat" where
  "power_loop x 0 val = val"
| "power_loop x (Suc k) val = power_loop x k (wrap64 (x * val))"

text \<open>The loop runs \<open>n + 1\<close> times; the division undoes one multiplication unless the product wrapped.\<close>

definition power_u64 :: "nat \<Rightarrow> nat \<Rightarrow> nat" where
  "power_u64 x n = power_loop x (n + 1) 1 div x"

definition get_value_size :: "nat \<Rightarrow> nat" where
  "get_value_size val =
     (if val \<ge> power_u64 0x80 1 then
        (if val \<ge> power_u64 0x80 2 then
           (if val \<ge> power_u64 0x80 3 then 4 else 3)
         else 2)
      else 1)"

text \<open>The bytes stored at \<^verbatim>\<open>dest\<close> from index \<open>i\<close> on, \<open>n\<close> of them.\<close>

fun put_var_loop :: "nat \<Rightarrow> nat \<Rightarrow> nat \<Rightarrow> nat \<Rightarrow> bytes" where
  "put_var_loop 0 i init_val val = []"
| "put_var_loop (Suc n) i init_val val =
     (let init_val' = (if i > 0 then wrap32 ((init_val * 0x80) OR 0xFF) else init_val);
          d = of_nat (val div wrap32 (power_u64 0x80 i)) :: u8;
          d' = (if val > init_val' then d OR 0x80 else d) in
      d' # put_var_loop n (i + 1) init_val' val)"

definition put_var_integer :: "nat \<Rightarrow> bytes" where
  "put_var_integer val = put_var_loop (get_value_size val) 0 0x7F val"

text \<open>
  \<open>i\<close> is the exponent of the round; the loop goes on after at most four continuation bytes. \<open>None\<close> is
  a read behind the buffer.
\<close>

function get_var_loop :: "bytes \<Rightarrow> nat \<Rightarrow> nat \<Rightarrow> nat \<Rightarrow> (nat \<times> nat) option" where
  "get_var_loop buf p i result =
     (if p \<ge> length buf then None
      else
        (let temp = buf ! p;
             result' = wrap32 (result + unat (temp AND 0x7f) * power_u64 0x80 i) in
         if temp AND 0x80 > 0 \<and> i < 4 then get_var_loop buf (p + 1) (i + 1) result'
         else Some (result', p + 1)))"
  by auto

termination
  by (relation "measure (\<lambda>(buf, p, i, result). 5 - i)") auto

declare get_var_loop.simps [simp del]

text \<open>The value and the new \<^verbatim>\<open>*pos\<close>, which is a \<^verbatim>\<open>uint8_t\<close>.\<close>

definition get_var_integer :: "bytes \<Rightarrow> nat \<Rightarrow> (nat \<times> nat) option" where
  "get_var_integer buf pos =
     map_option (\<lambda>(v, p). (v, p mod 256)) (get_var_loop buf pos 0 0)"

text \<open>
  \<^verbatim>\<open>ptr\<close> starts one behind \<^verbatim>\<open>packet\<close>, and the \<^verbatim>\<open>len\<close> that bounds it is used as it is. The bytes at \<^verbatim>\<open>packet\<close>
  are those of the whole object it points into, so that the read at \<open>i + 1\<close> can lie behind \<open>len\<close>.
\<close>

definition mqtt_get_remaining_length :: "bytes \<Rightarrow> nat \<Rightarrow> int + nat \<times> nat" where
  "mqtt_get_remaining_length packet len = read_var_loop (drop 1 packet) len 0 1 0"

section \<open>Position buffers\<close>

definition write_byte :: "u8 \<Rightarrow> wbuf \<Rightarrow> int \<times> wbuf" where
  "write_byte val b =
     (if room b < 1 then (MQTT_ERR_NOMEM, b)
      else (0, \<lparr>wout = wout b @ [val], room = room b - 1\<rparr>))"

definition write_uint16 :: "u16 \<Rightarrow> wbuf \<Rightarrow> int \<times> wbuf" where
  "write_uint16 val b =
     (if room b < 2 then (MQTT_ERR_NOMEM, b)
      else (0, \<lparr>wout = wout b @ NNI_PUT16 val, room = room b - 2\<rparr>))"

definition write_uint32 :: "u32 \<Rightarrow> wbuf \<Rightarrow> int \<times> wbuf" where
  "write_uint32 val b =
     (if room b < 4 then (MQTT_ERR_NOMEM, b)
      else (0, \<lparr>wout = wout b @ NNI_PUT32 val, room = room b - 4\<rparr>))"

definition write_uint64 :: "u64 \<Rightarrow> wbuf \<Rightarrow> int \<times> wbuf" where
  "write_uint64 val b =
     (if room b < 8 then (MQTT_ERR_NOMEM, b)
      else (0, \<lparr>wout = wout b @ NNI_PUT64 val, room = room b - 8\<rparr>))"

definition write_bytes :: "bytes \<Rightarrow> nat \<Rightarrow> wbuf \<Rightarrow> int \<times> wbuf" where
  "write_bytes bs len b =
     (if room b < len then (MQTT_ERR_NOMEM, b)
      else (0, \<lparr>wout = wout b @ take len bs, room = room b - len\<rparr>))"

text \<open>
  The sum in the room test is computed in 32 bits. \<open>None\<close>: the copy leaves the buffer, or copies from
  a null pointer.
\<close>

definition write_byte_string :: "mqtt_buf \<Rightarrow> wbuf \<Rightarrow> (int \<times> wbuf) option" where
  "write_byte_string str b =
     (if room b < wrap32 (blen str + 2) then Some (MQTT_ERR_NOMEM, b)
      else
        (let b1 = snd (write_uint16 (of_nat (blen str)) b) in
         if blen str = 0 then Some (0, b1)
         else if room b1 < blen str then None
         else
           (case bbuf str of
              None \<Rightarrow> None
            | Some d \<Rightarrow> Some (0, \<lparr>wout = wout b1 @ take (blen str) d, room = room b1 - blen str\<rparr>))))"

fun read_byte :: "bytes \<Rightarrow> int + u8 \<times> bytes" where
  "read_byte [] = Inl MQTT_ERR_NOMEM"
| "read_byte (b # r) = Inr (b, r)"

definition read_uint16 :: "bytes \<Rightarrow> int + u16 \<times> bytes" where
  "read_uint16 b = (if length b < 2 then Inl MQTT_ERR_INVAL else Inr (NNI_GET16 b 0, drop 2 b))"

definition read_uint32 :: "bytes \<Rightarrow> int + u32 \<times> bytes" where
  "read_uint32 b = (if length b < 4 then Inl MQTT_ERR_INVAL else Inr (NNI_GET32 b 0, drop 4 b))"

definition read_uint64 :: "bytes \<Rightarrow> int + u64 \<times> bytes" where
  "read_uint64 b = (if length b < 8 then Inl MQTT_ERR_INVAL else Inr (NNI_GET64 b 0, drop 8 b))"

definition read_bytes :: "bytes \<Rightarrow> nat \<Rightarrow> int + bytes \<times> bytes" where
  "read_bytes b len = (if length b < len then Inl MQTT_ERR_INVAL else Inr (take len b, drop len b))"

text \<open>A buffer that was read points at the bytes it names.\<close>

definition read_utf8_str :: "bytes \<Rightarrow> int + mqtt_buf \<times> bytes" where
  "read_utf8_str b =
     (case read_uint16 b of
        Inl e \<Rightarrow> Inl e
      | Inr (n, r) \<Rightarrow>
          if length r < unat n then Inl MQTT_ERR_INVAL
          else if n > 0 then Inr (\<lparr>blen = unat n, bbuf = Some (take (unat n) r)\<rparr>, drop (unat n) r)
          else Inr (\<lparr>blen = unat n, bbuf = None\<rparr>, r))"

definition read_str_data :: "bytes \<Rightarrow> int + mqtt_buf \<times> bytes" where
  "read_str_data b =
     (case read_uint16 b of
        Inl e \<Rightarrow> Inl e
      | Inr (n, r) \<Rightarrow>
          if length r < unat n then Inl MQTT_ERR_INVAL
          else if n > 0 then Inr (\<lparr>blen = unat n, bbuf = Some (take (unat n) r)\<rparr>, drop (unat n) r)
          else Inr (\<lparr>blen = unat n, bbuf = None\<rparr>, r))"

section \<open>String buffers\<close>

text \<open>
  The destination is passed as its old value. Without memory its pointer becomes null and its
  length stays. \<open>None\<close> is a copy from a null pointer.
\<close>

definition mqtt_buf_create ::
    "allocator \<Rightarrow> mqtt_buf \<Rightarrow> bytes option \<Rightarrow> nat \<Rightarrow> (int \<times> mqtt_buf) option" where
  "mqtt_buf_create al mbuf buf len =
     (if len > 0 then
        (if al len then
           (case buf of None \<Rightarrow> None | Some d \<Rightarrow> Some (0, \<lparr>blen = len, bbuf = Some (take len d)\<rparr>))
         else Some (NNG_ENOMEM, mbuf\<lparr>bbuf := None\<rparr>))
      else Some (NNG_ENOMEM, mbuf))"

definition mqtt_buf_dup :: "allocator \<Rightarrow> mqtt_buf \<Rightarrow> mqtt_buf \<Rightarrow> (int \<times> mqtt_buf) option" where
  "mqtt_buf_dup al dest src =
     (if blen src \<le> 0 then Some (0, dest)
      else if al (blen src) then
        (case bbuf src of
           None \<Rightarrow> None
         | Some d \<Rightarrow> Some (0, \<lparr>blen = blen src, bbuf = Some (take (blen src) d)\<rparr>))
      else Some (NNG_ENOMEM, dest\<lparr>bbuf := None\<rparr>))"

definition mqtt_buf_free :: "mqtt_buf \<Rightarrow> mqtt_buf" where
  "mqtt_buf_free b = (if blen b > 0 then \<lparr>blen = 0, bbuf = None\<rparr> else b)"

definition mqtt_kv_create ::
    "allocator \<Rightarrow> mqtt_kv \<Rightarrow> bytes option \<Rightarrow> nat \<Rightarrow> bytes option \<Rightarrow> nat \<Rightarrow> (int \<times> mqtt_kv) option" where
  "mqtt_kv_create al kv key key_len val val_len =
     (case mqtt_buf_create al (kv_key kv) key key_len of
        None \<Rightarrow> None
      | Some (rv, k) \<Rightarrow>
          (let kv = kv\<lparr>kv_key := k\<rparr> in
           if rv \<noteq> 0 then Some (rv, kv)
           else map_option (\<lambda>(rv, v). (rv, kv\<lparr>kv_value := v\<rparr>))
                  (mqtt_buf_create al (kv_value kv) val val_len)))"

definition mqtt_kv_dup :: "allocator \<Rightarrow> mqtt_kv \<Rightarrow> mqtt_kv \<Rightarrow> (int \<times> mqtt_kv) option" where
  "mqtt_kv_dup al dest src =
     (case mqtt_buf_dup al (kv_key dest) (kv_key src) of
        None \<Rightarrow> None
      | Some (rv, k) \<Rightarrow>
          (let dest = dest\<lparr>kv_key := k\<rparr> in
           if rv \<noteq> 0 then Some (rv, dest)
           else map_option (\<lambda>(rv, v). (rv, dest\<lparr>kv_value := v\<rparr>))
                  (mqtt_buf_dup al (kv_value dest) (kv_value src))))"

definition mqtt_kv_free :: "mqtt_kv \<Rightarrow> mqtt_kv" where
  "mqtt_kv_free kv = \<lparr>kv_key = mqtt_buf_free (kv_key kv), kv_value = mqtt_buf_free (kv_value kv)\<rparr>"

section \<open>Appending to a message\<close>

text \<open>The results of \<^verbatim>\<open>nni_msg_append\<close> are dropped here, as in the code.\<close>

definition nni_mqtt_msg_append_u8 :: "allocator \<Rightarrow> 'p nng_msg \<Rightarrow> u8 \<Rightarrow> 'p nng_msg" where
  "nni_mqtt_msg_append_u8 al m val = snd (nni_msg_append al m (Some [val]) 1)"

definition nni_mqtt_msg_append_u16 :: "allocator \<Rightarrow> 'p nng_msg \<Rightarrow> u16 \<Rightarrow> 'p nng_msg" where
  "nni_mqtt_msg_append_u16 al m val = snd (nni_msg_append al m (Some (NNI_PUT16 val)) 2)"

definition nni_mqtt_msg_append_u32 :: "allocator \<Rightarrow> 'p nng_msg \<Rightarrow> u32 \<Rightarrow> 'p nng_msg" where
  "nni_mqtt_msg_append_u32 al m val = snd (nni_msg_append al m (Some (NNI_PUT32 val)) 4)"

definition nni_mqtt_msg_append_varint :: "allocator \<Rightarrow> 'p nng_msg \<Rightarrow> nat \<Rightarrow> int \<times> 'p nng_msg" where
  "nni_mqtt_msg_append_varint al m val =
     (if val > 268435455 then (-1, m)
      else
        (case write_variable_length_value val of
           (n, buf) \<Rightarrow>
             if n > -1 then (0, snd (nni_msg_append al m (Some buf) (nat n))) else (-1, m)))"

definition nni_mqtt_msg_append_byte_str :: "allocator \<Rightarrow> 'p nng_msg \<Rightarrow> mqtt_buf \<Rightarrow> 'p nng_msg" where
  "nni_mqtt_msg_append_byte_str al m str =
     (let m = nni_mqtt_msg_append_u16 al m (of_nat (blen str)) in
      snd (nni_msg_append al m (bbuf str) (blen str)))"

section \<open>The encodings of variable-length integers\<close>

subsection \<open>Seven bits and a continuation bit\<close>

lemma unat_and_127: "unat (b AND 127 :: u8) = unat b mod 128"
proof -
  have "unat (b AND 127) = unat b AND 127"
    by (simp add: unsigned_and_eq)
  also have "\<dots> = unat b mod 128"
    using take_bit_eq_mask [of 7 "unat b"] by (simp add: take_bit_eq_mod mask_eq_exp_minus_1)
  finally show ?thesis .
qed

lemma and_128_eq: "(b AND 128 :: u8) = 0 \<longleftrightarrow> unat b < 128"
proof -
  have "unat b < 256"
    using unsigned_less [where ?'a = nat, of b] by simp
  then have "unat b div 128 = (if unat b < 128 then 0 else 1)"
    by (auto intro: div_nat_eqI)
  then have "bit (unat b) 7 \<longleftrightarrow> \<not> unat b < 128"
    by (simp add: bit_iff_odd)
  then show ?thesis
    using and_exp_eq_0_iff_not_bit [of b 7] by (simp add: bit_unsigned_iff)
qed

lemma unat_or_128:
  assumes "x < 128"
  shows "unat (of_nat x OR 128 :: u8) = x + 128"
proof -
  have "(of_nat x OR 128 :: u8) = of_nat x + 128"
    using assms and_128_eq [of "of_nat x"]
    by (subst disjunctive_add_eq_or) (simp_all add: unat_of_nat)
  also have "\<dots> = of_nat (x + 128)" by simp
  finally show ?thesis using assms by (simp add: unat_of_nat del: of_nat_add)
qed

lemmas varbyte = unat_and_127 and_128_eq unat_or_128

lemma unat_lt_256: "unat (b :: u8) < 256"
  using unsigned_less [where ?'a = nat, of b] by simp

lemma or_128_mod:
  assumes "\<not> unat (b :: u8) < 128"
  shows "of_nat (unat b mod 128) OR 128 = b"
proof -
  have "unat (of_nat (unat b mod 128) OR 128 :: u8) = unat b mod 128 + 128"
    by (rule unat_or_128) simp
  moreover have "unat b - 128 < 128" using unat_lt_256 [of b] by linarith
  then have "unat b mod 128 + 128 = unat b"
    using assms by (simp add: le_mod_geq)
  ultimately show ?thesis by (simp add: word_unat_eq_iff)
qed

subsection \<open>The writer and the reader are inverse\<close>

lemma write_var_last: "v < 128 \<Longrightarrow> write_var_loop c v = [of_nat v]"
  by (subst write_var_loop.simps) simp

lemma write_var_more:
  "128 \<le> v \<Longrightarrow> c < 4 \<Longrightarrow>
   write_var_loop c v = (of_nat (v mod 128) OR 128) # write_var_loop (c + 1) (v div 128)"
  by (subst write_var_loop.simps) (simp add: Let_def div_greater_zero_iff)

lemma read_var_last:
  assumes "i < 4" "i < len" "unat (p ! i) < 128"
  shows "read_var_loop p len i m w =
    (if i > 0 \<and> p ! i = 0 then Inl MQTT_ERR_INVAL else Inr (w + unat (p ! i) * m, i + 1))"
  using assms by (subst read_var_loop.simps) (auto simp: varbyte Let_def)

lemma read_var_more:
  assumes "i < 4" "i < len" "\<not> unat (p ! i) < 128"
  shows "read_var_loop p len i m w =
    read_var_loop p len (i + 1) (m * 128) (w + unat (p ! i) mod 128 * m)"
  using assms by (subst read_var_loop.simps) (simp add: varbyte Let_def)

lemma pow_128: "i < 4 \<Longrightarrow> 128 ^ (4 - i) = 128 ^ (4 - (i + 1)) * (128 :: nat)"
proof -
  assume "i < 4"
  then have "4 - i = Suc (4 - (i + 1))" by simp
  then show ?thesis by (simp only: power_Suc2)
qed

lemma read_write_var:
  assumes "i < 4" "v < 128 ^ (4 - i)" "i = 0 \<or> 0 < v" "length pre = i"
    "i + length (write_var_loop i v) \<le> len"
  shows "read_var_loop (pre @ write_var_loop i v @ post) len i m w =
    Inr (w + v * m, i + length (write_var_loop i v))"
  using assms
proof (induction "4 - i" arbitrary: i v pre m w)
  case 0
  then show ?case by simp
next
  case (Suc k)
  show ?case
  proof (cases "v < 128")
    case True
    then show ?thesis
      using Suc.prems by (subst read_var_last) (auto simp: write_var_last nth_append unat_of_nat word_unat_eq_iff)
  next
    case False
    then have i: "i + 1 < 4"
      using Suc.prems(1,2) by (cases "i = 3") auto
    have v: "v div 128 < 128 ^ (4 - (i + 1))" "0 < v div 128"
      using Suc.prems(2) False less_mult_imp_div_less [of v "128 ^ (4 - (i + 1))" 128]
        pow_128 [OF Suc.prems(1)] by (auto simp: div_greater_zero_iff)
    let ?b = "of_nat (v mod 128) OR 128 :: u8"
    have w: "write_var_loop i v = ?b # write_var_loop (i + 1) (v div 128)"
      using False Suc.prems(1) i by (intro write_var_more) auto
    have "read_var_loop (pre @ write_var_loop i v @ post) len i m w =
      read_var_loop ((pre @ [?b]) @ write_var_loop (i + 1) (v div 128) @ post) len (i + 1) (m * 128)
        (w + v mod 128 * m)"
      using Suc.prems w by (subst read_var_more) (auto simp: nth_append unat_or_128)
    also have "\<dots> = Inr (w + v mod 128 * m + v div 128 * (m * 128),
        i + 1 + length (write_var_loop (i + 1) (v div 128)))"
      using Suc.prems Suc.hyps(2) v i w by (intro Suc.hyps(1)) auto
    also have "w + v mod 128 * m + v div 128 * (m * 128) = w + (v div 128 * 128 + v mod 128) * m"
      by (simp only: distrib_left distrib_right ac_simps)
    finally show ?thesis by (simp add: w)
  qed
qed

lemma read_var_canonical:
  assumes "read_var_loop p len i m w = Inr (v, n)" "len \<le> length p" "i \<le> 4"
  shows "\<exists>u. v = w + u * m \<and> u < 128 ^ (4 - i) \<and> i < n \<and> n \<le> 4 \<and> n \<le> len \<and> (i > 0 \<longrightarrow> 0 < u) \<and>
    bslice i (n - i) p = write_var_loop i u"
  using assms
proof (induction p len i m w rule: read_var_loop.induct)
  case (1 p len i m w)
  then have i: "i < 4" "i < len"
    by (auto simp: read_var_loop.simps [of p len i] split: if_splits)
  then have d: "bslice i (Suc k) p = p ! i # bslice (Suc i) k p" for k
    using 1(3) by (intro bslice_Cons) simp
  show ?case
  proof (cases "unat (p ! i) < 128")
    case True
    have "unat (p ! i) < 128 ^ (4 - i)"
      using True i self_le_power [of "128 :: nat" "4 - i"] by simp
    then show ?thesis
      using 1(2,3) True i d [of 0]
      by (auto simp: read_var_last write_var_last word_unat_eq_iff split: if_splits
          intro!: exI [of _ "unat (p ! i)"])
  next
    case False
    let ?x = "unat (p ! i) mod 128"
    have "read_var_loop p len (i + 1) (m * 128) (w + ?x * m) = Inr (v, n)"
      using 1(2) False i by (simp add: read_var_more)
    then obtain u where u: "v = w + ?x * m + u * (m * 128)" "u < 128 ^ (4 - (i + 1))" "i + 1 < n" "n \<le> 4"
        "n \<le> len" "0 < u" "bslice (i + 1) (n - (i + 1)) p = write_var_loop (i + 1) u"
      using 1(1) [OF i(1) _ refl refl refl] 1(3) i False by (auto simp: varbyte)
    have lt: "u * 128 + ?x < 128 ^ (4 - i)"
    proof -
      have "u * 128 + ?x < (u + 1) * 128" by simp
      also have "\<dots> \<le> 128 ^ (4 - (i + 1)) * 128" using u(2) by (intro mult_le_mono1) simp
      also have "\<dots> = 128 ^ (4 - i)" using pow_128 [OF i(1)] by simp
      finally show ?thesis .
    qed
    have "write_var_loop i (u * 128 + ?x) = (of_nat ?x OR 128) # write_var_loop (i + 1) u"
      using u(6) i(1) by (subst write_var_more) simp_all
    then have "bslice i (n - i) p = write_var_loop i (u * 128 + ?x)"
      using u(3,7) d [of "n - (i + 1)"] False by (simp add: or_128_mod Suc_diff_Suc)
    moreover have "v = w + (u * 128 + ?x) * m"
      unfolding u(1) by (simp only: distrib_left distrib_right ac_simps)
    ultimately show ?thesis
      using u(3-6) lt by (intro exI [of _ "u * 128 + ?x"]) simp
  qed
qed

lemma length_write_var: "v < 2 ^ 35 \<Longrightarrow> length (write_var_loop 0 v) = byte_number_for_variable_length v"
  by (auto simp: byte_number_for_variable_length_def write_var_last write_var_more
      write_var_loop.simps [of 4] not_less)

lemma write_var_ne [simp]: "write_var_loop c v \<noteq> []"
  by (subst write_var_loop.simps) (simp add: Let_def)

lemma read_var_loop_iff:
  assumes "len \<le> length p"
  shows "read_var_loop p len 0 1 0 = Inr (v, n) \<longleftrightarrow>
    v \<le> MQTT_MAX_MSG_LEN \<and> n \<le> len \<and> take n p = write_var_loop 0 v"
proof
  assume "read_var_loop p len 0 1 0 = Inr (v, n)"
  from read_var_canonical [OF this assms]
  show "v \<le> MQTT_MAX_MSG_LEN \<and> n \<le> len \<and> take n p = write_var_loop 0 v"
    by (auto simp: bslice_def)
next
  assume *: "v \<le> MQTT_MAX_MSG_LEN \<and> n \<le> len \<and> take n p = write_var_loop 0 v"
  then have p: "p = [] @ write_var_loop 0 v @ drop n p"
    using append_take_drop_id [of n p] by simp
  have "n \<le> length p" using * assms by simp
  then have "length (take n p) = n" by simp
  then have "length (write_var_loop 0 v) = n"
    using * by simp
  then show "read_var_loop p len 0 1 0 = Inr (v, n)"
    using read_write_var [of 0 v "[]" len "drop n p" 1 0] * p by simp
qed

lemma fast_read_of_read_var:
  "read_var_loop p len i m w = Inr r \<Longrightarrow> fast_read_loop p len i m w = Some r"
proof (induction p len i m w rule: read_var_loop.induct)
  case (1 p len i m w)
  then have i: "i < 4" "i < len"
    by (auto simp: read_var_loop.simps [of p len i] split: if_splits)
  have g: "fast_read_loop p len i m w =
    (let w' = w + unat (p ! i) mod 128 * m in
     if unat (p ! i) < 128 then Some (w', i + 1) else fast_read_loop p len (i + 1) (m * 128) w')"
    using i by (subst fast_read_loop.simps) (simp add: varbyte Let_def)
  show ?case
    using 1 i by (cases "unat (p ! i) < 128")
      (auto simp: g Let_def read_var_last read_var_more varbyte split: if_splits)
qed

lemma power_loop_numeral: "power_loop x (numeral k) val = power_loop x (pred_numeral k) (wrap64 (x * val))"
  by (simp add: numeral_eq_Suc)

lemma power_u64_128: "i < 5 \<Longrightarrow> power_u64 128 i = 128 ^ i"
proof -
  assume "i < 5"
  then consider "i = 0" | "i = 1" | "i = 2" | "i = 3" | "i = 4" by linarith
  then show ?thesis by cases (simp_all add: power_u64_def wrap64_def power_loop_numeral)
qed

lemma round_fits:
  assumes "i < 4" "w < 128 ^ i"
  shows "w + unat (b :: u8) mod 128 * 128 ^ i < 128 ^ Suc i" "w + unat b mod 128 * 128 ^ i < 2 ^ 32"
proof -
  have "w + unat b mod 128 * 128 ^ i < 128 ^ i + unat b mod 128 * 128 ^ i" using assms by simp
  also have "\<dots> = Suc (unat b mod 128) * 128 ^ i" by simp
  also have "\<dots> \<le> 128 * 128 ^ i" by (intro mult_le_mono1) (simp add: Suc_le_eq)
  finally show lt: "w + unat b mod 128 * 128 ^ i < 128 ^ Suc i" by simp
  have "(128 :: nat) ^ Suc i \<le> 128 ^ 4" using assms(1) by (intro power_increasing) auto
  with lt show "w + unat b mod 128 * 128 ^ i < 2 ^ 32" by simp
qed

lemma get_var_of_read_var:
  assumes "read_var_loop p len i m w = Inr (v, n)" "len \<le> length p" "m = 128 ^ i" "w < 128 ^ i"
  shows "get_var_loop (pre @ p) (length pre + i) i w = Some (v, length pre + n)"
  using assms
proof (induction p len i m w rule: read_var_loop.induct)
  case (1 p len i m w)
  then have i: "i < 4" "i < len"
    by (auto simp: read_var_loop.simps [of p len i] split: if_splits)
  have g: "get_var_loop (pre @ p) (length pre + i) i w =
    (let w' = w + unat (p ! i) mod 128 * 128 ^ i in
     if unat (p ! i) < 128 then Some (w', length pre + i + 1)
     else get_var_loop (pre @ p) (length pre + (i + 1)) (i + 1) w')"
    using i 1(3,5) round_fits(2) [OF i(1) 1(5)]
    by (subst get_var_loop.simps) (auto simp: nth_append power_u64_128 varbyte word_gt_0 Let_def)
  show ?case
  proof (cases "unat (p ! i) < 128")
    case True
    then show ?thesis
      using 1(2,4) i by (auto simp: g read_var_last split: if_splits)
  next
    case False
    then show ?thesis
      using 1 i round_fits(1) [OF i(1) 1(5)] by (simp add: g Let_def read_var_more varbyte)
  qed
qed

lemma read_packet_of_read_var:
  assumes "read_var_loop p len i m w = Inr (v, n)" "len \<le> length p" "m = 128 ^ i" "w < 128 ^ i"
  shows "read_packet_loop (drop i p) (7 * i) i w = Some (0, v, drop n p)"
  using assms
proof (induction p len i m w rule: read_var_loop.induct)
  case (1 p len i m w)
  then have i: "i < 4" "i < len"
    by (auto simp: read_var_loop.simps [of p len i] split: if_splits)
  have d: "drop i p = p ! i # drop (i + 1) p"
    using i 1(3) by (simp add: Cons_nth_drop_Suc)
  have s: "2 ^ (7 * i) = (128 :: nat) ^ i"
    by (simp add: power_mult)
  have g: "read_packet_loop (drop i p) (7 * i) i w =
    (let w' = w + unat (p ! i) mod 128 * 128 ^ i in
     if unat (p ! i) < 128 then Some (if w' > MQTT_MAX_MSG_LEN then MQTT_ERR_INVAL else 0, w', drop (i + 1) p)
     else read_packet_loop (drop (i + 1) p) (7 * (i + 1)) (i + 1) w')"
    using i round_fits(2) [OF i(1) 1(5), of "p ! i"]
    by (simp add: d s varbyte Let_def add.commute)
  show ?case
  proof (cases "unat (p ! i) < 128")
    case True
    then show ?thesis
      using 1(2,4) i round_fits(1) [OF i(1) 1(5), of "p ! i"] power_increasing [of "Suc i" 4 "128 :: nat"]
      by (auto simp: g read_var_last split: if_splits)
  next
    case False
    then show ?thesis
      using 1 i round_fits(1) [OF i(1) 1(5)] by (simp add: g Let_def read_var_more varbyte)
  qed
qed

lemma or_128_low: "(of_nat x OR 128 :: u8) = of_nat (x mod 128) OR 128"
proof (rule bit_word_eqI)
  fix n assume n: "n < LENGTH(8)"
  have "bit (128 :: u8) n \<longleftrightarrow> n = 7"
    using bit_exp_iff [of 7 n, where ?'a = u8] n by auto
  then show "bit (of_nat x OR 128 :: u8) n = bit (of_nat (x mod 128) OR 128 :: u8) n"
    using n bit_take_bit_iff [of 7 x n] by (auto simp: bit_or_iff bit_of_nat_iff take_bit_eq_mod)
qed

lemma put_var_numeral:
  "put_var_loop (numeral k) i init_val val =
     (let init_val' = (if i > 0 then wrap32 ((init_val * 0x80) OR 0xFF) else init_val);
          d = of_nat (val div wrap32 (power_u64 0x80 i)) :: u8;
          d' = (if val > init_val' then d OR 0x80 else d) in
      d' # put_var_loop (pred_numeral k) (i + 1) init_val' val)"
  by (simp only: numeral_eq_Suc [of k] put_var_loop.simps)

lemma put_var_integer_eq:
  assumes "v \<le> MQTT_MAX_MSG_LEN"
  shows "put_var_integer v = write_var_loop 0 v"
proof -
  have d: "v div 128 div 128 = v div 16384" "v div 16384 div 128 = v div 2097152"
    by (simp_all add: div_mult2_eq [symmetric])
  have o: "of_nat v OR 128 = (of_nat (v mod 128) OR 128 :: u8)"
    "of_nat (v div 128) OR 128 = (of_nat (v div 128 mod 128) OR 128 :: u8)"
    "of_nat (v div 16384) OR 128 = (of_nat (v div 16384 mod 128) OR 128 :: u8)"
    by (rule or_128_low)+
  consider "v < 128" | "128 \<le> v" "v < 16384" | "16384 \<le> v" "v < 2097152" | "2097152 \<le> v"
    by linarith
  then show ?thesis
  proof cases
    case 1
    then show ?thesis
      by (simp add: put_var_integer_def get_value_size_def power_u64_128 put_var_numeral write_var_last)
  next
    case 2
    then show ?thesis
      by (simp add: put_var_integer_def get_value_size_def power_u64_128 put_var_numeral write_var_last
          write_var_more Let_def wrap32_def o)
  next
    case 3
    then show ?thesis
      by (simp add: put_var_integer_def get_value_size_def power_u64_128 put_var_numeral write_var_last
          write_var_more Let_def wrap32_def o d)
  next
    case 4
    then show ?thesis using assms
      by (simp add: put_var_integer_def get_value_size_def power_u64_128 put_var_numeral write_var_last
          write_var_more Let_def wrap32_def o d)
  qed
qed

lemma read_var_errors:
  "read_var_loop p len i m w = Inl e \<Longrightarrow> e = MQTT_ERR_INVAL \<or> e = MQTT_ERR_PAYLOAD_SIZE"
proof (induction p len i m w rule: read_var_loop.induct)
  case (1 p len i m w)
  show ?case
  proof (cases "i < 4 \<and> i < len")
    case True
    then show ?thesis
      using 1 by (cases "unat (p ! i) < 128")
        (auto simp: read_var_last read_var_more varbyte split: if_splits)
  next
    case False
    then show ?thesis
      using 1(2) by (auto simp: read_var_loop.simps [of p len i] split: if_splits)
  qed
qed

lemma take_eq_length: "take n p = xs \<Longrightarrow> n \<le> k \<Longrightarrow> k \<le> length p \<Longrightarrow> length xs = n"
  by auto

lemma length_write_var_le: "v \<le> MQTT_MAX_MSG_LEN \<Longrightarrow> length (write_var_loop 0 v) \<le> 4"
  by (simp add: length_write_var byte_number_for_variable_length_def)

lemma write_variable_length_value_small:
  "v \<le> MQTT_MAX_MSG_LEN \<Longrightarrow>
   write_variable_length_value v = (int (length (write_var_loop 0 v)), write_var_loop 0 v)"
  using length_write_var_le [of v] by (simp add: write_variable_length_value_def Let_def)

text \<open>C16: \<^verbatim>\<open>read_variable_int\<close> succeeds with a value and a byte count exactly when the value is at most
  268435455, the count fits the given length, and the first bytes at the pointer are the ones that
  \<^verbatim>\<open>write_variable_length_value\<close> stores for the value. Overlong and unfinished encodings are refused.\<close>

theorem read_variable_int_exact:
  assumes "len \<le> length p"
  shows "read_variable_int (Some p) len v0 n0 = (MQTT_SUCCESS, v, n) \<longleftrightarrow>
    v \<le> MQTT_MAX_MSG_LEN \<and> n \<le> len \<and> write_variable_length_value v = (int n, take n p)"
proof -
  have "read_variable_int (Some p) len v0 n0 = (MQTT_SUCCESS, v, n) \<longleftrightarrow>
    read_var_loop p len 0 1 0 = Inr (v, n)"
    using read_var_errors [of p len 0 1 0] by (auto simp: read_variable_int_def split: sum.splits)
  also have "\<dots> \<longleftrightarrow> v \<le> MQTT_MAX_MSG_LEN \<and> n \<le> len \<and> take n p = write_var_loop 0 v"
    by (rule read_var_loop_iff [OF assms])
  also have "\<dots> \<longleftrightarrow> v \<le> MQTT_MAX_MSG_LEN \<and> n \<le> len \<and> write_variable_length_value v = (int n, take n p)"
    using assms by (auto simp: write_variable_length_value_small intro: take_eq_length)
  finally show ?thesis .
qed

theorem read_variable_int_exact_witness:
  "3 \<le> length [0xC1, 0x02, 7 :: u8] \<and>
   (read_variable_int (Some [0xC1, 0x02, 7]) 3 0 0 = (MQTT_SUCCESS, 321, 2) \<longleftrightarrow>
    321 \<le> MQTT_MAX_MSG_LEN \<and> 2 \<le> (3 :: nat) \<and> write_variable_length_value 321 = (int 2, take 2 [0xC1, 0x02, 7]))"
  using read_variable_int_exact [of 3 "[0xC1, 0x02, 7]" 0 0 321 2] by simp

text \<open>For every 32-bit value \<^verbatim>\<open>write_variable_length_value\<close> stores as many bytes as
  \<^verbatim>\<open>byte_number_for_variable_length\<close> announces, at most five, and it returns that number exactly for the
  values that MQTT can encode and -1 for the others.\<close>

theorem write_variable_length_value_bounds:
  assumes "v < 2 ^ 32"
  shows "length (snd (write_variable_length_value v)) = byte_number_for_variable_length v \<and>
    byte_number_for_variable_length v \<le> 5 \<and>
    fst (write_variable_length_value v) =
      (if v \<le> MQTT_MAX_MSG_LEN then int (byte_number_for_variable_length v) else -1)"
proof -
  have "length (write_var_loop 0 v) = byte_number_for_variable_length v"
    using assms by (intro length_write_var) simp
  then show ?thesis
    by (auto simp: write_variable_length_value_def Let_def byte_number_for_variable_length_def)
qed

theorem write_variable_length_value_bounds_witness:
  "(300 :: nat) < 2 ^ 32 \<and>
   length (snd (write_variable_length_value 300)) = byte_number_for_variable_length 300 \<and>
    byte_number_for_variable_length 300 \<le> 5 \<and>
    fst (write_variable_length_value 300) =
      (if 300 \<le> MQTT_MAX_MSG_LEN then int (byte_number_for_variable_length 300) else -1)"
  using write_variable_length_value_bounds [of 300] by simp

text \<open>C18: The two writers and the five readers of variable-length integers in the code base agree. For
  every value up to 268435455, \<^verbatim>\<open>put_var_integer\<close> of the broker and \<^verbatim>\<open>write_variable_length_value\<close> of the
  codec store the same bytes, and each reader finds the value and the byte count, whatever follows.\<close>

theorem varint_functions_agree:
  assumes "v \<le> MQTT_MAX_MSG_LEN" and "e = put_var_integer v" and "n = length e"
  shows "write_variable_length_value v = (int n, e) \<and>
    read_variable_int (Some (e @ r)) (n + length r) v0 n0 = (MQTT_SUCCESS, v, n) \<and>
    fast_read_varint (e @ r) (n + length r) = Some (v, n) \<and>
    get_var_integer (pre @ e @ r) (length pre) = Some (v, (length pre + n) mod 256) \<and>
    read_packet_length (e @ r) = Some (0, v, r) \<and>
    mqtt_get_remaining_length (h # e @ r) (n + length r) = Inr (v, n)"
proof -
  have e: "e = write_var_loop 0 v" using assms put_var_integer_eq by simp
  have l: "read_var_loop (e @ r) (n + length r) 0 1 0 = Inr (v, n)"
    using assms e by (subst read_var_loop_iff) simp_all
  have le: "n + length r \<le> length (e @ r)" by (simp add: assms)
  show ?thesis
    using e l assms(1,3) fast_read_of_read_var [OF l] get_var_of_read_var [OF l le]
      read_packet_of_read_var [OF l le]
    by (simp add: write_variable_length_value_small read_variable_int_def fast_read_varint_def
        get_var_integer_def read_packet_length_def mqtt_get_remaining_length_def)
qed

theorem varint_functions_agree_witness:
  "300 \<le> MQTT_MAX_MSG_LEN \<and> [0xAC, 0x02] = put_var_integer 300 \<and> 2 = length [0xAC, 0x02 :: u8] \<and>
   write_variable_length_value 300 = (int 2, [0xAC, 0x02]) \<and>
    read_variable_int (Some ([0xAC, 0x02] @ [9])) (2 + length [9 :: u8]) 0 0 = (MQTT_SUCCESS, 300, 2) \<and>
    fast_read_varint ([0xAC, 0x02] @ [9]) (2 + length [9 :: u8]) = Some (300, 2) \<and>
    get_var_integer ([7] @ [0xAC, 0x02] @ [9]) (length [7 :: u8]) = Some (300, (length [7 :: u8] + 2) mod 256) \<and>
    read_packet_length ([0xAC, 0x02] @ [9]) = Some (0, 300, [9]) \<and>
    mqtt_get_remaining_length (0x30 # [0xAC, 0x02] @ [9]) (2 + length [9 :: u8]) = Inr (300, 2)"
proof -
  have "put_var_integer 300 = [0xAC, 0x02]"
    by (simp add: put_var_integer_eq write_var_more write_var_last)
  with varint_functions_agree [of 300 "[0xAC, 0x02]" 2 "[9]" 0 0 "[7]" "0x30"] show ?thesis
    by simp
qed

section \<open>Items on the wire\<close>

text \<open>
  The contract between a writer and a reader of one kind of item: the reader accepts exactly the
  bytes that the writer produces for a proper item, and leaves what follows.
\<close>

locale wire_codec =
  fixes ok :: "'a \<Rightarrow> bool" and enc :: "'a \<Rightarrow> bytes" and dec :: "bytes \<Rightarrow> int + 'a \<times> bytes"
  assumes dec_enc: "ok x \<Longrightarrow> dec (enc x @ r) = Inr (x, r)"
    and enc_dec: "dec b = Inr (x, r) \<Longrightarrow> ok x \<and> b = enc x @ r"
begin

lemma dec_iff: "dec b = Inr (x, r) \<longleftrightarrow> ok x \<and> b = enc x @ r"
  by (auto dest: enc_dec simp: dec_enc)

lemma prefix_free:
  assumes "ok x" "ok y" "enc x @ r = enc y @ s"
  shows "x = y \<and> r = s"
proof -
  have "dec (enc x @ r) = Inr (y, s)"
    unfolding assms(3) by (rule dec_enc [OF assms(2)])
  then show ?thesis using dec_enc [OF assms(1), of r] by simp
qed

lemma dec_consumes: "dec b = Inr (x, r) \<Longrightarrow> length r \<le> length b"
  using enc_dec [of b x r] by simp

lemma enc_list_inj:
  assumes "\<forall>x \<in> set xs. ok x \<and> enc x \<noteq> []" "\<forall>y \<in> set ys. ok y \<and> enc y \<noteq> []"
    "concat (map enc xs) = concat (map enc ys)"
  shows "xs = ys"
  using assms
proof (induction xs arbitrary: ys)
  case Nil
  then show ?case by (cases ys) auto
next
  case (Cons x xs)
  have "ys \<noteq> []" using Cons.prems(1,3) by auto
  then obtain y zs where ys: "ys = y # zs" by (cases ys) simp_all
  have eq: "enc x @ concat (map enc xs) = enc y @ concat (map enc zs)"
    using Cons.prems(3) unfolding ys by (simp only: list.map concat.simps)
  have ok: "ok x" "ok y" "\<forall>x \<in> set xs. ok x \<and> enc x \<noteq> []" "\<forall>y \<in> set zs. ok y \<and> enc y \<noteq> []"
    using Cons.prems(1,2) unfolding ys by simp_all
  then show ?case
    using prefix_free [OF ok(1,2) eq] Cons.IH [OF ok(3,4)] ys by simp
qed

end

text \<open>Two items one after the other.\<close>

definition dec_pair ::
    "(bytes \<Rightarrow> int + 'a \<times> bytes) \<Rightarrow> (bytes \<Rightarrow> int + 'b \<times> bytes) \<Rightarrow> bytes \<Rightarrow> int + ('a \<times> 'b) \<times> bytes" where
  "dec_pair d1 d2 b =
     (case d1 b of
        Inl e \<Rightarrow> Inl e
      | Inr (x, r) \<Rightarrow> (case d2 r of Inl e \<Rightarrow> Inl e | Inr (y, s) \<Rightarrow> Inr ((x, y), s)))"

locale wire_pair = one: wire_codec ok1 enc1 dec1 + two: wire_codec ok2 enc2 dec2
  for ok1 enc1 dec1 ok2 enc2 dec2
begin

lemma pair_codec:
  "wire_codec (\<lambda>(x, y). ok1 x \<and> ok2 y) (\<lambda>(x, y). enc1 x @ enc2 y) (dec_pair dec1 dec2)"
proof (standard, goal_cases)
  case (1 x r)
  then show ?case by (auto simp: dec_pair_def one.dec_enc two.dec_enc)
next
  case (2 b x r)
  then show ?case by (auto simp: dec_pair_def one.dec_iff two.dec_iff split: sum.splits)
qed

end

sublocale wire_pair \<subseteq> pair: wire_codec "\<lambda>(x, y). ok1 x \<and> ok2 y" "\<lambda>(x, y). enc1 x @ enc2 y" "dec_pair dec1 dec2"
  by (rule pair_codec)

definition str_ok :: "mqtt_buf \<Rightarrow> bool" where
  "str_ok b \<longleftrightarrow>
     blen b < 65536 \<and> (case bbuf b of None \<Rightarrow> blen b = 0 | Some d \<Rightarrow> d \<noteq> [] \<and> length d = blen b)"

definition str_bytes :: "mqtt_buf \<Rightarrow> bytes" where
  "str_bytes b = (case bbuf b of None \<Rightarrow> [] | Some d \<Rightarrow> d)"

definition str_enc :: "mqtt_buf \<Rightarrow> bytes" where
  "str_enc b = NNI_PUT16 (of_nat (blen b)) @ str_bytes b"

lemma length_str_bytes [simp]: "str_ok b \<Longrightarrow> length (str_bytes b) = blen b"
  by (auto simp: str_ok_def str_bytes_def split: option.splits)

lemma length_str_enc [simp]: "str_ok b \<Longrightarrow> length (str_enc b) = blen b + 2"
  by (simp add: str_enc_def)

lemma GET16_front: "NNI_GET16 (NNI_PUT16 u @ r) 0 = u"
  using NNI_GET16_PUT16 [of "[]"] by simp

lemma GET32_front: "NNI_GET32 (NNI_PUT32 u @ r) 0 = u"
  using NNI_GET32_PUT32 [of "[]"] by simp

lemma read_str_data_eq: "read_str_data = read_utf8_str"
  by (rule ext) (simp add: read_str_data_def read_utf8_str_def)

lemma PUT16_front:
  assumes "2 \<le> length b" shows "NNI_PUT16 (NNI_GET16 b 0) @ drop 2 b = b"
  using assms by (cases b; cases "tl b") (auto simp: NNI_PUT16_GET16)

interpretation byte_codec: wire_codec "\<lambda>_. True" "\<lambda>x. [x]" read_byte
  by unfold_locales (auto elim: read_byte.elims)

interpretation u16_codec: wire_codec "\<lambda>_. True" NNI_PUT16 read_uint16
proof (standard, goal_cases)
  case (1 x r)
  then show ?case by (simp add: read_uint16_def GET16_front)
next
  case (2 b x r)
  then have "2 \<le> length b" "x = NNI_GET16 b 0" "r = drop 2 b"
    by (auto simp: read_uint16_def split: if_splits)
  then show ?case using PUT16_front [of b] by simp
qed

lemma unat_u16: "unat (a :: u16) < 65536" "0 < a \<longleftrightarrow> 0 < unat a"
  using unsigned_less [where ?'a = nat, of a] by (simp_all add: word_less_nat_alt)

interpretation str_codec: wire_codec str_ok str_enc read_utf8_str
proof
  fix x :: mqtt_buf and r :: bytes
  assume x: "str_ok x"
  then have "unat (of_nat (blen x) :: u16) = blen x"
    by (simp add: str_ok_def unat_of_nat)
  moreover from this have "0 < (of_nat (blen x) :: u16) \<longleftrightarrow> 0 < blen x"
    by (simp add: word_less_nat_alt)
  ultimately show "read_utf8_str (str_enc x @ r) = Inr (x, r)"
    using x by (cases x) (auto simp: read_utf8_str_def u16_codec.dec_enc str_enc_def str_bytes_def
        str_ok_def split: option.splits)
next
  fix b x r assume "read_utf8_str b = Inr (x, r)"
  then show "str_ok x \<and> b = str_enc x @ r"
    by (auto simp: read_utf8_str_def u16_codec.dec_iff str_enc_def str_bytes_def str_ok_def unat_u16
      unat_eq_0 split: sum.splits if_splits)
qed

interpretation kv_codec: wire_pair str_ok str_enc read_utf8_str str_ok str_enc read_utf8_str ..

interpretation topic_codec: wire_pair str_ok str_enc read_utf8_str "\<lambda>_. True" "\<lambda>x. [x]" read_byte ..

lemma PUT32_surj:
  "NNI_PUT32 (push_bit 24 (ucast w) OR push_bit 16 (ucast x) OR push_bit 8 (ucast y) OR ucast z) = [w, x, y, z]"
proof -
  have b: "\<not> bit (c :: u8) (k + n)" if "8 \<le> k" for c n k
    using that by (auto dest: bit_imp_le_length)
  show ?thesis
    by (auto simp: NNI_PUT32_def bit_simps b intro!: bit_word_eqI)
qed

lemma PUT32_front:
  assumes "4 \<le> length b" shows "NNI_PUT32 (NNI_GET32 b 0) @ drop 4 b = b"
proof -
  obtain w x y z r where b: "b = [w, x, y, z] @ r"
    using assms by (auto simp: numeral_eq_Suc Suc_le_length_iff)
  have "b = NNI_PUT32 (push_bit 24 (ucast w) OR push_bit 16 (ucast x) OR push_bit 8 (ucast y) OR ucast z) @ r"
    unfolding PUT32_surj by (rule b)
  then obtain u where u: "b = NNI_PUT32 u @ r" ..
  show ?thesis
    unfolding u by (simp add: GET32_front)
qed

interpretation u32_codec: wire_codec "\<lambda>_. True" NNI_PUT32 read_uint32
proof (standard, goal_cases)
  case (1 x r)
  then show ?case by (simp add: read_uint32_def GET32_front)
next
  case (2 b x r)
  then have "4 \<le> length b" "x = NNI_GET32 b 0" "r = drop 4 b"
    by (auto simp: read_uint32_def split: if_splits)
  then show ?case using PUT32_front [of b] by simp
qed

lemma read_variable_integer_iff:
  "read_variable_integer b v0 = Inr (v, r) \<longleftrightarrow> v \<le> MQTT_MAX_MSG_LEN \<and> b = write_var_loop 0 v @ r"
proof -
  have "read_variable_integer b v0 = Inr (v, r) \<longleftrightarrow>
    (\<exists>n. read_var_loop b (length b) 0 1 0 = Inr (v, n) \<and> r = drop n b)"
    using read_var_errors [of b "length b" 0 1 0]
    by (auto simp: read_variable_integer_def read_variable_int_def split: sum.splits)
  also have "\<dots> \<longleftrightarrow> v \<le> MQTT_MAX_MSG_LEN \<and> (\<exists>n \<le> length b. take n b = write_var_loop 0 v \<and> r = drop n b)"
    using read_var_loop_iff [of "length b" b] by auto
  also have "(\<exists>n \<le> length b. take n b = write_var_loop 0 v \<and> r = drop n b) \<longleftrightarrow> b = write_var_loop 0 v @ r"
  proof
    assume "b = write_var_loop 0 v @ r"
    then show "\<exists>n \<le> length b. take n b = write_var_loop 0 v \<and> r = drop n b"
      by (intro exI [of _ "length (write_var_loop 0 v)"]) simp
  next
    assume "\<exists>n \<le> length b. take n b = write_var_loop 0 v \<and> r = drop n b"
    then show "b = write_var_loop 0 v @ r" by (metis append_take_drop_id)
  qed
  finally show ?thesis .
qed

interpretation varint_codec:
  wire_codec "\<lambda>v. v \<le> MQTT_MAX_MSG_LEN" "write_var_loop 0" "\<lambda>b. read_variable_integer b v0" for v0
  by unfold_locales (simp_all add: read_variable_integer_iff)

section \<open>Appending to a message that can grow\<close>

definition mem_ok :: "allocator \<Rightarrow> bool" where
  "mem_ok al \<longleftrightarrow> (\<forall>n. al n)"

definition msg_put :: "allocator \<Rightarrow> 'p nng_msg \<Rightarrow> bytes \<Rightarrow> 'p nng_msg" where
  "msg_put al m d = snd (nni_msg_append al m (Some d) (length d))"

named_theorems codec \<open>what appending does to a message\<close>

lemma nni_msg_append_mem:
  "mem_ok al \<Longrightarrow> fst (nni_msg_append al m d len) = 0"
  by (auto simp: nni_msg_append_def nni_chunk_append_def nni_chunk_grow_def mem_ok_def Let_def
      split: prod.splits if_splits option.splits)

lemma msg_put_fields [simp]:
  "nni_msg_header (msg_put al m d) = nni_msg_header m"
  "m_header_len (msg_put al m d) = m_header_len m" "m_header_buf (msg_put al m d) = m_header_buf m"
  "m_proto_data (msg_put al m d) = m_proto_data m" "m_proto_ops (msg_put al m d) = m_proto_ops m"
  "cparam (msg_put al m d) = cparam m"
  by (simp_all add: msg_put_def nni_msg_append_def nni_msg_header_def split: prod.splits)

lemma msg_put_ok [simp]:
  assumes "mem_ok al" "msg_wf m"
  shows "msg_wf (msg_put al m d)" "nni_msg_body (msg_put al m d) = nni_msg_body m @ d"
    "nni_msg_len (msg_put al m d) = nni_msg_len m + length d"
proof -
  have a: "nni_msg_append al m (Some d) (length d) = (0, msg_put al m d)"
    using nni_msg_append_mem [OF assms(1), of m "Some d" "length d"]
    by (simp add: msg_put_def prod_eq_iff)
  show *: "msg_wf (msg_put al m d)" "nni_msg_body (msg_put al m d) = nni_msg_body m @ d"
    using nni_msg_append_ok(1,2) [OF assms(2) a] by simp_all
  show "nni_msg_len (msg_put al m d) = nni_msg_len m + length d"
    using length_nni_msg_body [OF *(1)] length_nni_msg_body [OF assms(2)] *(2)
    by (simp del: length_nni_msg_body)
qed

lemma append_u8_put [codec]: "nni_mqtt_msg_append_u8 al m v = msg_put al m [v]"
  and append_u16_put [codec]: "nni_mqtt_msg_append_u16 al m w = msg_put al m (NNI_PUT16 w)"
  and append_u32_put [codec]: "nni_mqtt_msg_append_u32 al m x = msg_put al m (NNI_PUT32 x)"
  by (simp_all add: nni_mqtt_msg_append_u8_def nni_mqtt_msg_append_u16_def nni_mqtt_msg_append_u32_def
      msg_put_def)

lemma append_varint_put [codec]:
  "v \<le> MQTT_MAX_MSG_LEN \<Longrightarrow>
   nni_mqtt_msg_append_varint al m v = (0, msg_put al m (write_var_loop 0 v))"
  by (simp add: nni_mqtt_msg_append_varint_def write_variable_length_value_small msg_put_def)

lemma append_byte_str_put [codec]:
  assumes "str_ok b"
  shows "nni_mqtt_msg_append_byte_str al m b = msg_put al (msg_put al m (NNI_PUT16 (of_nat (blen b)))) (str_bytes b)"
  using assms
  by (cases "bbuf b")
    (auto simp: nni_mqtt_msg_append_byte_str_def append_u16_put msg_put_def str_ok_def str_bytes_def Let_def
      nni_msg_append_def nni_chunk_append_def)

text \<open>\<open>grown m m' d\<close>: \<open>m'\<close> is \<open>m\<close> with the bytes \<open>d\<close> behind its body, and nothing else has changed.\<close>

definition grown :: "'p nng_msg \<Rightarrow> 'p nng_msg \<Rightarrow> bytes \<Rightarrow> bool" where
  "grown m m' d \<longleftrightarrow>
     msg_wf m' \<and> nni_msg_body m' = nni_msg_body m @ d \<and> m' = m\<lparr>m_body := m_body m'\<rparr>"

lemma grown_put: "mem_ok al \<Longrightarrow> msg_wf m \<Longrightarrow> grown m (msg_put al m d) d"
  by (simp add: grown_def) (simp add: msg_put_def nni_msg_append_def split: prod.splits)

lemma grown_refl: "msg_wf m \<Longrightarrow> grown m m []"
  by (simp add: grown_def)

lemma grown_trans: "grown m m1 d \<Longrightarrow> grown m1 m2 e \<Longrightarrow> grown m m2 (d @ e)"
  unfolding grown_def
  by (metis (no_types, lifting) append_assoc nng_msg.surjective nng_msg.update_convs(3))

lemma grown_fields:
  assumes "grown m m' d"
  shows "nni_msg_header m' = nni_msg_header m" "m_header_buf m' = m_header_buf m"
    "m_header_len m' = m_header_len m" "m_proto_data m' = m_proto_data m" "cparam m' = cparam m"
    "msg_wf m'" "nni_msg_body m' = nni_msg_body m @ d"
proof -
  have m': "m' = m\<lparr>m_body := m_body m'\<rparr>" and "msg_wf m'" "nni_msg_body m' = nni_msg_body m @ d"
    using assms by (simp_all add: grown_def)
  then show "msg_wf m'" "nni_msg_body m' = nni_msg_body m @ d" by simp_all
  show "nni_msg_header m' = nni_msg_header m" "m_header_buf m' = m_header_buf m"
    "m_header_len m' = m_header_len m" "m_proto_data m' = m_proto_data m" "cparam m' = cparam m"
    by (subst m', simp add: nni_msg_header_def)+
qed

lemma grown_str:
  assumes "mem_ok al" "msg_wf m" "str_ok b"
  shows "grown m (nni_mqtt_msg_append_byte_str al m b) (str_enc b)"
  using assms unfolding append_byte_str_put [OF assms(3)] str_enc_def
  by (intro grown_trans [OF grown_put grown_put]) simp_all

end
