(* ===== verification/MqttProperty.thy ===== *)
theory MqttProperty
  imports MqttPrim "HOL-Library.Sublist"
begin

text \<open>
  The properties of MQTT 5 packets: the property functions of \<^verbatim>\<open>supplemental/mqtt/mqtt_codec.c\<close>.

  A property is a record; the tagged union \<^verbatim>\<open>data\<close> is a datatype whose constructor is the tag \<^verbatim>\<open>p_type\<close>,
  since the code stores both together. A property list pointer is \<open>None\<close> for a null pointer and
  otherwise the list of the nodes behind the dummy head. \<open>st\<close> says whether the allocation of a
  property struct succeeds. \<open>None\<close> as the whole result of a function stands for undefined behaviour: a
  null pointer is followed, a member of the union is read that was not stored, or a buffer is
  written behind its end.

  Contents: the functions; the bytes of a property, the round trip through encoder and decoder;
  what the checks accept; the fast path for the expiry interval.
\<close>

section \<open>Properties\<close>

text \<open>\<^verbatim>\<open>STR\<close> is a word of the string syntax and gets a suffix.\<close>

datatype property_type_enum = U8 | U16 | U32 | VARINT | BINARY | STR_T | STR_PAIR | UNKNOWN

datatype property_value =
    V_u8 u8
  | V_u16 u16
  | V_u32 u32
  | V_varint nat
  | V_binary mqtt_buf
  | V_str mqtt_buf
  | V_strpair mqtt_kv

record property =
  p_id :: u8
  p_is_copy :: bool
  p_value :: property_value

fun value_type :: "property_value \<Rightarrow> property_type_enum" where
  "value_type (V_u8 _) = U8"
| "value_type (V_u16 _) = U16"
| "value_type (V_u32 _) = U32"
| "value_type (V_varint _) = VARINT"
| "value_type (V_binary _) = BINARY"
| "value_type (V_str _) = STR_T"
| "value_type (V_strpair _) = STR_PAIR"

definition p_type :: "property \<Rightarrow> property_type_enum" where
  "p_type p = value_type (p_value p)"

abbreviation PAYLOAD_FORMAT_INDICATOR :: u8 where "PAYLOAD_FORMAT_INDICATOR \<equiv> 1"
abbreviation MESSAGE_EXPIRY_INTERVAL :: u8 where "MESSAGE_EXPIRY_INTERVAL \<equiv> 2"
abbreviation CONTENT_TYPE :: u8 where "CONTENT_TYPE \<equiv> 3"
abbreviation RESPONSE_TOPIC :: u8 where "RESPONSE_TOPIC \<equiv> 8"
abbreviation CORRELATION_DATA :: u8 where "CORRELATION_DATA \<equiv> 9"
abbreviation SUBSCRIPTION_IDENTIFIER :: u8 where "SUBSCRIPTION_IDENTIFIER \<equiv> 11"
abbreviation SESSION_EXPIRY_INTERVAL :: u8 where "SESSION_EXPIRY_INTERVAL \<equiv> 17"
abbreviation ASSIGNED_CLIENT_IDENTIFIER :: u8 where "ASSIGNED_CLIENT_IDENTIFIER \<equiv> 18"
abbreviation SERVER_KEEP_ALIVE :: u8 where "SERVER_KEEP_ALIVE \<equiv> 19"
abbreviation AUTHENTICATION_METHOD :: u8 where "AUTHENTICATION_METHOD \<equiv> 21"
abbreviation AUTHENTICATION_DATA :: u8 where "AUTHENTICATION_DATA \<equiv> 22"
abbreviation REQUEST_PROBLEM_INFORMATION :: u8 where "REQUEST_PROBLEM_INFORMATION \<equiv> 23"
abbreviation WILL_DELAY_INTERVAL :: u8 where "WILL_DELAY_INTERVAL \<equiv> 24"
abbreviation REQUEST_RESPONSE_INFORMATION :: u8 where "REQUEST_RESPONSE_INFORMATION \<equiv> 25"
abbreviation RESPONSE_INFORMATION :: u8 where "RESPONSE_INFORMATION \<equiv> 26"
abbreviation SERVER_REFERENCE :: u8 where "SERVER_REFERENCE \<equiv> 28"
abbreviation REASON_STRING :: u8 where "REASON_STRING \<equiv> 31"
abbreviation RECEIVE_MAXIMUM :: u8 where "RECEIVE_MAXIMUM \<equiv> 33"
abbreviation TOPIC_ALIAS_MAXIMUM :: u8 where "TOPIC_ALIAS_MAXIMUM \<equiv> 34"
abbreviation TOPIC_ALIAS :: u8 where "TOPIC_ALIAS \<equiv> 35"
abbreviation PUBLISH_MAXIMUM_QOS :: u8 where "PUBLISH_MAXIMUM_QOS \<equiv> 36"
abbreviation RETAIN_AVAILABLE :: u8 where "RETAIN_AVAILABLE \<equiv> 37"
abbreviation USER_PROPERTY :: u8 where "USER_PROPERTY \<equiv> 38"
abbreviation MAXIMUM_PACKET_SIZE :: u8 where "MAXIMUM_PACKET_SIZE \<equiv> 39"
abbreviation WILDCARD_SUBSCRIPTION_AVAILABLE :: u8 where "WILDCARD_SUBSCRIPTION_AVAILABLE \<equiv> 40"
abbreviation SUBSCRIPTION_IDENTIFIER_AVAILABLE :: u8 where "SUBSCRIPTION_IDENTIFIER_AVAILABLE \<equiv> 41"
abbreviation SHARED_SUBSCRIPTION_AVAILABLE :: u8 where "SHARED_SUBSCRIPTION_AVAILABLE \<equiv> 42"

abbreviation CMD_CONNECT :: u8 where "CMD_CONNECT \<equiv> 0x10"
abbreviation CMD_CONNACK :: u8 where "CMD_CONNACK \<equiv> 0x20"
abbreviation CMD_PUBLISH :: u8 where "CMD_PUBLISH \<equiv> 0x30"

text \<open>Reason codes of MQTT 5.\<close>

abbreviation NNG_MQTT_SUCCESS :: nat where "NNG_MQTT_SUCCESS \<equiv> 0"
abbreviation UNSPECIFIED_ERROR :: nat where "UNSPECIFIED_ERROR \<equiv> 128"
abbreviation MALFORMED_PACKET :: nat where "MALFORMED_PACKET \<equiv> 129"
abbreviation PROTOCOL_ERROR :: nat where "PROTOCOL_ERROR \<equiv> 130"
abbreviation SERVER_UNAVAILABLE :: nat where "SERVER_UNAVAILABLE \<equiv> 136"
abbreviation TOPIC_ALIAS_INVALID :: nat where "TOPIC_ALIAS_INVALID \<equiv> 148"

definition property_get_value_type :: "u8 \<Rightarrow> property_type_enum" where
  "property_get_value_type prop_id =
     (if prop_id \<in> {PAYLOAD_FORMAT_INDICATOR, REQUEST_PROBLEM_INFORMATION, REQUEST_RESPONSE_INFORMATION,
          PUBLISH_MAXIMUM_QOS, RETAIN_AVAILABLE, WILDCARD_SUBSCRIPTION_AVAILABLE,
          SUBSCRIPTION_IDENTIFIER_AVAILABLE, SHARED_SUBSCRIPTION_AVAILABLE} then U8
      else if prop_id \<in> {SERVER_KEEP_ALIVE, RECEIVE_MAXIMUM, TOPIC_ALIAS_MAXIMUM, TOPIC_ALIAS} then U16
      else if prop_id \<in> {MESSAGE_EXPIRY_INTERVAL, SESSION_EXPIRY_INTERVAL, WILL_DELAY_INTERVAL,
          MAXIMUM_PACKET_SIZE} then U32
      else if prop_id = SUBSCRIPTION_IDENTIFIER then VARINT
      else if prop_id \<in> {CONTENT_TYPE, RESPONSE_TOPIC, ASSIGNED_CLIENT_IDENTIFIER, AUTHENTICATION_METHOD,
          RESPONSE_INFORMATION, SERVER_REFERENCE, REASON_STRING} then STR_T
      else if prop_id \<in> {CORRELATION_DATA, AUTHENTICATION_DATA} then BINARY
      else if prop_id = USER_PROPERTY then STR_PAIR
      else UNKNOWN)"

subsection \<open>Building properties\<close>

definition property_set_value_u8 :: "bool \<Rightarrow> u8 \<Rightarrow> u8 \<Rightarrow> property option" where
  "property_set_value_u8 st prop_id val =
     (if \<not> st then None else Some \<lparr>p_id = prop_id, p_is_copy = False, p_value = V_u8 val\<rparr>)"

definition property_set_value_u16 :: "bool \<Rightarrow> u8 \<Rightarrow> u16 \<Rightarrow> property option" where
  "property_set_value_u16 st prop_id val =
     (if \<not> st then None else Some \<lparr>p_id = prop_id, p_is_copy = False, p_value = V_u16 val\<rparr>)"

definition property_set_value_u32 :: "bool \<Rightarrow> u8 \<Rightarrow> u32 \<Rightarrow> property option" where
  "property_set_value_u32 st prop_id val =
     (if \<not> st then None else Some \<lparr>p_id = prop_id, p_is_copy = False, p_value = V_u32 val\<rparr>)"

definition property_set_value_varint :: "bool \<Rightarrow> u8 \<Rightarrow> nat \<Rightarrow> property option" where
  "property_set_value_varint st prop_id val =
     (if \<not> st then None else Some \<lparr>p_id = prop_id, p_is_copy = False, p_value = V_varint val\<rparr>)"

definition property_set_value_binary ::
    "bool \<Rightarrow> allocator \<Rightarrow> u8 \<Rightarrow> bytes option \<Rightarrow> nat \<Rightarrow> bool \<Rightarrow> property option" where
  "property_set_value_binary st al prop_id val len copy_value =
     (if \<not> st then None
      else
        map_option (\<lambda>b. \<lparr>p_id = prop_id, p_is_copy = copy_value, p_value = V_binary b\<rparr>)
          (if copy_value \<and> len > 0 then map_option snd (mqtt_buf_create al buf0 val len)
           else Some \<lparr>blen = len, bbuf = val\<rparr>))"

definition property_set_value_str ::
    "bool \<Rightarrow> allocator \<Rightarrow> u8 \<Rightarrow> bytes option \<Rightarrow> nat \<Rightarrow> bool \<Rightarrow> property option" where
  "property_set_value_str st al prop_id val len copy_value =
     (if \<not> st then None
      else
        map_option (\<lambda>b. \<lparr>p_id = prop_id, p_is_copy = copy_value, p_value = V_str b\<rparr>)
          (if copy_value then map_option snd (mqtt_buf_create al buf0 val len)
           else Some \<lparr>blen = len, bbuf = val\<rparr>))"

definition property_set_value_strpair ::
    "bool \<Rightarrow> allocator \<Rightarrow> u8 \<Rightarrow> bytes option \<Rightarrow> nat \<Rightarrow> bytes option \<Rightarrow> nat \<Rightarrow> bool \<Rightarrow> property option" where
  "property_set_value_strpair st al prop_id key key_len val val_len copy_value =
     (if \<not> st then None
      else
        map_option (\<lambda>kv. \<lparr>p_id = prop_id, p_is_copy = copy_value, p_value = V_strpair kv\<rparr>)
          (if copy_value then
             map_option snd (mqtt_kv_create al \<lparr>kv_key = buf0, kv_value = buf0\<rparr> key key_len val val_len)
           else Some \<lparr>kv_key = \<lparr>blen = key_len, bbuf = key\<rparr>, kv_value = \<lparr>blen = val_len, bbuf = val\<rparr>\<rparr>))"

subsection \<open>Parsing one property\<close>

text \<open>
  \<open>property_parse\<close> is called with a null \<^verbatim>\<open>prop\<close>, so that it allocates the struct, zeroed. The inner
  \<open>None\<close> is the null pointer that it returns on malformed input. A copy for which there is no memory
  leaves an empty buffer, as the result of \<^verbatim>\<open>mqtt_buf_dup\<close> is dropped.
\<close>

definition copied_str :: "allocator \<Rightarrow> bool \<Rightarrow> mqtt_buf \<Rightarrow> mqtt_buf option" where
  "copied_str al copy_value s =
     (if copy_value then map_option snd (mqtt_buf_dup al buf0 s) else Some s)"

definition copied_kv :: "allocator \<Rightarrow> bool \<Rightarrow> mqtt_kv \<Rightarrow> mqtt_kv option" where
  "copied_kv al copy_value kv =
     (if copy_value then map_option snd (mqtt_kv_dup al \<lparr>kv_key = buf0, kv_value = buf0\<rparr> kv) else Some kv)"

definition property_parse ::
    "bool \<Rightarrow> allocator \<Rightarrow> bytes \<Rightarrow> u8 \<Rightarrow> property_type_enum \<Rightarrow> bool \<Rightarrow> (property \<times> bytes) option option" where
  "property_parse st al b prop_id type copy_value =
     (if \<not> st then None
      else
        (let prop = (\<lambda>v. \<lparr>p_id = prop_id, p_is_copy = copy_value, p_value = v\<rparr>) in
         case type of
           U8 \<Rightarrow> (case read_byte b of Inl _ \<Rightarrow> Some None | Inr (v, r) \<Rightarrow> Some (Some (prop (V_u8 v), r)))
         | U16 \<Rightarrow> (case read_uint16 b of Inl _ \<Rightarrow> Some None | Inr (v, r) \<Rightarrow> Some (Some (prop (V_u16 v), r)))
         | U32 \<Rightarrow> (case read_uint32 b of Inl _ \<Rightarrow> Some None | Inr (v, r) \<Rightarrow> Some (Some (prop (V_u32 v), r)))
         | VARINT \<Rightarrow>
             (case read_variable_integer b 0 of
                Inl _ \<Rightarrow> Some None
              | Inr (v, r) \<Rightarrow> Some (Some (prop (V_varint v), r)))
         | BINARY \<Rightarrow>
             (case read_utf8_str b of
                Inl _ \<Rightarrow> Some None
              | Inr (s, r) \<Rightarrow> map_option (\<lambda>s'. Some (prop (V_binary s'), r)) (copied_str al copy_value s))
         | STR_T \<Rightarrow>
             (case read_utf8_str b of
                Inl _ \<Rightarrow> Some None
              | Inr (s, r) \<Rightarrow> map_option (\<lambda>s'. Some (prop (V_str s'), r)) (copied_str al copy_value s))
         | STR_PAIR \<Rightarrow>
             (case read_utf8_str b of
                Inl _ \<Rightarrow> Some None
              | Inr (k, r) \<Rightarrow>
                  (case read_utf8_str r of
                     Inl _ \<Rightarrow> Some None
                   | Inr (v, r') \<Rightarrow>
                       map_option (\<lambda>kv. Some (prop (V_strpair kv), r'))
                         (copied_kv al copy_value \<lparr>kv_key = k, kv_value = v\<rparr>)))
         | UNKNOWN \<Rightarrow> Some None))"

subsection \<open>List operations\<close>

text \<open>Appending to a null list does nothing.\<close>

definition property_append :: "property list option \<Rightarrow> property \<Rightarrow> property list option" where
  "property_append prop_list last_p = map_option (\<lambda>ps. ps @ [last_p]) prop_list"

text \<open>
  The first node with the identifier is taken out and its buffers are freed without looking at
  \<^verbatim>\<open>is_copy\<close>; \<open>None\<close> is the release of a buffer that is part of a message body.
\<close>

fun value_nonempty :: "property_value \<Rightarrow> bool" where
  "value_nonempty (V_str b) = (blen b > 0)"
| "value_nonempty (V_binary b) = (blen b > 0)"
| "value_nonempty (V_strpair kv) = (blen (kv_key kv) > 0 \<or> blen (kv_value kv) > 0)"
| "value_nonempty _ = False"

fun remove_first :: "u8 \<Rightarrow> property list \<Rightarrow> property list option" where
  "remove_first prop_id [] = Some []"
| "remove_first prop_id (p # ps) =
     (if prop_id = p_id p then
        (if \<not> p_is_copy p \<and> value_nonempty (p_value p) then None else Some ps)
      else map_option ((#) p) (remove_first prop_id ps))"

definition property_remove :: "property list option \<Rightarrow> u8 \<Rightarrow> property list option option" where
  "property_remove prop_list prop_id =
     (case prop_list of None \<Rightarrow> Some None | Some ps \<Rightarrow> map_option Some (remove_first prop_id ps))"

definition property_get :: "property list option \<Rightarrow> u8 \<Rightarrow> property option" where
  "property_get prop prop_id =
     (case prop of None \<Rightarrow> None | Some ps \<Rightarrow> List.find (\<lambda>p. p_id p = prop_id) ps)"

definition property_get_value :: "property list option \<Rightarrow> u8 \<Rightarrow> property_value option" where
  "property_get_value prop prop_id =
     (case prop of
        None \<Rightarrow> None
      | Some ps \<Rightarrow> map_option p_value (List.find (\<lambda>p. p_id p = prop_id) ps))"

text \<open>
  \<open>dup_item\<close> is one round of the loop of \<^verbatim>\<open>property_dup\<close>: the type is the one of the identifier, and
  \<open>None\<close> is a read of another member of the union. A property of unknown type is left out.
\<close>

definition dup_item :: "bool \<Rightarrow> allocator \<Rightarrow> property \<Rightarrow> property option option" where
  "dup_item st al p =
     (case property_get_value_type (p_id p) of
        U8 \<Rightarrow> (case p_value p of V_u8 v \<Rightarrow> map_option Some (property_set_value_u8 st (p_id p) v) | _ \<Rightarrow> None)
      | U16 \<Rightarrow> (case p_value p of V_u16 v \<Rightarrow> map_option Some (property_set_value_u16 st (p_id p) v) | _ \<Rightarrow> None)
      | U32 \<Rightarrow> (case p_value p of V_u32 v \<Rightarrow> map_option Some (property_set_value_u32 st (p_id p) v) | _ \<Rightarrow> None)
      | VARINT \<Rightarrow>
          (case p_value p of V_varint v \<Rightarrow> map_option Some (property_set_value_varint st (p_id p) v) | _ \<Rightarrow> None)
      | BINARY \<Rightarrow>
          (case p_value p of
             V_binary b \<Rightarrow> map_option Some (property_set_value_binary st al (p_id p) (bbuf b) (blen b) True)
           | _ \<Rightarrow> None)
      | STR_T \<Rightarrow>
          (case p_value p of
             V_str b \<Rightarrow> map_option Some (property_set_value_str st al (p_id p) (bbuf b) (blen b) True)
           | _ \<Rightarrow> None)
      | STR_PAIR \<Rightarrow>
          (case p_value p of
             V_strpair kv \<Rightarrow>
               map_option Some
                 (property_set_value_strpair st al (p_id p) (bbuf (kv_key kv)) (blen (kv_key kv))
                    (bbuf (kv_value kv)) (blen (kv_value kv)) True)
           | _ \<Rightarrow> None)
      | UNKNOWN \<Rightarrow> Some None)"

fun dup_items :: "bool \<Rightarrow> allocator \<Rightarrow> property list \<Rightarrow> property list option" where
  "dup_items st al [] = Some []"
| "dup_items st al (p # ps) =
     (case dup_item st al p of
        None \<Rightarrow> None
      | Some item \<Rightarrow>
          map_option (\<lambda>qs. case item of None \<Rightarrow> qs | Some q \<Rightarrow> q # qs) (dup_items st al ps))"

text \<open>
  The destination pointer is passed as its old value. Without memory for the head the first item
  is stored through a null pointer.
\<close>

definition property_dup ::
    "bool \<Rightarrow> allocator \<Rightarrow> property list option \<Rightarrow> property list option \<Rightarrow> (int \<times> property list option) option" where
  "property_dup st al dup src =
     (case src of
        None \<Rightarrow> Some (-1, dup)
      | Some ps \<Rightarrow>
          if \<not> st then
            (if list_all (\<lambda>p. property_get_value_type (p_id p) = UNKNOWN) ps then Some (0, None) else None)
          else map_option (\<lambda>qs. (0, Some qs)) (dup_items st al ps))"

section \<open>Checks\<close>

text \<open>\<^verbatim>\<open>memchr\<close> on the bytes of a buffer.\<close>

definition buf_has :: "u8 \<Rightarrow> mqtt_buf \<Rightarrow> bool" where
  "buf_has c b = (case bbuf b of None \<Rightarrow> False | Some d \<Rightarrow> c \<in> set (take (blen b) d))"

definition has_wildcard :: "mqtt_buf \<Rightarrow> bool" where
  "has_wildcard b \<longleftrightarrow> buf_has 0x2B b \<or> buf_has 0x23 b"

text \<open>The two properties that may occur more than once.\<close>

definition repeatable :: "u8 \<Rightarrow> bool" where
  "repeatable prop_id \<longleftrightarrow> \<not> (prop_id \<noteq> USER_PROPERTY \<and> prop_id \<noteq> SUBSCRIPTION_IDENTIFIER)"

text \<open>
  The array \<^verbatim>\<open>seen_properties\<close> is the list of the identifiers for which it is true.
\<close>

datatype verdict = Keep | Drop | Refuse

definition sanitize_verdict :: "property \<Rightarrow> verdict option" where
  "sanitize_verdict p =
     (if p_id p = PAYLOAD_FORMAT_INDICATOR then
        (case p_value p of V_u8 v \<Rightarrow> Some (if v > 1 then Drop else Keep) | _ \<Rightarrow> None)
      else if p_id p = RESPONSE_TOPIC then
        (case p_value p of V_str b \<Rightarrow> Some (if has_wildcard b then Drop else Keep) | _ \<Rightarrow> None)
      else if p_id p = SUBSCRIPTION_IDENTIFIER then
        (case p_value p of V_varint v \<Rightarrow> Some (if v = 0 \<or> v > 268435455 then Drop else Keep) | _ \<Rightarrow> None)
      else if p_id p = TOPIC_ALIAS then
        (case p_value p of V_u16 v \<Rightarrow> Some (if v = 0 then Drop else Keep) | _ \<Rightarrow> None)
      else if p_id p \<in> {MESSAGE_EXPIRY_INTERVAL, CONTENT_TYPE, CORRELATION_DATA, USER_PROPERTY} then Some Keep
      else if p_id p = WILL_DELAY_INTERVAL then Some Drop
      else Some Refuse)"

fun sanitize_loop :: "u8 list \<Rightarrow> property list \<Rightarrow> (nat \<times> property list) option" where
  "sanitize_loop seen [] = Some (NNG_MQTT_SUCCESS, [])"
| "sanitize_loop seen (p # ps) =
     (if \<not> repeatable (p_id p) \<and> p_id p \<in> set seen then sanitize_loop seen ps
      else
        (let seen' = (if repeatable (p_id p) then seen else p_id p # seen) in
         case sanitize_verdict p of
           None \<Rightarrow> None
         | Some Keep \<Rightarrow> map_option (\<lambda>(rc, qs). (rc, p # qs)) (sanitize_loop seen' ps)
         | Some Drop \<Rightarrow> sanitize_loop seen' ps
         | Some Refuse \<Rightarrow> Some (PROTOCOL_ERROR, p # ps)))"

definition sanitize_out_pub_properties :: "property list option \<Rightarrow> (nat \<times> property list option) option" where
  "sanitize_out_pub_properties prop =
     (case prop of
        None \<Rightarrow> Some (NNG_MQTT_SUCCESS, None)
      | Some ps \<Rightarrow> map_option (\<lambda>(rc, qs). (rc, Some qs)) (sanitize_loop [] ps))"

definition downstream_rule :: "property \<Rightarrow> nat option" where
  "downstream_rule p =
     (if p_id p = PAYLOAD_FORMAT_INDICATOR then
        (case p_value p of V_u8 v \<Rightarrow> Some (if v > 1 then PROTOCOL_ERROR else NNG_MQTT_SUCCESS) | _ \<Rightarrow> None)
      else if p_id p = RESPONSE_TOPIC then
        (case p_value p of V_str b \<Rightarrow> Some (if has_wildcard b then PROTOCOL_ERROR else NNG_MQTT_SUCCESS) | _ \<Rightarrow> None)
      else if p_id p = SUBSCRIPTION_IDENTIFIER then
        (case p_value p of
           V_varint v \<Rightarrow> Some (if v = 0 \<or> v > 268435455 then PROTOCOL_ERROR else NNG_MQTT_SUCCESS)
         | _ \<Rightarrow> None)
      else if p_id p = TOPIC_ALIAS then
        (case p_value p of V_u16 v \<Rightarrow> Some (if v = 0 then TOPIC_ALIAS_INVALID else NNG_MQTT_SUCCESS) | _ \<Rightarrow> None)
      else if p_id p \<in> {MESSAGE_EXPIRY_INTERVAL, CONTENT_TYPE, CORRELATION_DATA, USER_PROPERTY} then
        Some NNG_MQTT_SUCCESS
      else Some PROTOCOL_ERROR)"

text \<open>The loop over the list, common to the two checks: a duplicate is an error, then the rule is asked.\<close>

fun check_loop :: "(property \<Rightarrow> nat option) \<Rightarrow> u8 list \<Rightarrow> property list \<Rightarrow> nat option" where
  "check_loop rule seen [] = Some NNG_MQTT_SUCCESS"
| "check_loop rule seen (p # ps) =
     (if \<not> repeatable (p_id p) \<and> p_id p \<in> set seen then Some PROTOCOL_ERROR
      else
        (let seen' = (if repeatable (p_id p) then seen else p_id p # seen) in
         case rule p of
           None \<Rightarrow> None
         | Some rc \<Rightarrow> if rc = NNG_MQTT_SUCCESS then check_loop rule seen' ps else Some rc))"

definition check_downstream_pub_properties :: "property list option \<Rightarrow> nat option" where
  "check_downstream_pub_properties prop =
     (case prop of None \<Rightarrow> Some NNG_MQTT_SUCCESS | Some ps \<Rightarrow> check_loop downstream_rule [] ps)"

text \<open>\<open>msg\<close> is \<open>None\<close> for a null message, which stands for a CONNECT.\<close>

definition check_rule :: "'p nng_msg option \<Rightarrow> u8 \<Rightarrow> property \<Rightarrow> nat option" where
  "check_rule msg type p =
     (if p_id p \<in> {PAYLOAD_FORMAT_INDICATOR, REQUEST_PROBLEM_INFORMATION, REQUEST_RESPONSE_INFORMATION,
           RETAIN_AVAILABLE, WILDCARD_SUBSCRIPTION_AVAILABLE, SUBSCRIPTION_IDENTIFIER_AVAILABLE,
           SHARED_SUBSCRIPTION_AVAILABLE} then
        (case p_value p of V_u8 v \<Rightarrow> Some (if v > 1 then PROTOCOL_ERROR else NNG_MQTT_SUCCESS) | _ \<Rightarrow> None)
      else if p_id p = RECEIVE_MAXIMUM then
        (case p_value p of V_u16 v \<Rightarrow> Some (if v = 0 then PROTOCOL_ERROR else NNG_MQTT_SUCCESS) | _ \<Rightarrow> None)
      else if p_id p = MAXIMUM_PACKET_SIZE then
        (case p_value p of V_u32 v \<Rightarrow> Some (if v = 0 then PROTOCOL_ERROR else NNG_MQTT_SUCCESS) | _ \<Rightarrow> None)
      else if p_id p = TOPIC_ALIAS_MAXIMUM then
        Some (if msg \<noteq> None \<and> type \<noteq> CMD_CONNECT \<and> type \<noteq> CMD_CONNACK then PROTOCOL_ERROR
              else NNG_MQTT_SUCCESS)
      else if p_id p = TOPIC_ALIAS then
        (case p_value p of
           V_u16 v \<Rightarrow>
             Some (if v = 0 then TOPIC_ALIAS_INVALID
                   else if type = CMD_PUBLISH \<and>
                           (case msg of None \<Rightarrow> False | Some m \<Rightarrow> nni_msg_get_conn_param m = None)
                   then SERVER_UNAVAILABLE
                   else if msg = None \<or> type = CMD_CONNECT then SERVER_UNAVAILABLE
                   else NNG_MQTT_SUCCESS)
         | _ \<Rightarrow> None)
      else if p_id p = RESPONSE_TOPIC then
        (case p_value p of V_str b \<Rightarrow> Some (if has_wildcard b then PROTOCOL_ERROR else NNG_MQTT_SUCCESS) | _ \<Rightarrow> None)
      else if p_id p = SUBSCRIPTION_IDENTIFIER then
        (case p_value p of
           V_varint v \<Rightarrow>
             Some (if v = 0 \<or> v > 268435455 then PROTOCOL_ERROR
                   else if type = CMD_PUBLISH then PROTOCOL_ERROR
                   else NNG_MQTT_SUCCESS)
         | _ \<Rightarrow> None)
      else Some NNG_MQTT_SUCCESS)"

definition check_properties :: "property list option \<Rightarrow> 'p nng_msg option \<Rightarrow> nat option" where
  "check_properties prop msg =
     (let type = (case msg of None \<Rightarrow> 0 | Some m \<Rightarrow> nni_msg_get_type m) in
      if msg \<noteq> None \<and> type = 0 then Some UNSPECIFIED_ERROR
      else (case prop of None \<Rightarrow> Some NNG_MQTT_SUCCESS | Some ps \<Rightarrow> check_loop (check_rule msg type) [] ps))"

definition will_allowed :: "u8 \<Rightarrow> bool" where
  "will_allowed prop_id \<longleftrightarrow>
     prop_id \<in> {WILL_DELAY_INTERVAL, PAYLOAD_FORMAT_INDICATOR, MESSAGE_EXPIRY_INTERVAL, CONTENT_TYPE,
       RESPONSE_TOPIC, CORRELATION_DATA, USER_PROPERTY}"

definition check_will_properties :: "property list option \<Rightarrow> nat option" where
  "check_will_properties prop =
     (case check_properties prop (None :: unit nng_msg option) of
        None \<Rightarrow> None
      | Some rc \<Rightarrow>
          (case prop of
             None \<Rightarrow> Some rc
           | Some ps \<Rightarrow>
               if rc \<noteq> NNG_MQTT_SUCCESS then Some rc
               else if list_all (\<lambda>p. will_allowed (p_id p)) ps then Some NNG_MQTT_SUCCESS
               else Some MALFORMED_PACKET))"

section \<open>Decoding and encoding of property lists\<close>

lemma map_option_some: "map_option f z = Some y \<longleftrightarrow> (\<exists>x. z = Some x \<and> y = f x)"
  by (cases z) auto

text \<open>A property that was parsed used up bytes of the buffer only.\<close>

lemma property_parse_length:
  assumes "property_parse st al b prop_id type copy_value = Some (Some (p, r))"
  shows "length r \<le> length b"
  using assms
  by (cases type)
    (auto simp: property_parse_def map_option_some split: if_splits sum.splits
      dest!: byte_codec.dec_consumes u16_codec.dec_consumes u32_codec.dec_consumes
        varint_codec.dec_consumes str_codec.dec_consumes)

text \<open>The loop; the inner \<open>None\<close> is the error exit.\<close>

function decode_prop_loop ::
    "bool \<Rightarrow> allocator \<Rightarrow> bool \<Rightarrow> bytes \<Rightarrow> property list \<Rightarrow> property list option option" where
  "decode_prop_loop st al copy_value b acc =
     (if b = [] then Some (Some acc)
      else
        (case read_byte b of
           Inl _ \<Rightarrow> Some None
         | Inr (prop_id, r) \<Rightarrow>
             (case property_parse st al r prop_id (property_get_value_type prop_id) copy_value of
                None \<Rightarrow> None
              | Some None \<Rightarrow> Some None
              | Some (Some (p, r')) \<Rightarrow> decode_prop_loop st al copy_value r' (acc @ [p]))))"
  by pat_completeness auto

termination
  by (relation "measure (\<lambda>(st, al, copy_value, b, acc). length b)")
    (auto simp: byte_codec.dec_iff dest!: property_parse_length)

declare decode_prop_loop.simps [simp del]

text \<open>
  \<^verbatim>\<open>(uint32_t) -1\<close> in \<^verbatim>\<open>*len\<close> reports an error. The result is the list, the new \<^verbatim>\<open>*pos\<close> and \<^verbatim>\<open>*len\<close>.
\<close>

abbreviation LEN_ERROR :: nat where "LEN_ERROR \<equiv> 2 ^ 32 - 1"

definition decode_buf_properties ::
    "bool \<Rightarrow> allocator \<Rightarrow> bytes \<Rightarrow> nat \<Rightarrow> nat \<Rightarrow> bool \<Rightarrow> (property list option \<times> nat \<times> nat) option" where
  "decode_buf_properties st al packet packet_len pos copy_value =
     (if pos \<ge> packet_len then Some (None, pos, LEN_ERROR)
      else
        (case read_variable_int (Some (drop pos packet)) (packet_len - pos) 0 0 of
           (rv, prop_len, n) \<Rightarrow>
             if rv \<noteq> 0 then Some (None, pos, LEN_ERROR)
             else
               (let current_pos = pos + n in
                if prop_len = 0 then Some (None, current_pos, 0)
                else if packet_len - current_pos < prop_len then Some (None, pos, LEN_ERROR)
                else if \<not> st then Some (None, pos, LEN_ERROR)
                else
                  (case decode_prop_loop st al copy_value (bslice current_pos prop_len packet) [] of
                     None \<Rightarrow> None
                   | Some None \<Rightarrow> Some (None, pos, LEN_ERROR)
                   | Some (Some list) \<Rightarrow> Some (Some list, current_pos + prop_len, prop_len)))))"

definition decode_properties ::
    "bool \<Rightarrow> allocator \<Rightarrow> 'p nng_msg \<Rightarrow> nat \<Rightarrow> bool \<Rightarrow> (property list option \<times> nat \<times> nat) option" where
  "decode_properties st al msg pos copy_value =
     decode_buf_properties st al (nni_msg_body msg) (nni_msg_len msg) pos copy_value"

text \<open>The properties that a CONNACK may carry.\<close>

definition connack_allowed :: "u8 \<Rightarrow> bool" where
  "connack_allowed prop_id \<longleftrightarrow>
     prop_id \<in> {SESSION_EXPIRY_INTERVAL, RECEIVE_MAXIMUM, PUBLISH_MAXIMUM_QOS, RETAIN_AVAILABLE,
       MAXIMUM_PACKET_SIZE, ASSIGNED_CLIENT_IDENTIFIER, TOPIC_ALIAS_MAXIMUM, USER_PROPERTY, REASON_STRING,
       SERVER_KEEP_ALIVE}"

fun value_len :: "property_value \<Rightarrow> nat" where
  "value_len (V_u8 _) = 1"
| "value_len (V_u16 _) = 2"
| "value_len (V_u32 _) = 4"
| "value_len (V_varint v) = byte_number_for_variable_length v"
| "value_len (V_binary b) = blen b + 2"
| "value_len (V_str b) = blen b + 2"
| "value_len (V_strpair kv) = blen (kv_key kv) + 2 + blen (kv_value kv) + 2"

text \<open>The 32-bit sum of the loop.\<close>

fun properties_len_loop :: "u8 \<Rightarrow> property list \<Rightarrow> nat \<Rightarrow> nat" where
  "properties_len_loop cmd [] prop_len = prop_len"
| "properties_len_loop cmd (p # ps) prop_len =
     (if cmd = CMD_CONNACK \<and> \<not> connack_allowed (p_id p) then properties_len_loop cmd ps prop_len
      else properties_len_loop cmd ps (wrap32 (prop_len + 1 + value_len (p_value p))))"

definition get_properties_len :: "property list option \<Rightarrow> u8 \<Rightarrow> nat" where
  "get_properties_len prop cmd =
     (case prop of None \<Rightarrow> 0 | Some ps \<Rightarrow> properties_len_loop cmd ps 0)"

text \<open>
  The value of one property, written with the type that belongs to its identifier. Only a
  variable-length integer gives a new return value.
\<close>

definition encode_value :: "allocator \<Rightarrow> 'p nng_msg \<Rightarrow> property \<Rightarrow> int \<Rightarrow> (int \<times> 'p nng_msg) option" where
  "encode_value al m p rv =
     (case property_get_value_type (p_id p) of
        U8 \<Rightarrow> (case p_value p of V_u8 v \<Rightarrow> Some (rv, nni_mqtt_msg_append_u8 al m v) | _ \<Rightarrow> None)
      | U16 \<Rightarrow> (case p_value p of V_u16 v \<Rightarrow> Some (rv, nni_mqtt_msg_append_u16 al m v) | _ \<Rightarrow> None)
      | U32 \<Rightarrow> (case p_value p of V_u32 v \<Rightarrow> Some (rv, nni_mqtt_msg_append_u32 al m v) | _ \<Rightarrow> None)
      | VARINT \<Rightarrow> (case p_value p of V_varint v \<Rightarrow> Some (nni_mqtt_msg_append_varint al m v) | _ \<Rightarrow> None)
      | BINARY \<Rightarrow> (case p_value p of V_binary b \<Rightarrow> Some (rv, nni_mqtt_msg_append_byte_str al m b) | _ \<Rightarrow> None)
      | STR_T \<Rightarrow> (case p_value p of V_str b \<Rightarrow> Some (rv, nni_mqtt_msg_append_byte_str al m b) | _ \<Rightarrow> None)
      | STR_PAIR \<Rightarrow>
          (case p_value p of
             V_strpair kv \<Rightarrow>
               Some (rv, nni_mqtt_msg_append_byte_str al (nni_mqtt_msg_append_byte_str al m (kv_key kv)) (kv_value kv))
           | _ \<Rightarrow> None)
      | UNKNOWN \<Rightarrow> Some (rv, m))"

fun encode_prop_loop ::
    "allocator \<Rightarrow> u8 \<Rightarrow> property list \<Rightarrow> int \<Rightarrow> 'p nng_msg \<Rightarrow> (int \<times> 'p nng_msg) option" where
  "encode_prop_loop al cmd [] rv m = Some (rv, m)"
| "encode_prop_loop al cmd (p # ps) rv m =
     (if cmd = CMD_PUBLISH \<and> p_id p = TOPIC_ALIAS then encode_prop_loop al cmd ps rv m
      else if cmd = CMD_CONNACK \<and> \<not> connack_allowed (p_id p) then encode_prop_loop al cmd ps rv m
      else
        (case encode_value al (nni_mqtt_msg_append_u8 al m (p_id p)) p rv of
           None \<Rightarrow> None
         | Some (rv', m') \<Rightarrow> encode_prop_loop al cmd ps rv' m'))"

definition connack_flags :: "allocator \<Rightarrow> 'p nng_msg \<Rightarrow> 'p nng_msg" where
  "connack_flags al m =
     (let put = nni_mqtt_msg_append_u8 al in
      put (put (put (put (put (put m SHARED_SUBSCRIPTION_AVAILABLE) 1) SUBSCRIPTION_IDENTIFIER_AVAILABLE) 1)
        WILDCARD_SUBSCRIPTION_AVAILABLE) 1)"

text \<open>
  The length is written into four bytes on the stack; five bytes overrun them, which \<open>None\<close> stands for.
\<close>

definition encode_properties ::
    "allocator \<Rightarrow> 'p nng_msg \<Rightarrow> property list option \<Rightarrow> u8 \<Rightarrow> (int \<times> 'p nng_msg) option" where
  "encode_properties al m prop cmd =
     (let l0 = get_properties_len prop cmd;
          l1 = (if cmd = CMD_CONNACK then wrap32 (l0 + 6) else l0);
          prop_len = (if cmd = CMD_PUBLISH \<and> property_get_value prop TOPIC_ALIAS \<noteq> None
                      then wrap32 (l1 + (2 ^ 32 - 3)) else l1) in
      case write_variable_length_value prop_len of
        (n, rlen) \<Rightarrow>
          if length rlen > 4 then None
          else if n < 0 then Some (-1, m)
          else
            (let m1 = snd (nni_msg_append al m (Some rlen) (nat n)) in
             if prop_len = 0 then Some (0, m1)
             else
               (let m2 = (if cmd = CMD_CONNACK then connack_flags al m1 else m1) in
                case prop of
                  None \<Rightarrow> Some (0, m2)
                | Some ps \<Rightarrow> encode_prop_loop al cmd ps 0 m2)))"

definition get_mqtt_properties_len :: "property list option \<Rightarrow> nat" where
  "get_mqtt_properties_len prop = get_properties_len prop 0"

text \<open>\<open>None\<close> as the property pointer is a null pointer, also where an empty list was freed.\<close>

definition property_pub_by_will :: "bool \<Rightarrow> allocator \<Rightarrow> property list option \<Rightarrow> property list option option" where
  "property_pub_by_will st al will_prop =
     (case will_prop of
        None \<Rightarrow> Some None
      | Some _ \<Rightarrow>
          (case property_dup st al None will_prop of
             None \<Rightarrow> None
           | Some (rv, list) \<Rightarrow>
               (case property_remove list WILL_DELAY_INTERVAL of
                  None \<Rightarrow> None
                | Some list' \<Rightarrow> if get_mqtt_properties_len list' = 0 then Some None else Some list')))"

section \<open>The bytes of a property\<close>

fun value_ok :: "property_value \<Rightarrow> bool" where
  "value_ok (V_varint v) \<longleftrightarrow> v \<le> MQTT_MAX_MSG_LEN"
| "value_ok (V_binary b) \<longleftrightarrow> str_ok b"
| "value_ok (V_str b) \<longleftrightarrow> str_ok b"
| "value_ok (V_strpair kv) \<longleftrightarrow> str_ok (kv_key kv) \<and> str_ok (kv_value kv)"
| "value_ok _ \<longleftrightarrow> True"

fun value_enc :: "property_value \<Rightarrow> bytes" where
  "value_enc (V_u8 v) = [v]"
| "value_enc (V_u16 v) = NNI_PUT16 v"
| "value_enc (V_u32 v) = NNI_PUT32 v"
| "value_enc (V_varint v) = write_var_loop 0 v"
| "value_enc (V_binary b) = str_enc b"
| "value_enc (V_str b) = str_enc b"
| "value_enc (V_strpair kv) = str_enc (kv_key kv) @ str_enc (kv_value kv)"

text \<open>The type of the value is the one that belongs to the identifier, and the value can be encoded.\<close>

definition prop_ok :: "property \<Rightarrow> bool" where
  "prop_ok p \<longleftrightarrow> property_get_value_type (p_id p) = p_type p \<and> value_ok (p_value p)"

definition prop_enc :: "property \<Rightarrow> bytes" where
  "prop_enc p = p_id p # value_enc (p_value p)"

definition props_enc :: "property list \<Rightarrow> bytes" where
  "props_enc ps = concat (map prop_enc ps)"

lemma props_enc_simps [simp]:
  "props_enc [] = []" "props_enc (p # ps) = prop_enc p @ props_enc ps"
  by (simp_all add: props_enc_def)

lemma length_value_enc: "value_ok v \<Longrightarrow> length (value_enc v) = value_len v"
  by (cases v) (simp_all add: length_write_var)

lemma length_prop_enc: "prop_ok p \<Longrightarrow> length (prop_enc p) = 1 + value_len (p_value p)"
  by (simp add: prop_enc_def prop_ok_def length_value_enc)

subsection \<open>Parsing\<close>

lemma mqtt_buf_dup_ok:
  "mem_ok al \<Longrightarrow> str_ok s \<Longrightarrow> mqtt_buf_dup al buf0 s = Some (0, s)"
  by (cases s) (auto simp: mqtt_buf_dup_def mem_ok_def str_ok_def buf0_def split: option.splits)

lemma copied_str_ok: "mem_ok al \<Longrightarrow> str_ok s \<Longrightarrow> copied_str al cp s = Some s"
  by (simp add: copied_str_def mqtt_buf_dup_ok)

lemma copied_kv_ok:
  "mem_ok al \<Longrightarrow> str_ok (kv_key kv) \<Longrightarrow> str_ok (kv_value kv) \<Longrightarrow> copied_kv al cp kv = Some kv"
  by (simp add: copied_kv_def mqtt_kv_dup_def mqtt_buf_dup_ok)

lemma property_parse_some:
  assumes st and mem: "mem_ok al"
  shows "property_parse st al b i ty cp \<noteq> None"
  using assms
  by (cases ty)
    (auto simp: property_parse_def str_codec.dec_iff copied_str_ok copied_kv_ok split: sum.splits)

lemma property_parse_iff:
  assumes st and mem: "mem_ok al"
  shows "property_parse st al b i (property_get_value_type i) cp = Some (Some (p, r)) \<longleftrightarrow>
    prop_ok p \<and> p_id p = i \<and> p_is_copy p = cp \<and> b = value_enc (p_value p) @ r"
proof
  assume "property_parse st al b i (property_get_value_type i) cp = Some (Some (p, r))"
  with assms show "prop_ok p \<and> p_id p = i \<and> p_is_copy p = cp \<and> b = value_enc (p_value p) @ r"
    by (cases "property_get_value_type i")
      (auto simp: property_parse_def prop_ok_def p_type_def byte_codec.dec_iff u16_codec.dec_iff
        u32_codec.dec_iff varint_codec.dec_iff str_codec.dec_iff copied_str_ok copied_kv_ok
        split: sum.splits)
next
  assume *: "prop_ok p \<and> p_id p = i \<and> p_is_copy p = cp \<and> b = value_enc (p_value p) @ r"
  show "property_parse st al b i (property_get_value_type i) cp = Some (Some (p, r))"
  proof (cases "p_value p")
    case (V_strpair kv)
    with * assms show ?thesis
      by (cases p) (auto simp: property_parse_def prop_ok_def p_type_def str_codec.dec_enc copied_kv_ok)
  qed (use * assms in \<open>cases p; auto simp: property_parse_def prop_ok_def p_type_def u16_codec.dec_enc
        u32_codec.dec_enc varint_codec.dec_enc str_codec.dec_enc copied_str_ok\<close>)+
qed

lemma decode_prop_loop_Nil [simp]: "decode_prop_loop st al cp [] acc = Some (Some acc)"
  by (simp add: decode_prop_loop.simps)

lemma decode_prop_loop_Cons:
  "decode_prop_loop st al cp (i # r) acc =
     (case property_parse st al r i (property_get_value_type i) cp of
        None \<Rightarrow> None
      | Some None \<Rightarrow> Some None
      | Some (Some (p, r')) \<Rightarrow> decode_prop_loop st al cp r' (acc @ [p]))"
  by (simp add: decode_prop_loop.simps)

lemma decode_prop_loop_some:
  assumes st and mem: "mem_ok al"
  shows "decode_prop_loop st al cp b acc \<noteq> None"
proof (induction "length b" arbitrary: b acc rule: less_induct)
  case less
  show ?case
  proof (cases b)
    case (Cons i r)
    obtain x where x: "property_parse st al r i (property_get_value_type i) cp = Some x"
      using property_parse_some [OF assms] by blast
    show ?thesis
    proof (cases x)
      case (Some y)
      obtain p r' where y: "y = (p, r')" by (cases y)
      have "length r' < length b"
        using property_parse_length x Some y Cons by fastforce
      from less [OF this] show ?thesis
        by (simp add: Cons decode_prop_loop_Cons x Some y)
    qed (simp add: Cons decode_prop_loop_Cons x)
  qed simp
qed

lemma props_enc_Cons_iff:
  assumes st and "mem_ok al"
  shows "i # r = props_enc qs \<and> (\<forall>p \<in> set qs. prop_ok p \<and> p_is_copy p = cp) \<longleftrightarrow>
    (\<exists>p r' qs'. property_parse st al r i (property_get_value_type i) cp = Some (Some (p, r')) \<and>
       qs = p # qs' \<and> r' = props_enc qs' \<and> (\<forall>p \<in> set qs'. prop_ok p \<and> p_is_copy p = cp))"
  by (cases qs) (auto simp: property_parse_iff [OF assms] prop_enc_def)

lemma decode_prop_loop_iff:
  assumes st and mem: "mem_ok al"
  shows "decode_prop_loop st al cp b acc = Some (Some ps) \<longleftrightarrow>
    (\<exists>qs. ps = acc @ qs \<and> b = props_enc qs \<and> (\<forall>p \<in> set qs. prop_ok p \<and> p_is_copy p = cp))"
proof (induction "length b" arbitrary: b acc rule: less_induct)
  case less
  show ?case
  proof (cases b)
    case Nil
    have "[] = props_enc qs \<longleftrightarrow> qs = []" for qs
      by (cases qs) (simp_all add: prop_enc_def)
    then show ?thesis by (auto simp: Nil)
  next
    case (Cons i r)
    obtain x where x: "property_parse st al r i (property_get_value_type i) cp = Some x"
      using property_parse_some [OF assms] by blast
    show ?thesis
    proof (cases x)
      case None
      then show ?thesis
        unfolding Cons props_enc_Cons_iff [OF assms] by (simp add: decode_prop_loop_Cons x)
    next
      case (Some y)
      obtain p r' where y: "y = (p, r')" by (cases y)
      have "length r' < length b"
        using property_parse_length x Some y Cons by fastforce
      from less [OF this, of "acc @ [p]"] show ?thesis
        unfolding Cons props_enc_Cons_iff [OF assms] by (auto simp: decode_prop_loop_Cons x Some y)
    qed
  qed
qed

subsection \<open>Encoding\<close>

lemma encode_value_ok:
  assumes mem: "mem_ok al" and wf: "msg_wf m" and ok: "prop_ok p"
  shows "\<exists>m'. encode_value al m p 0 = Some (0, m') \<and> grown m m' (value_enc (p_value p))"
proof (cases "p_value p")
  case (V_strpair kv)
  note k = grown_str [OF mem wf, of "kv_key kv"]
  note v = grown_str [OF mem grown_fields(6) [OF k], of "kv_value kv"]
  show ?thesis
    using ok V_strpair grown_trans [OF k v] by (simp add: encode_value_def prop_ok_def p_type_def)
qed (use ok mem wf in \<open>simp_all add: encode_value_def prop_ok_def p_type_def codec grown_put grown_str
      del: append_byte_str_put\<close>)

definition encoded :: "u8 \<Rightarrow> property \<Rightarrow> bool" where
  "encoded cmd p \<longleftrightarrow>
     \<not> (cmd = CMD_PUBLISH \<and> p_id p = TOPIC_ALIAS) \<and> \<not> (cmd = CMD_CONNACK \<and> \<not> connack_allowed (p_id p))"

lemma encode_prop_loop_ok:
  assumes mem: "mem_ok al"
  shows "msg_wf m \<Longrightarrow> \<forall>p \<in> set ps. encoded cmd p \<longrightarrow> prop_ok p \<Longrightarrow>
    \<exists>m'. encode_prop_loop al cmd ps 0 m = Some (0, m') \<and> grown m m' (props_enc (filter (encoded cmd) ps))"
proof (induction ps arbitrary: m)
  case Nil
  then show ?case by (simp add: grown_refl)
next
  case (Cons p ps)
  show ?case
  proof (cases "encoded cmd p")
    case False
    then have "encode_prop_loop al cmd (p # ps) 0 m = encode_prop_loop al cmd ps 0 m"
      by (auto simp: encoded_def)
    then show ?thesis
      using Cons.IH [OF Cons.prems(1)] Cons.prems(2) False by simp
  next
    case True
    note g1 = grown_put [OF mem Cons.prems(1), of "[p_id p]"]
    obtain m2 where m2: "encode_value al (msg_put al m [p_id p]) p 0 = Some (0, m2)"
      "grown (msg_put al m [p_id p]) m2 (value_enc (p_value p))"
      using encode_value_ok [OF mem grown_fields(6) [OF g1]] Cons.prems(2) True by auto
    obtain m3 where m3: "encode_prop_loop al cmd ps 0 m2 = Some (0, m3)"
      "grown m2 m3 (props_enc (filter (encoded cmd) ps))"
      using Cons.IH [OF grown_fields(6) [OF m2(2)]] Cons.prems(2) by auto
    have "encode_prop_loop al cmd (p # ps) 0 m = Some (0, m3)"
      using True m2(1) m3(1) by (auto simp: encoded_def codec)
    moreover have "grown m m3 (props_enc (filter (encoded cmd) (p # ps)))"
      using grown_trans [OF grown_trans [OF g1 m2(2)] m3(2)] True by (simp add: prop_enc_def)
    ultimately show ?thesis by blast
  qed
qed

lemma length_props_enc: "length (props_enc ps) = sum_list (map (\<lambda>p. length (prop_enc p)) ps)"
  by (induction ps) simp_all

lemma length_props_filter: "length (props_enc (filter P ps)) \<le> length (props_enc ps)"
  by (induction ps) auto

lemma properties_len_loop_eq:
  "\<forall>p \<in> set ps. prop_ok p \<Longrightarrow> n + length (props_enc ps) < 2 ^ 32 \<Longrightarrow>
   properties_len_loop cmd ps n =
     n + length (props_enc (filter (\<lambda>p. \<not> (cmd = CMD_CONNACK \<and> \<not> connack_allowed (p_id p))) ps))"
  by (induction ps arbitrary: n) (auto simp: length_prop_enc)

definition aliases :: "property list \<Rightarrow> nat" where
  "aliases ps = length (filter (\<lambda>p. p_id p = TOPIC_ALIAS) ps)"

lemma prop_ok_alias: "prop_ok p \<Longrightarrow> p_id p = TOPIC_ALIAS \<Longrightarrow> length (prop_enc p) = 3"
  by (cases "p_value p")
    (simp_all add: length_prop_enc prop_ok_def p_type_def property_get_value_type_def)

lemma length_without_alias:
  "\<forall>p \<in> set ps. prop_ok p \<Longrightarrow>
   length (props_enc ps) = length (props_enc (filter (\<lambda>p. p_id p \<noteq> TOPIC_ALIAS) ps)) + 3 * aliases ps"
  by (induction ps) (auto simp: aliases_def prop_ok_alias)

lemma find_alias: "property_get_value (Some ps) TOPIC_ALIAS \<noteq> None \<longleftrightarrow> 0 < aliases ps"
  by (auto simp: property_get_value_def aliases_def find_None_iff filter_empty_conv)

text \<open>The properties that an encoded packet carries, in this order.\<close>

definition flag_prop :: "u8 \<Rightarrow> property" where
  "flag_prop i = \<lparr>p_id = i, p_is_copy = False, p_value = V_u8 1\<rparr>"

definition sent_props :: "u8 \<Rightarrow> property list \<Rightarrow> property list" where
  "sent_props cmd ps =
     (if cmd = CMD_CONNACK
      then map flag_prop [SHARED_SUBSCRIPTION_AVAILABLE, SUBSCRIPTION_IDENTIFIER_AVAILABLE,
             WILDCARD_SUBSCRIPTION_AVAILABLE]
      else []) @ filter (encoded cmd) ps"

lemma flag_prop_ok:
  "prop_ok (flag_prop SHARED_SUBSCRIPTION_AVAILABLE)" "prop_ok (flag_prop SUBSCRIPTION_IDENTIFIER_AVAILABLE)"
  "prop_ok (flag_prop WILDCARD_SUBSCRIPTION_AVAILABLE)"
  by (simp_all add: flag_prop_def prop_ok_def p_type_def property_get_value_type_def)

lemma sent_props_ok: "\<forall>p \<in> set ps. prop_ok p \<Longrightarrow> \<forall>p \<in> set (sent_props cmd ps). prop_ok p"
  by (auto simp: sent_props_def flag_prop_ok)

text \<open>The announced length is the one of the bytes that follow.\<close>

lemma announced_length:
  assumes ok: "\<forall>p \<in> set ps. prop_ok p" and small: "length (props_enc ps) + 6 < 2 ^ 32"
    and one: "cmd = CMD_PUBLISH \<Longrightarrow> aliases ps \<le> 1"
    and l1: "l1 = (if cmd = CMD_CONNACK then wrap32 (get_properties_len (Some ps) cmd + 6)
                   else get_properties_len (Some ps) cmd)"
  shows "(if cmd = CMD_PUBLISH \<and> property_get_value (Some ps) TOPIC_ALIAS \<noteq> None
          then wrap32 (l1 + (2 ^ 32 - 3)) else l1) = length (props_enc (sent_props cmd ps))"
proof -
  let ?c = "\<lambda>p. \<not> (cmd = CMD_CONNACK \<and> \<not> connack_allowed (p_id p))"
  have g: "get_properties_len (Some ps) cmd = length (props_enc (filter ?c ps))"
    using properties_len_loop_eq [OF ok, of 0 cmd] small by (simp add: get_properties_len_def)
  consider "cmd = CMD_CONNACK" | "cmd = CMD_PUBLISH" | "cmd \<noteq> CMD_CONNACK" "cmd \<noteq> CMD_PUBLISH"
    by auto
  then show ?thesis
  proof cases
    case 1
    have e: "encoded CMD_CONNACK = (\<lambda>p. connack_allowed (p_id p))" by (simp add: encoded_def fun_eq_iff)
    show ?thesis
      using small length_props_filter [of "\<lambda>p. connack_allowed (p_id p)" ps] 1 g e
      by (simp add: l1 sent_props_def flag_prop_def prop_enc_def)
  next
    case 2
    have e: "encoded CMD_PUBLISH = (\<lambda>p. p_id p \<noteq> TOPIC_ALIAS)" by (simp add: encoded_def fun_eq_iff)
    have g': "get_properties_len (Some ps) cmd = length (props_enc ps)"
      using g 2 by simp
    show ?thesis
    proof (cases "0 < aliases ps")
      case True
      then have "aliases ps = 1" using one 2 by simp
      then have l: "length (props_enc ps) = length (props_enc (filter (\<lambda>p. p_id p \<noteq> TOPIC_ALIAS) ps)) + 3"
        using length_without_alias [OF ok] by simp
      obtain y where "property_get_value (Some ps) TOPIC_ALIAS = Some y"
        using True find_alias [of ps] by auto
      then show ?thesis
        using l 2 g' small by (simp add: l1 sent_props_def e wrap32_def)
    next
      case False
      then have "property_get_value (Some ps) TOPIC_ALIAS = None"
        using find_alias [of ps] by auto
      then show ?thesis
        using False length_without_alias [OF ok] 2 g' by (simp add: l1 sent_props_def e)
    qed
  next
    case 3
    then show ?thesis by (simp add: g l1 sent_props_def encoded_def [abs_def])
  qed
qed


lemma write_var_0: "write_var_loop 0 v = [0] \<longleftrightarrow> v = 0" if "v \<le> MQTT_MAX_MSG_LEN"
  using varint_codec.prefix_free [of v 0 "[]" "[]"] that by (auto simp: write_var_last)

lemma connack_flags_grown:
  assumes "mem_ok al" "msg_wf m"
  shows "grown m (connack_flags al m)
    (props_enc (map flag_prop [SHARED_SUBSCRIPTION_AVAILABLE, SUBSCRIPTION_IDENTIFIER_AVAILABLE,
       WILDCARD_SUBSCRIPTION_AVAILABLE]))"
  using assms
  by (simp add: grown_def connack_flags_def codec flag_prop_def prop_enc_def)
    (simp add: msg_put_def nni_msg_append_def split: prod.splits)

lemma encode_properties_ok:
  assumes mem: "mem_ok al" and wf: "msg_wf m" and ok: "\<forall>p \<in> set ps. prop_ok p"
    and small: "length (props_enc ps) + 6 \<le> MQTT_MAX_MSG_LEN"
    and one: "cmd = CMD_PUBLISH \<Longrightarrow> aliases ps \<le> 1"
    and n: "n = length (props_enc (sent_props cmd ps))"
  shows "\<exists>m'. encode_properties al m (Some ps) cmd = Some (0, m') \<and>
    grown m m' (write_var_loop 0 n @ props_enc (sent_props cmd ps))"
proof -
  have sz: "length (props_enc ps) + 6 < 2 ^ 32" using small by simp
  note len = announced_length [OF ok sz one refl, of cmd, folded n]
  have nle: "n \<le> MQTT_MAX_MSG_LEN"
    using small length_props_filter [of "encoded cmd" ps]
    by (auto simp: n sent_props_def flag_prop_def prop_enc_def)
  define m1 where "m1 = msg_put al m (write_var_loop 0 n)"
  have g1: "grown m m1 (write_var_loop 0 n)"
    unfolding m1_def by (rule grown_put [OF mem wf])
  define m2 where "m2 = (if cmd = CMD_CONNACK then connack_flags al m1 else m1)"
  have g2: "grown m1 m2 (props_enc (sent_props cmd []))"
    using connack_flags_grown [OF mem grown_fields(6) [OF g1]] grown_refl [OF grown_fields(6) [OF g1]]
    by (simp add: m2_def sent_props_def)
  have e: "props_enc (sent_props cmd ps) = props_enc (sent_props cmd []) @ props_enc (filter (encoded cmd) ps)"
    by (simp add: sent_props_def props_enc_def)
  obtain m3 where m3: "encode_prop_loop al cmd ps 0 m2 = Some (0, m3)"
    "grown m2 m3 (props_enc (filter (encoded cmd) ps))"
    using encode_prop_loop_ok [OF mem grown_fields(6) [OF g2]] ok by blast
  have p: "snd (nni_msg_append al m (Some (write_var_loop 0 n)) (length (write_var_loop 0 n))) = m1"
    by (simp add: m1_def msg_put_def)
  have r: "encode_properties al m (Some ps) cmd = (if n = 0 then Some (0, m1) else Some (0, m3))"
    using length_write_var_le [OF nle] m3(1)
    by (simp only: encode_properties_def Let_def len write_variable_length_value_small [OF nle] m2_def
        prod.case nat_int p option.case) (auto split: if_splits)
  show ?thesis
  proof (cases "n = 0")
    case True
    then show ?thesis using r g1 n by auto
  next
    case False
    then show ?thesis
      using r grown_trans [OF g1 grown_trans [OF g2 m3(2)]] e by auto
  qed
qed


lemma read_variable_int_enc:
  assumes "v \<le> MQTT_MAX_MSG_LEN" "length (write_var_loop 0 v) \<le> len" "len \<le> length (write_var_loop 0 v @ r)"
  shows "read_variable_int (Some (write_var_loop 0 v @ r)) len v0 n0 =
    (MQTT_SUCCESS, v, length (write_var_loop 0 v))"
proof -
  have "read_var_loop (write_var_loop 0 v @ r) len 0 1 0 = Inr (v, length (write_var_loop 0 v))"
    using assms by (subst read_var_loop_iff) simp_all
  then show ?thesis by (simp add: read_variable_int_def)
qed

lemma decode_buf_properties_ok:
  assumes st and mem: "mem_ok al" and ok: "\<forall>p \<in> set ps. prop_ok p \<and> p_is_copy p = cp"
    and n: "n = length (props_enc ps)" "n \<le> MQTT_MAX_MSG_LEN"
    and b: "b = pre @ write_var_loop 0 n @ props_enc ps @ post"
  shows "decode_buf_properties st al b (length b) (length pre) cp =
    Some (if ps = [] then None else Some ps, length pre + length (write_var_loop 0 n) + n, n)"
proof -
  let ?k = "length (write_var_loop 0 n)"
  have pos: "length pre < length b" by (simp add: b)
  have v: "read_variable_int (Some (drop (length pre) b)) (length b - length pre) 0 0 = (MQTT_SUCCESS, n, ?k)"
    using read_variable_int_enc [OF n(2), of "length b - length pre" "props_enc ps @ post" 0 0] by (simp add: b)
  have s: "bslice (length pre + ?k) n b = props_enc ps"
    by (simp add: b bslice_def n(1))
  have l: "decode_prop_loop True al cp (props_enc ps) [] = Some (Some ps)"
    using decode_prop_loop_iff [OF TrueI mem, of cp "props_enc ps" "[]" ps] ok by auto
  have z: "n = 0 \<longleftrightarrow> ps = []"
    by (cases ps) (simp_all add: n(1) prop_enc_def)
  have f: "\<not> length b - (length pre + ?k) < n" by (simp add: b n(1))
  show ?thesis
    using pos z f assms(1) unfolding decode_buf_properties_def v by (simp add: Let_def s l)
qed


definition as_copy :: "bool \<Rightarrow> property \<Rightarrow> property" where
  "as_copy cp p = p\<lparr>p_is_copy := cp\<rparr>"

lemma as_copy_simps [simp]:
  "prop_ok (as_copy cp p) = prop_ok p" "p_is_copy (as_copy cp p) = cp" "prop_enc (as_copy cp p) = prop_enc p"
  "p_id (as_copy cp p) = p_id p" "p_value (as_copy cp p) = p_value p"
  by (simp_all add: as_copy_def prop_ok_def p_type_def prop_enc_def)

lemma props_enc_as_copy [simp]: "props_enc (map (as_copy cp) ps) = props_enc ps"
  by (induction ps) simp_all

section \<open>Properties of the property lists\<close>

text \<open>C12: Property lists survive the wire. When a list of well-typed properties, with at most one topic
  alias in a PUBLISH, is encoded behind the body of a message, decoding at that place gives back the
  properties that the packet type lets through, in their order: all of them in general, without the
  topic alias in a PUBLISH, and in a CONNACK the three availability flags followed by the properties
  on its white list. The decoder stops exactly at the end of what was written.\<close>

theorem properties_round_trip:
  assumes "st" and "mem_ok al" and "msg_wf m" and "\<forall>p \<in> set ps. prop_ok p"
    and "length (props_enc ps) + 6 \<le> MQTT_MAX_MSG_LEN"
    and "cmd = CMD_PUBLISH \<longrightarrow> aliases ps \<le> 1"
  shows "\<exists>m'. encode_properties al m (Some ps) cmd = Some (0, m') \<and>
    nni_msg_header m' = nni_msg_header m \<and>
    decode_properties st al m' (nni_msg_len m) cp =
      Some (if sent_props cmd ps = [] then None else Some (map (as_copy cp) (sent_props cmd ps)),
            nni_msg_len m', length (props_enc (sent_props cmd ps)))"
proof -
  let ?ss = "sent_props cmd ps" and ?n = "length (props_enc (sent_props cmd ps))"
  obtain m' where m': "encode_properties al m (Some ps) cmd = Some (0, m')"
    "grown m m' (write_var_loop 0 ?n @ props_enc ?ss)"
    using encode_properties_ok [OF assms(2-5) _ refl] assms(6) by blast
  have len: "length (nni_msg_body m') = nni_msg_len m'" "length (nni_msg_body m) = nni_msg_len m"
    using grown_fields(6) [OF m'(2)] assms(3) by simp_all
  have nle: "?n \<le> MQTT_MAX_MSG_LEN"
    using assms(5) length_props_filter [of "encoded cmd" ps]
    by (auto simp: sent_props_def flag_prop_def prop_enc_def)
  have b: "nni_msg_body m' = nni_msg_body m @ write_var_loop 0 ?n @ props_enc (map (as_copy cp) ?ss) @ []"
    using grown_fields(7) [OF m'(2)] by simp
  have "decode_properties st al m' (nni_msg_len m) cp =
      Some (if ?ss = [] then None else Some (map (as_copy cp) ?ss), nni_msg_len m', ?n)"
    using decode_buf_properties_ok [OF assms(1,2) _ _ nle b, of cp] sent_props_ok [OF assms(4), of cmd]
      arg_cong [OF b, of length] len
    by (simp add: decode_properties_def)
  with m' grown_fields(1) [OF m'(2)] show ?thesis by blast
qed


definition some_props :: "property list" where
  "some_props =
     [\<lparr>p_id = USER_PROPERTY, p_is_copy = False,
       p_value = V_strpair \<lparr>kv_key = \<lparr>blen = 1, bbuf = Some [0x6B]\<rparr>, kv_value = \<lparr>blen = 0, bbuf = None\<rparr>\<rparr>\<rparr>,
      \<lparr>p_id = TOPIC_ALIAS, p_is_copy = False, p_value = V_u16 5\<rparr>,
      \<lparr>p_id = MESSAGE_EXPIRY_INTERVAL, p_is_copy = False, p_value = V_u32 60\<rparr>]"

lemma some_props_ok: "\<forall>p \<in> set some_props. prop_ok p"
  by (simp add: some_props_def prop_ok_def p_type_def property_get_value_type_def str_ok_def)

theorem properties_round_trip_witness:
  "True \<and> mem_ok (\<lambda>_. True) \<and> msg_wf (zero_msg :: unit nng_msg) \<and> list_all prop_ok some_props \<and>
   length (props_enc some_props) + 6 \<le> MQTT_MAX_MSG_LEN \<and> aliases some_props \<le> 1 \<and>
   (\<exists>m'. encode_properties (\<lambda>_. True) (zero_msg :: unit nng_msg) (Some some_props) CMD_PUBLISH = Some (0, m') \<and>
    nni_msg_header m' = nni_msg_header (zero_msg :: unit nng_msg) \<and>
    decode_properties True (\<lambda>_. True) m' (nni_msg_len (zero_msg :: unit nng_msg)) True =
      Some (if sent_props CMD_PUBLISH some_props = [] then None
            else Some (map (as_copy True) (sent_props CMD_PUBLISH some_props)),
            nni_msg_len m', length (props_enc (sent_props CMD_PUBLISH some_props))))"
proof -
  have h: "mem_ok (\<lambda>_. True)" "length (props_enc some_props) + 6 \<le> MQTT_MAX_MSG_LEN"
    "CMD_PUBLISH = CMD_PUBLISH \<longrightarrow> aliases some_props \<le> 1"
    by (simp_all add: mem_ok_def some_props_def prop_enc_def str_enc_def str_bytes_def aliases_def)
  show ?thesis
    using properties_round_trip [OF TrueI h(1) msg_wf_zero some_props_ok h(2,3), of True] h some_props_ok
    by (intro conjI) (simp_all add: list_all_iff)
qed

lemma decode_buf_total:
  assumes "st" and "mem_ok al" and "len \<le> length pk"
  shows "\<exists>list pos' n. decode_buf_properties st al pk len pos cp = Some (list, pos', n) \<and>
    (\<forall>ps. list = Some ps \<longrightarrow>
       ps \<noteq> [] \<and> (\<forall>p \<in> set ps. prop_ok p \<and> p_is_copy p = cp) \<and> n = length (props_enc ps) \<and>
       pos < pos' \<and> pos' \<le> len \<and> bslice pos (pos' - pos) pk = write_var_loop 0 n @ props_enc ps)"
proof -
  obtain rv v k where v: "read_variable_int (Some (drop pos pk)) (len - pos) 0 0 = (rv, v, k)"
    by (metis prod_cases3)
  obtain x where x: "decode_prop_loop st al cp (bslice (pos + k) v pk) [] = Some x"
    using decode_prop_loop_some [OF assms(1,2)] by blast
  show ?thesis
  proof (cases "pos < len \<and> rv = 0 \<and> v \<noteq> 0 \<and> \<not> len - (pos + k) < v")
    case False
    then show ?thesis
      using v by (auto simp: decode_buf_properties_def Let_def)
  next
    case True
    then have r: "read_var_loop (drop pos pk) (len - pos) 0 1 0 = Inr (v, k)"
      using v read_var_errors [of "drop pos pk" "len - pos" 0 1 0]
      by (auto simp: read_variable_int_def split: sum.splits)
    then have t: "k \<le> len - pos" "take k (drop pos pk) = write_var_loop 0 v"
      using read_var_loop_iff [of "len - pos" "drop pos pk" v k] assms(3) by auto
    show ?thesis
    proof (cases x)
      case None
      then show ?thesis
        using v x True assms(1) by (auto simp: decode_buf_properties_def Let_def)
    next
      case (Some ps)
      have ps: "bslice (pos + k) v pk = props_enc ps" "\<forall>p \<in> set ps. prop_ok p \<and> p_is_copy p = cp"
        using x Some decode_prop_loop_iff [OF assms(1,2), of cp "bslice (pos + k) v pk" "[]" ps] by auto
      have l: "length (props_enc ps) = v"
        using arg_cong [OF ps(1), of length] True t(1) assms(3) by auto
      have "bslice pos (k + v) pk = write_var_loop 0 v @ props_enc ps"
        using t(2) ps(1) by (simp add: bslice_def take_add add.commute)
      moreover have "decode_buf_properties st al pk len pos cp = Some (Some ps, pos + k + v, v)"
        using v x True assms(1) Some by (auto simp: decode_buf_properties_def Let_def)
      ultimately show ?thesis
        using ps(2) l True t(1) by auto
    qed
  qed
qed

text \<open>C17: Decoding a property list never leaves the buffer and never reads the wrong member of a value.
  What it returns is well typed: every property has the type of its identifier, and the bytes it was
  read from are exactly the encoding of the list behind its length, inside the packet.\<close>

theorem decode_buf_properties_typed:
  assumes "st" and "mem_ok al" and "len \<le> length pk"
  shows "\<exists>list pos' n. decode_buf_properties st al pk len pos cp = Some (list, pos', n) \<and>
    (\<forall>ps. list = Some ps \<longrightarrow>
       ps \<noteq> [] \<and> (\<forall>p \<in> set ps. prop_ok p \<and> p_is_copy p = cp) \<and> n = length (props_enc ps) \<and>
       pos < pos' \<and> pos' \<le> len \<and> bslice pos (pos' - pos) pk = write_var_loop 0 n @ props_enc ps)"
  using assms by (rule decode_buf_total)

theorem decode_buf_properties_typed_witness:
  "True \<and> mem_ok (\<lambda>_. True) \<and> 4 \<le> length [0x03, 0x23, 0x00, 0x05 :: u8] \<and>
   (\<exists>list pos' n. decode_buf_properties True (\<lambda>_. True) [0x03, 0x23, 0x00, 0x05] 4 0 False = Some (list, pos', n) \<and>
    (\<forall>ps. list = Some ps \<longrightarrow>
       ps \<noteq> [] \<and> (\<forall>p \<in> set ps. prop_ok p \<and> p_is_copy p = False) \<and> n = length (props_enc ps) \<and>
       0 < pos' \<and> pos' \<le> 4 \<and> bslice 0 (pos' - 0) [0x03, 0x23, 0x00, 0x05] = write_var_loop 0 n @ props_enc ps))"
  using decode_buf_properties_typed [of True "\<lambda>_. True" 4 "[0x03, 0x23, 0x00, 0x05]" 0 False]
  by (simp add: mem_ok_def)

subsection \<open>The checks\<close>

lemma check_loop_iff:
  "check_loop rule seen ps = Some NNG_MQTT_SUCCESS \<longleftrightarrow>
     distinct (filter (\<lambda>i. \<not> repeatable i) (map p_id ps)) \<and>
     (\<forall>p \<in> set ps. \<not> repeatable (p_id p) \<longrightarrow> p_id p \<notin> set seen) \<and>
     (\<forall>p \<in> set ps. rule p = Some NNG_MQTT_SUCCESS)"
  by (induction ps arbitrary: seen) (auto simp: Let_def image_iff split: option.splits)

lemma downstream_of_verdict: "sanitize_verdict p = Some Keep \<longleftrightarrow> downstream_rule p = Some NNG_MQTT_SUCCESS"
  by (simp add: sanitize_verdict_def downstream_rule_def split: property_value.splits)

lemma sanitize_loop_checked:
  "sanitize_loop seen ps = Some (NNG_MQTT_SUCCESS, qs) \<Longrightarrow>
     distinct (filter (\<lambda>i. \<not> repeatable i) (map p_id qs)) \<and>
     (\<forall>p \<in> set qs. \<not> repeatable (p_id p) \<longrightarrow> p_id p \<notin> set seen) \<and>
     (\<forall>p \<in> set qs. downstream_rule p = Some NNG_MQTT_SUCCESS) \<and> subseq qs ps"
proof (induction ps arbitrary: seen qs)
  case (Cons p ps)
  let ?seen = "if repeatable (p_id p) then seen else p_id p # seen"
  show ?case
  proof (cases "\<not> repeatable (p_id p) \<and> p_id p \<in> set seen")
    case True
    then have "sanitize_loop seen ps = Some (NNG_MQTT_SUCCESS, qs)" using Cons.prems by simp
    from Cons.IH [OF this] show ?thesis by auto
  next
    case False
    then consider (keep) rs where "sanitize_verdict p = Some Keep" "qs = p # rs"
        "sanitize_loop ?seen ps = Some (NNG_MQTT_SUCCESS, rs)"
      | (drop) "sanitize_loop ?seen ps = Some (NNG_MQTT_SUCCESS, qs)"
      using Cons.prems by (auto simp: Let_def map_option_some split: option.splits verdict.splits)
    then show ?thesis
    proof cases
      case keep
      from Cons.IH [OF keep(3)] keep(1,2) False show ?thesis
        by (auto simp: downstream_of_verdict image_iff split: if_splits)
    next
      case drop
      from Cons.IH [OF drop] show ?thesis by (auto split: if_splits)
    qed
  qed
qed simp

lemma sanitize_loop_id:
  "check_loop downstream_rule seen ps = Some NNG_MQTT_SUCCESS \<Longrightarrow>
   sanitize_loop seen ps = Some (NNG_MQTT_SUCCESS, ps)"
  by (induction ps arbitrary: seen)
    (auto simp: Let_def downstream_of_verdict [symmetric] split: option.splits if_splits)

lemma id_types [simp]:
  "property_get_value_type PAYLOAD_FORMAT_INDICATOR = U8"
  "property_get_value_type REQUEST_PROBLEM_INFORMATION = U8"
  "property_get_value_type REQUEST_RESPONSE_INFORMATION = U8"
  "property_get_value_type PUBLISH_MAXIMUM_QOS = U8"
  "property_get_value_type RETAIN_AVAILABLE = U8"
  "property_get_value_type WILDCARD_SUBSCRIPTION_AVAILABLE = U8"
  "property_get_value_type SUBSCRIPTION_IDENTIFIER_AVAILABLE = U8"
  "property_get_value_type SHARED_SUBSCRIPTION_AVAILABLE = U8"
  "property_get_value_type SERVER_KEEP_ALIVE = U16"
  "property_get_value_type RECEIVE_MAXIMUM = U16"
  "property_get_value_type TOPIC_ALIAS_MAXIMUM = U16"
  "property_get_value_type TOPIC_ALIAS = U16"
  "property_get_value_type MESSAGE_EXPIRY_INTERVAL = U32"
  "property_get_value_type SESSION_EXPIRY_INTERVAL = U32"
  "property_get_value_type WILL_DELAY_INTERVAL = U32"
  "property_get_value_type MAXIMUM_PACKET_SIZE = U32"
  "property_get_value_type SUBSCRIPTION_IDENTIFIER = VARINT"
  "property_get_value_type CONTENT_TYPE = STR_T"
  "property_get_value_type RESPONSE_TOPIC = STR_T"
  "property_get_value_type CORRELATION_DATA = BINARY"
  "property_get_value_type USER_PROPERTY = STR_PAIR"
  by (simp_all add: property_get_value_type_def)

lemma prop_ok_value:
  assumes "prop_ok p"
  shows "property_get_value_type (p_id p) = U8 \<Longrightarrow> \<exists>v. p_value p = V_u8 v"
    "property_get_value_type (p_id p) = U16 \<Longrightarrow> \<exists>v. p_value p = V_u16 v"
    "property_get_value_type (p_id p) = U32 \<Longrightarrow> \<exists>v. p_value p = V_u32 v"
    "property_get_value_type (p_id p) = VARINT \<Longrightarrow> \<exists>v. p_value p = V_varint v"
    "property_get_value_type (p_id p) = STR_T \<Longrightarrow> \<exists>b. p_value p = V_str b"
    "property_get_value_type (p_id p) = BINARY \<Longrightarrow> \<exists>b. p_value p = V_binary b"
    "property_get_value_type (p_id p) = STR_PAIR \<Longrightarrow> \<exists>kv. p_value p = V_strpair kv"
  using assms by (cases "p_value p"; simp add: prop_ok_def p_type_def)+

lemma rule_typed:
  assumes "prop_ok p"
  shows "sanitize_verdict p \<noteq> None" "downstream_rule p \<noteq> None" "check_rule msg type p \<noteq> None"
  using prop_ok_value [OF assms]
  by (auto simp: sanitize_verdict_def downstream_rule_def check_rule_def)

lemma sanitize_loop_some: "\<forall>p \<in> set ps. prop_ok p \<Longrightarrow> sanitize_loop seen ps \<noteq> None"
  by (induction ps arbitrary: seen)
    (auto simp: Let_def split: option.splits verdict.splits dest: rule_typed(1))

text \<open>C22: Purging the properties of an outgoing PUBLISH works. On well-typed properties it always
  returns. When it succeeds the remaining list passes the strict check for outgoing PUBLISH packets,
  contains the old properties in their order, and is unchanged where the check would have passed.\<close>

theorem sanitize_out_pub_properties_sound:
  assumes "\<forall>p \<in> set ps. prop_ok p"
  shows "\<exists>rc qs. sanitize_out_pub_properties (Some ps) = Some (rc, Some qs) \<and>
    (rc = NNG_MQTT_SUCCESS \<longrightarrow>
       check_downstream_pub_properties (Some qs) = Some NNG_MQTT_SUCCESS \<and> subseq qs ps) \<and>
    (check_downstream_pub_properties (Some ps) = Some NNG_MQTT_SUCCESS \<longrightarrow> rc = NNG_MQTT_SUCCESS \<and> qs = ps)"
proof -
  obtain rc qs where s: "sanitize_loop [] ps = Some (rc, qs)"
    using sanitize_loop_some [OF assms, of "[]"] by auto
  show ?thesis
    using sanitize_loop_checked [of "[]" ps qs] sanitize_loop_id [of "[]" ps] s
    by (auto simp: sanitize_out_pub_properties_def check_downstream_pub_properties_def check_loop_iff)
qed

theorem sanitize_out_pub_properties_sound_witness:
  "\<exists>rc qs. sanitize_out_pub_properties (Some some_props) = Some (rc, Some qs) \<and>
    (rc = NNG_MQTT_SUCCESS \<longrightarrow>
       check_downstream_pub_properties (Some qs) = Some NNG_MQTT_SUCCESS \<and> subseq qs some_props) \<and>
    (check_downstream_pub_properties (Some some_props) = Some NNG_MQTT_SUCCESS \<longrightarrow>
       rc = NNG_MQTT_SUCCESS \<and> qs = some_props)"
  by (rule sanitize_out_pub_properties_sound [OF some_props_ok])



subsection \<open>Copies\<close>

text \<open>What \<^verbatim>\<open>property_dup\<close> makes of a property: only buffers are marked as copied.\<close>

definition dup_of :: "property \<Rightarrow> property" where
  "dup_of p = p\<lparr>p_is_copy := (p_type p \<in> {BINARY, STR_T, STR_PAIR})\<rparr>"

text \<open>A user property with an empty key is not copied faithfully, see below.\<close>

definition key_nonempty :: "property \<Rightarrow> bool" where
  "key_nonempty p \<longleftrightarrow> (case p_value p of V_strpair kv \<Rightarrow> 0 < blen (kv_key kv) | _ \<Rightarrow> True)"

lemma mqtt_buf_create_ok:
  "mem_ok al \<Longrightarrow> str_ok b \<Longrightarrow>
   mqtt_buf_create al buf0 (bbuf b) (blen b) = Some (if blen b > 0 then 0 else NNG_ENOMEM, b)"
  by (cases b) (auto simp: mqtt_buf_create_def mem_ok_def str_ok_def buf0_def split: option.splits)

lemma str_eta: "str_ok b \<Longrightarrow> \<lparr>blen = blen b, bbuf = bbuf b\<rparr> = b"
  by simp

lemma dup_item_ok:
  assumes "mem_ok al" "prop_ok p" "key_nonempty p"
  shows "dup_item True al p = Some (Some (dup_of p))"
proof -
  have t: "property_get_value_type (p_id p) = p_type p" "value_ok (p_value p)"
    using assms(2) by (simp_all add: prop_ok_def)
  show ?thesis
  proof (cases "p_value p")
    case (V_strpair kv)
    then show ?thesis
      using t assms
      by (cases p) (auto simp: dup_item_def dup_of_def p_type_def property_set_value_strpair_def
          mqtt_kv_create_def mqtt_buf_create_ok key_nonempty_def)
  qed (use t assms(1) in \<open>cases p; auto simp: dup_item_def dup_of_def p_type_def property_set_value_u8_def
        property_set_value_u16_def property_set_value_u32_def property_set_value_varint_def
        property_set_value_binary_def property_set_value_str_def mqtt_buf_create_ok\<close>)+
qed

lemma dup_items_ok:
  "mem_ok al \<Longrightarrow> \<forall>p \<in> set ps. prop_ok p \<and> key_nonempty p \<Longrightarrow> dup_items True al ps = Some (map dup_of ps)"
  by (induction ps) (simp_all add: dup_item_ok)

lemma dup_of_simps [simp]:
  "p_id (dup_of p) = p_id p" "p_value (dup_of p) = p_value p" "prop_ok (dup_of p) = prop_ok p"
  by (simp_all add: dup_of_def prop_ok_def p_type_def)

lemma dup_of_owned: "\<not> (\<not> p_is_copy (dup_of p) \<and> value_nonempty (p_value p))"
  by (cases "p_value p") (simp_all add: dup_of_def p_type_def)

lemma remove_first_dup:
  "remove_first i (map dup_of ps) =
     Some (map dup_of (takeWhile (\<lambda>p. p_id p \<noteq> i) ps @ tl (dropWhile (\<lambda>p. p_id p \<noteq> i) ps)))"
  using dup_of_owned by (induction ps) auto



text \<open>The copy of a user property with an empty key loses its value: \<^verbatim>\<open>mqtt_kv_create\<close> stops as soon as
  \<^verbatim>\<open>mqtt_buf_create\<close> answers \<^verbatim>\<open>NNG_ENOMEM\<close> for a length of zero, and the result is dropped.\<close>

theorem property_dup_empty_key_loses_value:
  assumes "mem_ok al" and "p_id p = USER_PROPERTY" and "p_value p = V_strpair kv" and "prop_ok p"
    and "blen (kv_key kv) = 0"
  shows "property_dup True al old (Some [p]) =
    Some (0, Some [\<lparr>p_id = USER_PROPERTY, p_is_copy = True, p_value = V_strpair \<lparr>kv_key = buf0, kv_value = buf0\<rparr>\<rparr>])"
  using assms
  by (auto simp: property_dup_def dup_item_def property_set_value_strpair_def mqtt_kv_create_def
      mqtt_buf_create_def)

definition keyless_pair :: mqtt_kv where
  "keyless_pair = \<lparr>kv_key = buf0, kv_value = \<lparr>blen = 1, bbuf = Some [0x76]\<rparr>\<rparr>"

definition keyless :: property where
  "keyless = \<lparr>p_id = USER_PROPERTY, p_is_copy = False, p_value = V_strpair keyless_pair\<rparr>"

theorem property_dup_empty_key_loses_value_witness:
  "mem_ok (\<lambda>_. True) \<and> p_id keyless = USER_PROPERTY \<and> p_value keyless = V_strpair keyless_pair \<and>
   prop_ok keyless \<and> blen (kv_key keyless_pair) = 0 \<and>
   property_dup True (\<lambda>_. True) None (Some [keyless]) =
    Some (0, Some [\<lparr>p_id = USER_PROPERTY, p_is_copy = True, p_value = V_strpair \<lparr>kv_key = buf0, kv_value = buf0\<rparr>\<rparr>])"
proof -
  have h: "mem_ok (\<lambda>_. True)" "p_id keyless = USER_PROPERTY" "p_value keyless = V_strpair keyless_pair"
    "prop_ok keyless" "blen (kv_key keyless_pair) = 0"
    by (simp_all add: keyless_def keyless_pair_def mem_ok_def prop_ok_def p_type_def buf0_def str_ok_def)
  show ?thesis using property_dup_empty_key_loses_value [OF h, of None] h by blast
qed

lemma cut_unique:
  "\<not> repeatable i \<Longrightarrow> distinct (filter (\<lambda>i. \<not> repeatable i) (map p_id ps)) \<Longrightarrow>
   takeWhile (\<lambda>p. p_id p \<noteq> i) ps @ tl (dropWhile (\<lambda>p. p_id p \<noteq> i) ps) = filter (\<lambda>p. p_id p \<noteq> i) ps"
proof (induction ps)
  case (Cons p ps)
  then show ?case
    by (cases "p_id p = i") (auto simp: image_iff intro!: filter_True [symmetric] split: if_splits)
qed simp

lemma distinct_filter_map: "distinct (filter P (map f ps)) \<Longrightarrow> distinct (filter P (map f (filter Q ps)))"
  by (induction ps) (auto split: if_splits)

lemma props_enc_dup [simp]: "props_enc (map dup_of ps) = props_enc ps"
  by (induction ps) (simp_all add: prop_enc_def)

lemma downstream_rule_dup [simp]: "downstream_rule (dup_of p) = downstream_rule p"
  by (simp add: downstream_rule_def)

lemma will_rule_downstream:
  assumes "prop_ok p" "will_allowed (p_id p)" "p_id p \<noteq> WILL_DELAY_INTERVAL"
    "check_rule None 0 p = Some NNG_MQTT_SUCCESS"
  shows "downstream_rule p = Some NNG_MQTT_SUCCESS"
  using assms prop_ok_value [OF assms(1)]
  by (auto simp: will_allowed_def downstream_rule_def check_rule_def)

text \<open>C23: The properties of a will become properties of the PUBLISH that is sent for it. For a will
  that \<^verbatim>\<open>check_will_properties\<close> accepted, \<^verbatim>\<open>property_pub_by_will\<close> gives copies of all properties but the will
  delay interval, or a null pointer when there is no other; the result passes the strict check for
  outgoing PUBLISH packets and does not contain the will delay interval.\<close>

theorem will_properties_publishable:
  assumes "mem_ok al" and "\<forall>p \<in> set ps. prop_ok p \<and> key_nonempty p" and "length (props_enc ps) < 2 ^ 32"
    and "check_will_properties (Some ps) = Some NNG_MQTT_SUCCESS"
  shows "\<exists>list. property_pub_by_will True al (Some ps) = Some list \<and>
    list = (let qs = filter (\<lambda>p. p_id p \<noteq> WILL_DELAY_INTERVAL) ps in if qs = [] then None else Some (map dup_of qs)) \<and>
    check_downstream_pub_properties list = Some NNG_MQTT_SUCCESS"
proof -
  let ?i = WILL_DELAY_INTERVAL
  let ?qs = "filter (\<lambda>p. p_id p \<noteq> ?i) ps"
  have chk: "check_loop (check_rule (None :: unit nng_msg option) 0) [] ps = Some NNG_MQTT_SUCCESS"
    "\<forall>p \<in> set ps. will_allowed (p_id p)"
    using assms(4) by (auto simp: check_will_properties_def check_properties_def list_all_iff
        split: option.splits if_splits)
  then have d: "distinct (filter (\<lambda>i. \<not> repeatable i) (map p_id ps))"
    and r: "\<forall>p \<in> set ps. check_rule (None :: unit nng_msg option) 0 p = Some NNG_MQTT_SUCCESS"
    by (simp_all add: check_loop_iff)
  have cut: "takeWhile (\<lambda>p. p_id p \<noteq> ?i) ps @ tl (dropWhile (\<lambda>p. p_id p \<noteq> ?i) ps) = ?qs"
    by (rule cut_unique [OF _ d]) (simp add: repeatable_def)
  have "property_remove (Some (map dup_of ps)) ?i = Some (Some (map dup_of ?qs))"
    by (simp only: property_remove_def option.case remove_first_dup cut option.map)
  moreover have "get_mqtt_properties_len (Some (map dup_of ?qs)) = length (props_enc ?qs)"
    using properties_len_loop_eq [of "map dup_of ?qs" 0 0] assms(2,3)
      length_props_filter [of "\<lambda>p. p_id p \<noteq> ?i" ps]
    by (simp add: get_mqtt_properties_len_def get_properties_len_def)
  moreover have "check_loop downstream_rule [] (map dup_of ?qs) = Some NNG_MQTT_SUCCESS"
    using distinct_filter_map [OF d, of "\<lambda>p. p_id p \<noteq> ?i"] assms(2) chk(2) r
    by (auto simp: check_loop_iff comp_def intro!: will_rule_downstream)
  moreover have "length (props_enc ?qs) = 0 \<longleftrightarrow> ?qs = []"
    by (cases ?qs) (simp_all add: prop_enc_def)
  ultimately show ?thesis
    using dup_items_ok [OF assms(1,2)]
    by (simp add: property_pub_by_will_def property_dup_def check_downstream_pub_properties_def Let_def)
qed


definition some_will_props :: "property list" where
  "some_will_props =
     [\<lparr>p_id = WILL_DELAY_INTERVAL, p_is_copy = False, p_value = V_u32 30\<rparr>,
      \<lparr>p_id = PAYLOAD_FORMAT_INDICATOR, p_is_copy = False, p_value = V_u8 1\<rparr>]"

theorem will_properties_publishable_witness:
  "mem_ok (\<lambda>_. True) \<and>
   length (props_enc some_will_props) < 2 ^ 32 \<and>
   check_will_properties (Some some_will_props) = Some NNG_MQTT_SUCCESS \<and>
   (\<exists>list. property_pub_by_will True (\<lambda>_. True) (Some some_will_props) = Some list \<and>
    list = (let qs = filter (\<lambda>p. p_id p \<noteq> WILL_DELAY_INTERVAL) some_will_props in
            if qs = [] then None else Some (map dup_of qs)) \<and>
    check_downstream_pub_properties list = Some NNG_MQTT_SUCCESS)"
proof -
  have h: "mem_ok (\<lambda>_. True)" "\<forall>p \<in> set some_will_props. prop_ok p \<and> key_nonempty p"
    "length (props_enc some_will_props) < 2 ^ 32"
    "check_will_properties (Some some_will_props) = Some NNG_MQTT_SUCCESS"
    by (simp_all add: mem_ok_def some_will_props_def prop_ok_def p_type_def key_nonempty_def prop_enc_def
        check_will_properties_def check_properties_def check_rule_def repeatable_def will_allowed_def)
  show ?thesis
    using will_properties_publishable [OF h] h by blast
qed

section \<open>The fast path for the message expiry interval\<close>

text \<open>
  \<^verbatim>\<open>fast_parse_msg_expiry_val\<close> walks over the properties of a PUBLISH without building a list. The
  positions stay far below \<open>2 ^ 32\<close>, so that the 32-bit sums are plain. An inner \<open>None\<close> is the answer
  false; an outer \<open>None\<close> is a read behind the body.
\<close>

definition get16_at :: "bytes \<Rightarrow> nat \<Rightarrow> nat option" where
  "get16_at body pos = (if pos + 2 > length body then None else Some (unat (NNI_GET16 body pos)))"

function fast_expiry_loop :: "bytes \<Rightarrow> nat \<Rightarrow> nat \<Rightarrow> u32 option option" where
  "fast_expiry_loop body end_pos pos0 =
     (if pos0 < end_pos then
        (if pos0 \<ge> length body then None
         else
           (let prop_id = body ! pos0; pos = pos0 + 1 in
            if prop_id = MESSAGE_EXPIRY_INTERVAL then
              (if pos + 4 > end_pos then Some None
               else if pos + 4 > length body then None
               else Some (Some (NNI_GET32 body pos)))
            else if prop_id \<in> {PAYLOAD_FORMAT_INDICATOR, REQUEST_PROBLEM_INFORMATION,
                REQUEST_RESPONSE_INFORMATION, PUBLISH_MAXIMUM_QOS, RETAIN_AVAILABLE,
                WILDCARD_SUBSCRIPTION_AVAILABLE, SUBSCRIPTION_IDENTIFIER_AVAILABLE,
                SHARED_SUBSCRIPTION_AVAILABLE} then fast_expiry_loop body end_pos (pos + 1)
            else if prop_id \<in> {SERVER_KEEP_ALIVE, RECEIVE_MAXIMUM, TOPIC_ALIAS_MAXIMUM, TOPIC_ALIAS} then
              fast_expiry_loop body end_pos (pos + 2)
            else if prop_id \<in> {WILL_DELAY_INTERVAL, MAXIMUM_PACKET_SIZE, SESSION_EXPIRY_INTERVAL} then
              fast_expiry_loop body end_pos (pos + 4)
            else if prop_id = SUBSCRIPTION_IDENTIFIER then
              (case fast_read_varint (drop pos body) (end_pos - pos) of
                 None \<Rightarrow> Some None
               | Some (v, n) \<Rightarrow> fast_expiry_loop body end_pos (pos + n))
            else if prop_id \<in> {CONTENT_TYPE, RESPONSE_TOPIC, ASSIGNED_CLIENT_IDENTIFIER,
                AUTHENTICATION_METHOD, AUTHENTICATION_DATA, RESPONSE_INFORMATION, SERVER_REFERENCE,
                REASON_STRING, CORRELATION_DATA} then
              (if pos + 2 > end_pos then Some None
               else
                 (case get16_at body pos of
                    None \<Rightarrow> None
                  | Some slen \<Rightarrow> fast_expiry_loop body end_pos (pos + (2 + slen))))
            else if prop_id = USER_PROPERTY then
              (if pos + 2 > end_pos then Some None
               else
                 (case get16_at body pos of
                    None \<Rightarrow> None
                  | Some klen \<Rightarrow>
                      (let pos = pos + (2 + klen) in
                       if pos + 2 > end_pos then Some None
                       else
                         (case get16_at body pos of
                            None \<Rightarrow> None
                          | Some vlen \<Rightarrow> fast_expiry_loop body end_pos (pos + (2 + vlen))))))
            else Some None))
      else Some None)"
  by pat_completeness auto

termination
  by (relation "measure (\<lambda>(body, end_pos, pos). end_pos - pos)") auto

declare fast_expiry_loop.simps [simp del]

definition fast_parse_msg_expiry_val :: "'p nng_msg option \<Rightarrow> u32 option option" where
  "fast_parse_msg_expiry_val msg =
     (case msg of
        None \<Rightarrow> Some None
      | Some m \<Rightarrow>
          (let body = nni_msg_body m; len = nni_msg_len m in
           if 2 > len then Some None
           else
             (case get16_at body 0 of
                None \<Rightarrow> None
              | Some tlen \<Rightarrow>
                  (let qos = drop_bit 1 (m_header_buf m ! 0 AND 0x06);
                       pos = (if qos > 0 then 2 + tlen + 2 else 2 + tlen) in
                   if pos \<ge> len then Some None
                   else
                     (case fast_read_varint (drop pos body) (len - pos) of
                        None \<Rightarrow> Some None
                      | Some (prop_len, used_bytes) \<Rightarrow>
                          (let pos = pos + used_bytes in
                           if prop_len = 0 \<or> pos + prop_len > len then Some None
                           else fast_expiry_loop body (pos + prop_len) pos))))))"

lemma type_ids:
  "property_get_value_type i = U8 \<longleftrightarrow> i \<in> {PAYLOAD_FORMAT_INDICATOR, REQUEST_PROBLEM_INFORMATION,
     REQUEST_RESPONSE_INFORMATION, PUBLISH_MAXIMUM_QOS, RETAIN_AVAILABLE, WILDCARD_SUBSCRIPTION_AVAILABLE,
     SUBSCRIPTION_IDENTIFIER_AVAILABLE, SHARED_SUBSCRIPTION_AVAILABLE}"
  "property_get_value_type i = U16 \<longleftrightarrow> i \<in> {SERVER_KEEP_ALIVE, RECEIVE_MAXIMUM, TOPIC_ALIAS_MAXIMUM, TOPIC_ALIAS}"
  "property_get_value_type i = U32 \<longleftrightarrow> i \<in> {MESSAGE_EXPIRY_INTERVAL, SESSION_EXPIRY_INTERVAL,
     WILL_DELAY_INTERVAL, MAXIMUM_PACKET_SIZE}"
  "property_get_value_type i = VARINT \<longleftrightarrow> i = SUBSCRIPTION_IDENTIFIER"
  "property_get_value_type i = STR_T \<longleftrightarrow> i \<in> {CONTENT_TYPE, RESPONSE_TOPIC, ASSIGNED_CLIENT_IDENTIFIER,
     AUTHENTICATION_METHOD, RESPONSE_INFORMATION, SERVER_REFERENCE, REASON_STRING}"
  "property_get_value_type i = BINARY \<longleftrightarrow> i \<in> {CORRELATION_DATA, AUTHENTICATION_DATA}"
  "property_get_value_type i = STR_PAIR \<longleftrightarrow> i = USER_PROPERTY"
  by (auto simp: property_get_value_type_def)

lemma get16_at_PUT16: "get16_at (pre @ NNI_PUT16 u @ post) (length pre) = Some (unat u)"
  by (simp add: get16_at_def NNI_GET16_PUT16)

lemma get16_at_str:
  assumes "str_ok b" "k = length pre"
  shows "get16_at (pre @ str_enc b @ post) k = Some (blen b)"
proof -
  have "blen b < 65536" using assms(1) by (simp add: str_ok_def)
  then show ?thesis
    using get16_at_PUT16 [of pre "of_nat (blen b)" "str_bytes b @ post"] assms(2)
    by (simp add: str_enc_def unat_of_nat)
qed

lemma fast_read_enc:
  assumes "v \<le> MQTT_MAX_MSG_LEN" "length (write_var_loop 0 v) \<le> len" "len \<le> length (write_var_loop 0 v @ r)"
  shows "fast_read_varint (write_var_loop 0 v @ r) len = Some (v, length (write_var_loop 0 v))"
proof -
  have "read_var_loop (write_var_loop 0 v @ r) len 0 1 0 = Inr (v, length (write_var_loop 0 v))"
    using assms by (subst read_var_loop_iff) simp_all
  then show ?thesis
    unfolding fast_read_varint_def by (rule fast_read_of_read_var)
qed

text \<open>One round of the walk, by the type of the property.\<close>

lemma fast_expiry_scalar:
  assumes n: "pos < end_pos" "pos < length b" "b ! pos \<noteq> MESSAGE_EXPIRY_INTERVAL"
  shows "property_get_value_type (b ! pos) = U8 \<Longrightarrow>
      fast_expiry_loop b end_pos pos = fast_expiry_loop b end_pos (pos + 1 + 1)"
    "property_get_value_type (b ! pos) = U16 \<Longrightarrow>
      fast_expiry_loop b end_pos pos = fast_expiry_loop b end_pos (pos + 1 + 2)"
    "property_get_value_type (b ! pos) = U32 \<Longrightarrow>
      fast_expiry_loop b end_pos pos = fast_expiry_loop b end_pos (pos + 1 + 4)"
  unfolding type_ids insert_iff empty_iff
  by (subst fast_expiry_loop.simps, use n in \<open>elim disjE FalseE; simp add: Let_def\<close>)+

lemma fast_expiry_varint:
  assumes "pos < end_pos" "pos < length b" "b ! pos = SUBSCRIPTION_IDENTIFIER"
    "fast_read_varint (drop (pos + 1) b) (end_pos - (pos + 1)) = Some (v, n)"
  shows "fast_expiry_loop b end_pos pos = fast_expiry_loop b end_pos (pos + 1 + n)"
  using assms by (subst fast_expiry_loop.simps) (simp add: Let_def)

lemma fast_expiry_str:
  assumes "pos < end_pos" "pos < length b" "property_get_value_type (b ! pos) \<in> {STR_T, BINARY}"
    "get16_at b (pos + 1) = Some n" "pos + 3 + n \<le> end_pos"
  shows "fast_expiry_loop b end_pos pos = fast_expiry_loop b end_pos (pos + 1 + (2 + n))"
proof -
  have "b ! pos \<in> {CONTENT_TYPE, RESPONSE_TOPIC, ASSIGNED_CLIENT_IDENTIFIER, AUTHENTICATION_METHOD,
      AUTHENTICATION_DATA, RESPONSE_INFORMATION, SERVER_REFERENCE, REASON_STRING, CORRELATION_DATA}"
    using assms(3) unfolding insert_iff empty_iff type_ids by blast
  then show ?thesis
    using assms(1,2,4,5) unfolding insert_iff empty_iff
    by (subst fast_expiry_loop.simps) (elim disjE FalseE; simp add: Let_def)
qed

lemma fast_expiry_pair:
  assumes "pos < end_pos" "pos < length b" "b ! pos = USER_PROPERTY" "get16_at b (pos + 1) = Some k"
    "get16_at b (pos + 1 + (2 + k)) = Some n" "pos + 5 + k + n \<le> end_pos"
  shows "fast_expiry_loop b end_pos pos = fast_expiry_loop b end_pos (pos + 1 + (2 + k) + (2 + n))"
  using assms by (subst fast_expiry_loop.simps) (simp add: Let_def)

lemma fast_expiry_step:
  assumes ok: "prop_ok p" and other: "p_id p \<noteq> MESSAGE_EXPIRY_INTERVAL"
    and e: "length pre + length (prop_enc p) \<le> end_pos" "end_pos \<le> length (pre @ prop_enc p @ post)"
  shows "fast_expiry_loop (pre @ prop_enc p @ post) end_pos (length pre) =
    fast_expiry_loop (pre @ prop_enc p @ post) end_pos (length pre + length (prop_enc p))"
proof -
  let ?b = "pre @ prop_enc p @ post"
  have t: "property_get_value_type (p_id p) = p_type p" "value_ok (p_value p)"
    using ok by (simp_all add: prop_ok_def)
  have l: "length (prop_enc p) = 1 + value_len (p_value p)" using ok by (rule length_prop_enc)
  have n: "?b ! length pre = p_id p" "length pre < length ?b" "length pre < end_pos"
    using e l by (simp_all add: prop_enc_def nth_append)
  have b: "?b = (pre @ [p_id p]) @ value_enc (p_value p) @ post" by (simp add: prop_enc_def)
  have gs: "get16_at ?b (length pre + 1) = Some (blen s)" if "p_value p = V_str s \<or> p_value p = V_binary s" for s
    using get16_at_str [of s "length pre + 1" "pre @ [p_id p]" post] that t(2) by (auto simp: b)
  show ?thesis
  proof (cases "p_value p")
    case (V_varint v)
    then have i: "p_id p = SUBSCRIPTION_IDENTIFIER" and v: "v \<le> MQTT_MAX_MSG_LEN"
      using t by (simp_all add: p_type_def type_ids)
    have lv: "length (write_var_loop 0 v) = byte_number_for_variable_length v"
      using v by (intro length_write_var) simp
    have "fast_read_varint (drop (length pre + 1) ?b) (end_pos - (length pre + 1)) =
        Some (v, length (write_var_loop 0 v))"
      using fast_read_enc [OF v, of "end_pos - (length pre + 1)" post] V_varint e l lv
      by (simp add: b)
    from fast_expiry_varint [OF n(3,2) _ this] show ?thesis
      using V_varint i l n(1) lv by simp
  next
    case (V_strpair kv)
    then have i: "p_id p = USER_PROPERTY" and ok: "str_ok (kv_key kv)" "str_ok (kv_value kv)"
      using t by (simp_all add: p_type_def type_ids)
    have g: "get16_at ?b (length pre + 1) = Some (blen (kv_key kv))"
      using get16_at_str [OF ok(1), of "length pre + 1" "pre @ [p_id p]" "str_enc (kv_value kv) @ post"] V_strpair
      by (simp add: b)
    have g': "get16_at ?b (length pre + 1 + (2 + blen (kv_key kv))) = Some (blen (kv_value kv))"
      using get16_at_str [OF ok(2), of "length pre + 1 + (2 + blen (kv_key kv))" "pre @ [p_id p] @ str_enc (kv_key kv)" post]
        V_strpair ok(1) by (simp add: b)
    from fast_expiry_pair [OF n(3,2) _ g g'] show ?thesis
      using V_strpair i l n(1) e by (simp add: ac_simps)
  qed (use fast_expiry_scalar [OF n(3,2)] fast_expiry_str [OF n(3,2)] l n(1) other t e gs in
      \<open>simp_all add: p_type_def add.commute [of 5]\<close>)
qed


lemma fast_expiry_found:
  assumes "prop_ok p" "p_id p = MESSAGE_EXPIRY_INTERVAL" "length pre + length (prop_enc p) \<le> end_pos"
    "p_value p = V_u32 v"
  shows "fast_expiry_loop (pre @ prop_enc p @ post) end_pos (length pre) = Some (Some v)"
proof -
  have e: "prop_enc p = MESSAGE_EXPIRY_INTERVAL # NNI_PUT32 v" using assms(2,4) by (simp add: prop_enc_def)
  have g: "NNI_GET32 (pre @ prop_enc p @ post) (length pre + 1) = v"
    using NNI_GET32_PUT32 [of "pre @ [MESSAGE_EXPIRY_INTERVAL]" v post] by (simp add: e)
  show ?thesis
    using assms(3) g by (subst fast_expiry_loop.simps) (simp add: e Let_def nth_append)
qed

text \<open>The value of the first expiry interval in a list.\<close>

definition expiry_of :: "property list \<Rightarrow> u32 option" where
  "expiry_of ps =
     (case property_get_value (Some ps) MESSAGE_EXPIRY_INTERVAL of Some (V_u32 v) \<Rightarrow> Some v | _ \<Rightarrow> None)"

lemma fast_expiry_props:
  "\<forall>p \<in> set ps. prop_ok p \<Longrightarrow>
   fast_expiry_loop (pre @ props_enc ps @ post) (length pre + length (props_enc ps)) (length pre) =
     Some (expiry_of ps)"
proof (induction ps arbitrary: pre)
  case Nil
  show ?case by (subst fast_expiry_loop.simps) (simp add: expiry_of_def property_get_value_def)
next
  case (Cons p ps)
  let ?e = "length pre + length (props_enc (p # ps))" and ?post = "props_enc ps @ post"
  have ok: "prop_ok p" using Cons.prems by simp
  show ?case
  proof (cases "p_id p = MESSAGE_EXPIRY_INTERVAL")
    case True
    then obtain v where v: "p_value p = V_u32 v"
      using prop_ok_value(3) [OF ok] by auto
    have "expiry_of (p # ps) = Some v"
      using True v by (simp add: expiry_of_def property_get_value_def)
    then show ?thesis
      using fast_expiry_found [OF ok True _ v, of pre ?e ?post] by simp
  next
    case False
    have "fast_expiry_loop (pre @ prop_enc p @ ?post) ?e (length pre) =
        fast_expiry_loop (pre @ prop_enc p @ ?post) ?e (length pre + length (prop_enc p))"
      by (rule fast_expiry_step [OF ok False]) simp_all
    also have "\<dots> = Some (expiry_of ps)"
      using Cons.IH [of "pre @ prop_enc p"] Cons.prems by (simp add: add.assoc)
    also have "expiry_of ps = expiry_of (p # ps)"
      using False by (simp add: expiry_of_def property_get_value_def)
    finally show ?thesis by simp
  qed
qed

text \<open>C25: The fast path for the message expiry interval agrees with the decoder. On a PUBLISH whose body
  holds a topic, a packet identifier for a quality of service above zero, a list of well-typed
  properties and a payload, \<^verbatim>\<open>fast_parse_msg_expiry_val\<close> reads inside the body only and answers with the
  value of the first message expiry interval in the list that decoding at that place returns, or with
  false when there is none.\<close>

theorem fast_expiry_agrees:
  assumes "st" and "mem_ok al" and "msg_wf m" and "str_ok topic" and "\<forall>p \<in> set ps. prop_ok p"
    and "length (props_enc ps) \<le> MQTT_MAX_MSG_LEN"
    and "pid = (if drop_bit 1 (m_header_buf m ! 0 AND 0x06) > 0 then NNI_PUT16 packet_id else [])"
    and "nni_msg_body m = str_enc topic @ pid @ write_var_loop 0 (length (props_enc ps)) @ props_enc ps @ payload"
  shows "fast_parse_msg_expiry_val (Some m) = Some (expiry_of ps) \<and>
    (\<exists>pos' n. decode_properties st al m (length (str_enc topic @ pid)) cp =
       Some (if ps = [] then None else Some (map (as_copy cp) ps), pos', n))"
proof -
  let ?n = "length (props_enc ps)" and ?pre = "str_enc topic @ pid"
  let ?k = "length (write_var_loop 0 ?n)"
  have len: "nni_msg_len m = length (nni_msg_body m)" using assms(3) by simp
  have b: "nni_msg_body m = ?pre @ write_var_loop 0 ?n @ props_enc (map (as_copy cp) ps) @ payload"
    using assms(8) by simp
  have dec: "decode_properties st al m (length ?pre) cp =
    Some (if ps = [] then None else Some (map (as_copy cp) ps), length ?pre + ?k + ?n, ?n)"
    using decode_buf_properties_ok [OF assms(1,2) _ _ assms(6) b, of cp] assms(5)
    by (simp add: decode_properties_def len)
  have g: "get16_at (nni_msg_body m) 0 = Some (blen topic)"
    using get16_at_str [OF assms(4), of 0 "[]"] assms(8) by simp
  have pre: "(if drop_bit 1 (m_header_buf m ! 0 AND 0x06) > 0 then 2 + blen topic + 2 else 2 + blen topic) =
      length ?pre"
    using assms(4,7) by simp
  have v: "fast_read_varint (drop (length ?pre) (nni_msg_body m)) (length (nni_msg_body m) - length ?pre) =
      Some (?n, ?k)"
    using fast_read_enc [OF assms(6), of "length (nni_msg_body m) - length ?pre" "props_enc ps @ payload"]
    by (simp add: assms(8))
  have z: "?n = 0 \<longleftrightarrow> ps = []"
    by (cases ps) (simp_all add: prop_enc_def)
  have loop: "fast_expiry_loop (nni_msg_body m) (length ?pre + ?k + ?n) (length ?pre + ?k) = Some (expiry_of ps)"
    using fast_expiry_props [OF assms(5), of "?pre @ write_var_loop 0 ?n" payload]
    by (simp add: assms(8) add.assoc)
  have bl: "length (nni_msg_body m) = length ?pre + ?k + ?n + length payload" "2 \<le> length ?pre" "0 < ?k"
    using assms(4) by (simp_all add: assms(8))
  have "fast_parse_msg_expiry_val (Some m) = Some (expiry_of ps)"
    unfolding fast_parse_msg_expiry_val_def option.case Let_def len g pre v prod.case
    using loop z bl by (auto simp: expiry_of_def property_get_value_def)
  with dec show ?thesis by blast
qed


definition some_topic :: mqtt_buf where
  "some_topic = \<lparr>blen = 1, bbuf = Some [0x61]\<rparr>"

definition some_publish :: "unit nng_msg" where
  "some_publish = msg_put (\<lambda>_. True) zero_msg
     (str_enc some_topic @ [] @ write_var_loop 0 (length (props_enc some_props)) @ props_enc some_props @ [0x68, 0x69])"

lemma zero_msg_fields: "nni_msg_body zero_msg = []" "m_header_buf zero_msg = replicate NNI_HEADER_SIZE 0"
  by (simp_all add: nni_msg_body_def zero_msg_def)

theorem fast_expiry_agrees_witness:
  "True \<and> mem_ok (\<lambda>_. True) \<and> msg_wf some_publish \<and> str_ok some_topic \<and>
   length (props_enc some_props) \<le> MQTT_MAX_MSG_LEN \<and>
   [] = (if drop_bit 1 (m_header_buf some_publish ! 0 AND 0x06) > 0 then NNI_PUT16 7 else []) \<and>
   nni_msg_body some_publish = str_enc some_topic @ [] @ write_var_loop 0 (length (props_enc some_props)) @
     props_enc some_props @ [0x68, 0x69] \<and>
   fast_parse_msg_expiry_val (Some some_publish) = Some (expiry_of some_props) \<and>
   (\<exists>pos' n. decode_properties True (\<lambda>_. True) some_publish (length (str_enc some_topic @ [])) False =
      Some (if some_props = [] then None else Some (map (as_copy False) some_props), pos', n))"
proof -
  have mem: "mem_ok (\<lambda>_. True)" by (simp add: mem_ok_def)
  have h: "msg_wf some_publish" "str_ok some_topic" "length (props_enc some_props) \<le> MQTT_MAX_MSG_LEN"
    "[] = (if drop_bit 1 (m_header_buf some_publish ! 0 AND 0x06) > 0 then NNI_PUT16 7 else [])"
    "nni_msg_body some_publish = str_enc some_topic @ [] @ write_var_loop 0 (length (props_enc some_props)) @
      props_enc some_props @ [0x68, 0x69]"
    using mem by (simp_all add: some_publish_def some_topic_def str_ok_def zero_msg_fields)
      (simp add: some_props_def prop_enc_def str_enc_def str_bytes_def)
  show ?thesis
    using fast_expiry_agrees [OF TrueI mem h(1,2) some_props_ok h(3,4,5), of False] mem h some_props_ok by blast
qed

end
