(* ===== verification/MqttMsg.thy ===== *)
theory MqttMsg
  imports MqttProperty
begin

text \<open>
  The protocol data of an MQTT message: the structs of \<^verbatim>\<open>supplemental/mqtt/mqtt_msg.h\<close>, the accessors of
  \<^verbatim>\<open>supplemental/mqtt/mqtt_msg.c\<close>, and the release and duplication of the data in
  \<^verbatim>\<open>supplemental/mqtt/mqtt_codec.c\<close>.

  The unions of variable headers and payloads are one record with the members of all packet types;
  the code uses the members of one type at a time. Types with the same layout share their members:
  CONNECT and PUBLISH (\<open>vh_name\<close> is the protocol name or the topic, \<open>vh_version\<close> the protocol version,
  \<open>vh_u16\<close> the keep-alive time or the packet identifier, \<open>vh_props\<close> the properties); PUBACK, PUBREC, PUBREL
  and PUBCOMP; SUBSCRIBE, SUBACK, UNSUBSCRIBE and UNSUBACK, the two acknowledgements also in the payload;
  DISCONNECT and AUTH. The bit fields of the fixed header and of the connect flags
  are bytes in the little-endian layout. Arrays with a counter are lists.

  A pointer to a property list can dangle, since the code frees lists without clearing the pointer.
  \<open>None\<close> as the result of a function stands for a null or dangling pointer that is used, or for a
  failed assertion.

  Contents: the data; the accessors; topic arrays; release and duplication; what the accessors and
  the duplication do.
\<close>

section \<open>Protocol data\<close>

datatype props_ptr = P_null | P_freed | P_list "property list"

record mqtt_topic_qos =
  tq_topic :: mqtt_buf
  tq_qos :: u8
  tq_nolocal :: u8
  tq_rap :: u8
  tq_retain_handling :: u8

record mqtt_msg =
  fh_common :: u8
  remaining_length :: nat
  vh_name :: mqtt_buf
  vh_version :: u8
  conn_flags :: u8
  vh_u16 :: u16
  vh_props :: props_ptr
  ca_flags :: u8
  conn_return_code :: u8
  ca_props :: props_ptr
  ack_packet_id :: u16
  ack_code :: u8
  ack_props :: props_ptr
  sub_packet_id :: u16
  sub_props :: props_ptr
  reason_code :: u8
  disc_props :: props_ptr
  client_id :: mqtt_buf
  will_props :: props_ptr
  will_topic :: mqtt_buf
  will_msg :: mqtt_buf
  user_name :: mqtt_buf
  password :: mqtt_buf
  pub_payload :: mqtt_buf
  topics :: "mqtt_topic_qos list"
  ret_codes :: bytes
  un_topics :: "mqtt_buf list"
  used_bytes :: nat
  is_decoded :: bool
  is_copied :: bool
  initialized :: bool
  sub_retain :: bool
  msg_aio :: "nat option"

type_synonym mqtt_nng_msg = "mqtt_msg nng_msg"

abbreviation NNG_MQTT_CONNECT :: u8 where "NNG_MQTT_CONNECT \<equiv> 0x01"
abbreviation NNG_MQTT_CONNACK :: u8 where "NNG_MQTT_CONNACK \<equiv> 0x02"
abbreviation NNG_MQTT_PUBLISH :: u8 where "NNG_MQTT_PUBLISH \<equiv> 0x03"
abbreviation NNG_MQTT_PUBACK :: u8 where "NNG_MQTT_PUBACK \<equiv> 0x04"
abbreviation NNG_MQTT_PUBREC :: u8 where "NNG_MQTT_PUBREC \<equiv> 0x05"
abbreviation NNG_MQTT_PUBREL :: u8 where "NNG_MQTT_PUBREL \<equiv> 0x06"
abbreviation NNG_MQTT_PUBCOMP :: u8 where "NNG_MQTT_PUBCOMP \<equiv> 0x07"
abbreviation NNG_MQTT_SUBSCRIBE :: u8 where "NNG_MQTT_SUBSCRIBE \<equiv> 0x08"
abbreviation NNG_MQTT_SUBACK :: u8 where "NNG_MQTT_SUBACK \<equiv> 0x09"
abbreviation NNG_MQTT_UNSUBSCRIBE :: u8 where "NNG_MQTT_UNSUBSCRIBE \<equiv> 0x0A"
abbreviation NNG_MQTT_UNSUBACK :: u8 where "NNG_MQTT_UNSUBACK \<equiv> 0x0B"
abbreviation NNG_MQTT_PINGREQ :: u8 where "NNG_MQTT_PINGREQ \<equiv> 0x0C"
abbreviation NNG_MQTT_PINGRESP :: u8 where "NNG_MQTT_PINGRESP \<equiv> 0x0D"
abbreviation NNG_MQTT_DISCONNECT :: u8 where "NNG_MQTT_DISCONNECT \<equiv> 0x0E"
abbreviation NNG_MQTT_AUTH :: u8 where "NNG_MQTT_AUTH \<equiv> 0x0F"

text \<open>The bit fields of the fixed header byte.\<close>

definition packet_type :: "mqtt_msg \<Rightarrow> u8" where
  "packet_type d = drop_bit 4 (fh_common d)"

definition set_packet_type :: "u8 \<Rightarrow> mqtt_msg \<Rightarrow> mqtt_msg" where
  "set_packet_type t d = d\<lparr>fh_common := (fh_common d AND 0x0F) OR push_bit 4 t\<rparr>"

definition publish_qos :: "mqtt_msg \<Rightarrow> u8" where
  "publish_qos d = drop_bit 1 (fh_common d AND 0x06)"

text \<open>The bit fields of the connect flags.\<close>

definition will_flag :: "u8 \<Rightarrow> bool" where "will_flag f = bit f 2"
definition password_flag :: "u8 \<Rightarrow> bool" where "password_flag f = bit f 6"
definition username_flag :: "u8 \<Rightarrow> bool" where "username_flag f = bit f 7"

definition set_field :: "u8 \<Rightarrow> nat \<Rightarrow> u8 \<Rightarrow> u8 \<Rightarrow> u8" where
  "set_field msk off v b = (b AND NOT msk) OR (push_bit off v AND msk)"

definition zero_mqtt :: mqtt_msg where
  "zero_mqtt =
     \<lparr>fh_common = 0, remaining_length = 0, vh_name = buf0, vh_version = 0, conn_flags = 0,
      vh_u16 = 0, vh_props = P_null, ca_flags = 0, conn_return_code = 0, ca_props = P_null,
      ack_packet_id = 0, ack_code = 0, ack_props = P_null, sub_packet_id = 0, sub_props = P_null, reason_code = 0,
      disc_props = P_null, client_id = buf0, will_props = P_null, will_topic = buf0, will_msg = buf0,
      user_name = buf0, password = buf0, pub_payload = buf0, topics = [], ret_codes = [],
      un_topics = [], used_bytes = 0, is_decoded = False, is_copied = False, initialized = False,
      sub_retain = False, msg_aio = None\<rparr>"

text \<open>
  The default keep-alive time of 30 is stored before the packet type is known. It occupies the bytes
  that are the packet identifier of a PUBLISH, which therefore starts as 30; the flag of a clean
  session falls into padding of that struct.
\<close>

definition nni_proto_data_init :: "mqtt_msg \<Rightarrow> mqtt_msg" where
  "nni_proto_data_init d =
     d\<lparr>conn_flags := set_field 0x02 1 1 (conn_flags d), vh_u16 := 30, vh_props := P_null,
       ca_props := P_null, disc_props := P_null, ack_props := P_null, sub_props := P_null\<rparr>"

text \<open>
  \<open>ops\<close> is the table \<^verbatim>\<open>proto_msg_ops\<close> with the release and duplication functions; the struct comes zeroed.
\<close>

definition nni_mqtt_msg_proto_data_alloc ::
    "bool \<Rightarrow> mqtt_msg proto_msg_ops \<Rightarrow> mqtt_nng_msg \<Rightarrow> int \<times> mqtt_nng_msg" where
  "nni_mqtt_msg_proto_data_alloc st ops m =
     (if \<not> st then (NNG_ENOMEM, m)
      else
        (let d = (nni_proto_data_init zero_mqtt)\<lparr>initialized := False\<rparr> in
         (0, nni_msg_set_proto_data m (Some ops) (Some d))))"

text \<open>The message of a failed second allocation is kept in \<^verbatim>\<open>*msg\<close>.\<close>

definition nni_mqtt_msg_alloc ::
    "bool \<Rightarrow> bool \<Rightarrow> allocator \<Rightarrow> mqtt_msg proto_msg_ops \<Rightarrow> nat \<Rightarrow> (int \<times> mqtt_nng_msg option) option" where
  "nni_mqtt_msg_alloc st st2 al ops sz =
     (case nni_msg_alloc st al sz of
        None \<Rightarrow> None
      | Some (rv, None) \<Rightarrow> Some (rv, None)
      | Some (rv, Some m) \<Rightarrow>
          if rv \<noteq> 0 then Some (rv, Some m)
          else (case nni_mqtt_msg_proto_data_alloc st2 ops m of (rv, m') \<Rightarrow> Some (rv, Some m')))"

section \<open>Accessors\<close>

definition upd :: "mqtt_nng_msg \<Rightarrow> (mqtt_msg \<Rightarrow> mqtt_msg) \<Rightarrow> mqtt_nng_msg option" where
  "upd m f = (case m_proto_data m of None \<Rightarrow> None | Some d \<Rightarrow> Some (m\<lparr>m_proto_data := Some (f d)\<rparr>))"

definition sel :: "mqtt_nng_msg \<Rightarrow> (mqtt_msg \<Rightarrow> 'a) \<Rightarrow> 'a option" where
  "sel m f = map_option f (m_proto_data m)"

definition nni_mqtt_msg_set_packet_type :: "mqtt_nng_msg \<Rightarrow> u8 \<Rightarrow> mqtt_nng_msg option" where
  "nni_mqtt_msg_set_packet_type m t = upd m (\<lambda>d. set_packet_type t d)"

definition nni_mqtt_msg_get_packet_type :: "mqtt_nng_msg \<Rightarrow> u8 option" where
  "nni_mqtt_msg_get_packet_type m = sel m packet_type"

text \<open>The assertion on the packet type fails for types without an identifier.\<close>

definition nni_mqtt_msg_set_packet_id :: "mqtt_nng_msg \<Rightarrow> u16 \<Rightarrow> mqtt_nng_msg option" where
  "nni_mqtt_msg_set_packet_id m packet_id =
     (case m_proto_data m of
        None \<Rightarrow> None
      | Some d \<Rightarrow>
          if packet_type d \<in> {NNG_MQTT_PUBACK, NNG_MQTT_PUBCOMP, NNG_MQTT_PUBREC, NNG_MQTT_PUBREL} then
            upd m (\<lambda>d. d\<lparr>ack_packet_id := packet_id\<rparr>)
          else if packet_type d = NNG_MQTT_PUBLISH then upd m (\<lambda>d. d\<lparr>vh_u16 := packet_id\<rparr>)
          else if packet_type d \<in> {NNG_MQTT_SUBACK, NNG_MQTT_SUBSCRIBE, NNG_MQTT_UNSUBACK, NNG_MQTT_UNSUBSCRIBE} then
            upd m (\<lambda>d. d\<lparr>sub_packet_id := packet_id\<rparr>)
          else None)"

definition nni_mqtt_msg_get_packet_id :: "mqtt_nng_msg \<Rightarrow> u16 option" where
  "nni_mqtt_msg_get_packet_id m =
     (case m_proto_data m of
        None \<Rightarrow> None
      | Some d \<Rightarrow>
          if packet_type d \<in> {NNG_MQTT_PUBACK, NNG_MQTT_PUBCOMP, NNG_MQTT_PUBREC, NNG_MQTT_PUBREL} then
            Some (ack_packet_id d)
          else if packet_type d = NNG_MQTT_PUBLISH then Some (vh_u16 d)
          else if packet_type d \<in> {NNG_MQTT_SUBACK, NNG_MQTT_SUBSCRIBE, NNG_MQTT_UNSUBACK, NNG_MQTT_UNSUBSCRIBE} then
            Some (sub_packet_id d)
          else None)"

definition nni_mqtt_msg_get_publish_property :: "mqtt_nng_msg \<Rightarrow> props_ptr" where
  "nni_mqtt_msg_get_publish_property m = (case m_proto_data m of None \<Rightarrow> P_null | Some d \<Rightarrow> vh_props d)"

definition nni_mqtt_msg_set_publish_property :: "mqtt_nng_msg \<Rightarrow> props_ptr \<Rightarrow> mqtt_nng_msg option" where
  "nni_mqtt_msg_set_publish_property m prop = upd m (\<lambda>d. d\<lparr>vh_props := prop\<rparr>)"

definition nni_mqtt_msg_set_publish_qos :: "mqtt_nng_msg \<Rightarrow> u8 \<Rightarrow> mqtt_nng_msg option" where
  "nni_mqtt_msg_set_publish_qos m qos = upd m (\<lambda>d. d\<lparr>fh_common := set_field 0x06 1 qos (fh_common d)\<rparr>)"

definition nni_mqtt_msg_get_publish_qos :: "mqtt_nng_msg \<Rightarrow> u8 option" where
  "nni_mqtt_msg_get_publish_qos m = sel m publish_qos"

definition nni_mqtt_msg_set_publish_retain :: "mqtt_nng_msg \<Rightarrow> bool \<Rightarrow> mqtt_nng_msg option" where
  "nni_mqtt_msg_set_publish_retain m retain = upd m (\<lambda>d. d\<lparr>fh_common := set_field 0x01 0 (of_bool retain) (fh_common d)\<rparr>)"

definition nni_mqtt_msg_get_publish_retain :: "mqtt_nng_msg \<Rightarrow> bool option" where
  "nni_mqtt_msg_get_publish_retain m = sel m (\<lambda>d. bit (fh_common d) 0)"

definition nni_mqtt_msg_set_publish_dup :: "mqtt_nng_msg \<Rightarrow> bool \<Rightarrow> mqtt_nng_msg option" where
  "nni_mqtt_msg_set_publish_dup m dup = upd m (\<lambda>d. d\<lparr>fh_common := set_field 0x08 3 (of_bool dup) (fh_common d)\<rparr>)"

definition nni_mqtt_msg_get_publish_dup :: "mqtt_nng_msg \<Rightarrow> bool option" where
  "nni_mqtt_msg_get_publish_dup m = sel m (\<lambda>d. bit (fh_common d) 3)"

text \<open>
  A C string is given by its bytes without the terminator. The result is that of \<^verbatim>\<open>mqtt_buf_create\<close>.
\<close>

definition nni_mqtt_msg_set_publish_topic ::
    "allocator \<Rightarrow> mqtt_nng_msg \<Rightarrow> bytes \<Rightarrow> (int \<times> mqtt_nng_msg) option" where
  "nni_mqtt_msg_set_publish_topic al m topic =
     (case m_proto_data m of
        None \<Rightarrow> None
      | Some d \<Rightarrow>
          (let old = (if is_copied d then mqtt_buf_free (vh_name d) else vh_name d) in
           map_option (\<lambda>(rv, b). (rv, m\<lparr>m_proto_data := Some (d\<lparr>vh_name := b\<rparr>)\<rparr>))
             (mqtt_buf_create al old (Some topic) (wrap32 (length topic)))))"

definition nni_mqtt_msg_set_publish_topic_len :: "mqtt_nng_msg \<Rightarrow> nat \<Rightarrow> int \<times> mqtt_nng_msg" where
  "nni_mqtt_msg_set_publish_topic_len m len =
     (case m_proto_data m of
        None \<Rightarrow> (-1, m)
      | Some d \<Rightarrow> (0, m\<lparr>m_proto_data := Some (d\<lparr>vh_name := (vh_name d)\<lparr>blen := len\<rparr>\<rparr>)\<rparr>))"

definition nni_mqtt_msg_set_sub_retain_bool :: "mqtt_nng_msg \<Rightarrow> bool \<Rightarrow> mqtt_nng_msg" where
  "nni_mqtt_msg_set_sub_retain_bool m retain =
     (case m_proto_data m of
        None \<Rightarrow> m
      | Some d \<Rightarrow> m\<lparr>m_proto_data := Some (d\<lparr>sub_retain := retain\<rparr>)\<rparr>)"

definition nni_mqtt_msg_get_sub_retain_bool :: "mqtt_nng_msg \<Rightarrow> bool" where
  "nni_mqtt_msg_get_sub_retain_bool m =
     (case m_proto_data m of None \<Rightarrow> False | Some d \<Rightarrow> sub_retain d)"

definition nni_mqtt_msg_get_publish_topic :: "mqtt_nng_msg \<Rightarrow> (bytes option \<times> nat) option" where
  "nni_mqtt_msg_get_publish_topic m = sel m (\<lambda>d. (bbuf (vh_name d), blen (vh_name d)))"

definition nni_mqtt_msg_set_publish_payload ::
    "allocator \<Rightarrow> mqtt_nng_msg \<Rightarrow> bytes option \<Rightarrow> nat \<Rightarrow> (int \<times> mqtt_nng_msg) option" where
  "nni_mqtt_msg_set_publish_payload al m data len =
     (case m_proto_data m of
        None \<Rightarrow> Some (-1, m)
      | Some d \<Rightarrow>
          (let old = (if is_copied d then mqtt_buf_free (pub_payload d) else pub_payload d) in
           map_option (\<lambda>(rv, b). (rv, m\<lparr>m_proto_data := Some (d\<lparr>pub_payload := b\<rparr>)\<rparr>))
             (mqtt_buf_create al old data len)))"

definition nni_mqtt_msg_get_publish_payload :: "mqtt_nng_msg \<Rightarrow> (bytes option \<times> nat) option" where
  "nni_mqtt_msg_get_publish_payload m = sel m (\<lambda>d. (bbuf (pub_payload d), blen (pub_payload d)))"

definition nni_mqtt_msg_set_publish_packet_id :: "mqtt_nng_msg \<Rightarrow> u16 \<Rightarrow> mqtt_nng_msg option" where
  "nni_mqtt_msg_set_publish_packet_id m packet_id = upd m (\<lambda>d. d\<lparr>vh_u16 := packet_id\<rparr>)"

definition nni_mqtt_msg_get_publish_packet_id :: "mqtt_nng_msg \<Rightarrow> u16 option" where
  "nni_mqtt_msg_get_publish_packet_id m = sel m vh_u16"

definition nni_mqtt_msg_set_puback_packet_id :: "mqtt_nng_msg \<Rightarrow> u16 \<Rightarrow> mqtt_nng_msg option" where
  "nni_mqtt_msg_set_puback_packet_id m packet_id = upd m (\<lambda>d. d\<lparr>ack_packet_id := packet_id\<rparr>)"

definition nni_mqtt_msg_get_puback_packet_id :: "mqtt_nng_msg \<Rightarrow> u16 option" where
  "nni_mqtt_msg_get_puback_packet_id m = sel m ack_packet_id"

definition nni_mqtt_msg_get_puback_property :: "mqtt_nng_msg \<Rightarrow> props_ptr option" where
  "nni_mqtt_msg_get_puback_property m = sel m ack_props"

definition nni_mqtt_msg_set_puback_property :: "mqtt_nng_msg \<Rightarrow> props_ptr \<Rightarrow> mqtt_nng_msg option" where
  "nni_mqtt_msg_set_puback_property m prop = upd m (\<lambda>d. d\<lparr>ack_props := prop\<rparr>)"

definition nni_mqtt_msg_set_pubrec_packet_id :: "mqtt_nng_msg \<Rightarrow> u16 \<Rightarrow> mqtt_nng_msg option" where
  "nni_mqtt_msg_set_pubrec_packet_id m packet_id = upd m (\<lambda>d. d\<lparr>ack_packet_id := packet_id\<rparr>)"

definition nni_mqtt_msg_get_pubrec_packet_id :: "mqtt_nng_msg \<Rightarrow> u16 option" where
  "nni_mqtt_msg_get_pubrec_packet_id m = sel m ack_packet_id"

definition nni_mqtt_msg_get_pubrec_property :: "mqtt_nng_msg \<Rightarrow> props_ptr option" where
  "nni_mqtt_msg_get_pubrec_property m = sel m ack_props"

definition nni_mqtt_msg_set_pubrec_property :: "mqtt_nng_msg \<Rightarrow> props_ptr \<Rightarrow> mqtt_nng_msg option" where
  "nni_mqtt_msg_set_pubrec_property m prop = upd m (\<lambda>d. d\<lparr>ack_props := prop\<rparr>)"

definition nni_mqtt_msg_set_pubrel_packet_id :: "mqtt_nng_msg \<Rightarrow> u16 \<Rightarrow> mqtt_nng_msg option" where
  "nni_mqtt_msg_set_pubrel_packet_id m packet_id = upd m (\<lambda>d. d\<lparr>ack_packet_id := packet_id\<rparr>)"

definition nni_mqtt_msg_get_pubrel_packet_id :: "mqtt_nng_msg \<Rightarrow> u16 option" where
  "nni_mqtt_msg_get_pubrel_packet_id m = sel m ack_packet_id"

definition nni_mqtt_msg_get_pubrel_property :: "mqtt_nng_msg \<Rightarrow> props_ptr option" where
  "nni_mqtt_msg_get_pubrel_property m = sel m ack_props"

definition nni_mqtt_msg_set_pubrel_property :: "mqtt_nng_msg \<Rightarrow> props_ptr \<Rightarrow> mqtt_nng_msg option" where
  "nni_mqtt_msg_set_pubrel_property m prop = upd m (\<lambda>d. d\<lparr>ack_props := prop\<rparr>)"

definition nni_mqtt_msg_set_pubcomp_packet_id :: "mqtt_nng_msg \<Rightarrow> u16 \<Rightarrow> mqtt_nng_msg option" where
  "nni_mqtt_msg_set_pubcomp_packet_id m packet_id = upd m (\<lambda>d. d\<lparr>ack_packet_id := packet_id\<rparr>)"

definition nni_mqtt_msg_get_pubcomp_packet_id :: "mqtt_nng_msg \<Rightarrow> u16 option" where
  "nni_mqtt_msg_get_pubcomp_packet_id m = sel m ack_packet_id"

definition nni_mqtt_msg_get_pubcomp_property :: "mqtt_nng_msg \<Rightarrow> props_ptr option" where
  "nni_mqtt_msg_get_pubcomp_property m = sel m ack_props"

definition nni_mqtt_msg_set_pubcomp_property :: "mqtt_nng_msg \<Rightarrow> props_ptr \<Rightarrow> mqtt_nng_msg option" where
  "nni_mqtt_msg_set_pubcomp_property m prop = upd m (\<lambda>d. d\<lparr>ack_props := prop\<rparr>)"

subsection \<open>Topic arrays\<close>

text \<open>
  The array is created zeroed, or null when there is no memory for its entries of 16 and 24 bytes.
  \<^verbatim>\<open>nni_strdup\<close> copies up to the terminator and not \<open>len\<close> bytes; \<open>None\<close> when the buffer has no terminator
  or is null. Its own allocation may fail and leave a null buffer.
\<close>

definition strlen :: "bytes \<Rightarrow> nat option" where
  "strlen d = (if 0 \<in> set d then Some (length (takeWhile (\<lambda>c. c \<noteq> 0) d)) else None)"

definition nni_mqtt_topic_array_create :: "allocator \<Rightarrow> nat \<Rightarrow> mqtt_buf list option" where
  "nni_mqtt_topic_array_create al n = (if al (16 * n) then Some (replicate n buf0) else None)"

definition nni_mqtt_topic_array_set ::
    "allocator \<Rightarrow> mqtt_buf list option \<Rightarrow> nat \<Rightarrow> bytes option \<Rightarrow> nat \<Rightarrow> mqtt_buf list option" where
  "nni_mqtt_topic_array_set al topic index topic_name len =
     (case topic of
        None \<Rightarrow> None
      | Some arr \<Rightarrow>
          if index \<ge> length arr then None
          else
            (case topic_name of
               None \<Rightarrow> None
             | Some s \<Rightarrow>
                 (case strlen s of
                    None \<Rightarrow> None
                  | Some n \<Rightarrow>
                      Some (arr[index := \<lparr>blen = len, bbuf = (if al (n + 1) then Some (take (n + 1) s) else None)\<rparr>]))))"

definition nni_mqtt_topic_qos_array_create :: "allocator \<Rightarrow> nat \<Rightarrow> mqtt_topic_qos list option" where
  "nni_mqtt_topic_qos_array_create al n =
     (if al (24 * n)
      then Some (replicate n \<lparr>tq_topic = buf0, tq_qos = 0, tq_nolocal = 0, tq_rap = 0, tq_retain_handling = 0\<rparr>)
      else None)"

text \<open>The buffer gets a terminator behind the copied bytes, which the length does not count.\<close>

definition nni_mqtt_topic_qos_array_set ::
    "allocator \<Rightarrow> mqtt_topic_qos list option \<Rightarrow> nat \<Rightarrow> bytes option \<Rightarrow> nat \<Rightarrow> u8 \<Rightarrow> u8 \<Rightarrow> u8 \<Rightarrow> u8 \<Rightarrow>
     mqtt_topic_qos list option" where
  "nni_mqtt_topic_qos_array_set al topic_qos index topic_name len qos nl rap rh =
     (case topic_qos of
        None \<Rightarrow> None
      | Some arr \<Rightarrow>
          if index \<ge> length arr \<or> \<not> al (len + 1) \<or> len > length (case topic_name of None \<Rightarrow> [] | Some s \<Rightarrow> s) then None
          else
            (let s = (case topic_name of None \<Rightarrow> [] | Some s \<Rightarrow> take len s) in
             Some (arr[index := \<lparr>tq_topic = \<lparr>blen = len, bbuf = Some (s @ [0])\<rparr>, tq_qos = qos,
               tq_nolocal = nl, tq_rap = rap, tq_retain_handling = rh\<rparr>])))"

text \<open>The loops that fill an array from index \<open>i\<close> on.\<close>

fun fill_topic_qos ::
    "allocator \<Rightarrow> mqtt_topic_qos list option \<Rightarrow> nat \<Rightarrow> mqtt_topic_qos list \<Rightarrow> mqtt_topic_qos list option" where
  "fill_topic_qos al arr i [] = arr"
| "fill_topic_qos al arr i (t # ts) =
     (case nni_mqtt_topic_qos_array_set al arr i (bbuf (tq_topic t)) (blen (tq_topic t)) (tq_qos t)
             (tq_nolocal t) (tq_rap t) (tq_retain_handling t) of
        None \<Rightarrow> None
      | Some arr' \<Rightarrow> fill_topic_qos al (Some arr') (i + 1) ts)"

fun fill_topics :: "allocator \<Rightarrow> mqtt_buf list option \<Rightarrow> nat \<Rightarrow> mqtt_buf list \<Rightarrow> mqtt_buf list option" where
  "fill_topics al arr i [] = arr"
| "fill_topics al arr i (t # ts) =
     (case nni_mqtt_topic_array_set al arr i (bbuf t) (blen t) of
        None \<Rightarrow> None
      | Some arr' \<Rightarrow> fill_topics al (Some arr') (i + 1) ts)"

text \<open>A null array with a counter of zero is the empty list.\<close>

definition nni_mqtt_msg_set_subscribe_topics ::
    "allocator \<Rightarrow> mqtt_nng_msg \<Rightarrow> mqtt_topic_qos list \<Rightarrow> mqtt_nng_msg option" where
  "nni_mqtt_msg_set_subscribe_topics al m ts =
     (case m_proto_data m of
        None \<Rightarrow> None
      | Some d \<Rightarrow>
          if ts = [] then Some (m\<lparr>m_proto_data := Some (d\<lparr>topics := []\<rparr>)\<rparr>)
          else
            map_option (\<lambda>arr. m\<lparr>m_proto_data := Some (d\<lparr>topics := arr\<rparr>)\<rparr>)
              (fill_topic_qos al (nni_mqtt_topic_qos_array_create al (length ts)) 0 ts))"

definition nni_mqtt_msg_set_unsubscribe_topics ::
    "allocator \<Rightarrow> mqtt_nng_msg \<Rightarrow> mqtt_buf list \<Rightarrow> mqtt_nng_msg option" where
  "nni_mqtt_msg_set_unsubscribe_topics al m ts =
     (case m_proto_data m of
        None \<Rightarrow> None
      | Some d \<Rightarrow>
          if ts = [] then Some (m\<lparr>m_proto_data := Some (d\<lparr>un_topics := []\<rparr>)\<rparr>)
          else
            map_option (\<lambda>arr. m\<lparr>m_proto_data := Some (d\<lparr>un_topics := arr\<rparr>)\<rparr>)
              (fill_topics al (nni_mqtt_topic_array_create al (length ts)) 0 ts))"

definition nni_mqtt_msg_get_subscribe_packet_id :: "mqtt_nng_msg \<Rightarrow> u16 option" where
  "nni_mqtt_msg_get_subscribe_packet_id m = sel m sub_packet_id"

definition nni_mqtt_msg_set_subscribe_packet_id :: "mqtt_nng_msg \<Rightarrow> u16 \<Rightarrow> mqtt_nng_msg option" where
  "nni_mqtt_msg_set_subscribe_packet_id m packet_id = upd m (\<lambda>d. d\<lparr>sub_packet_id := packet_id\<rparr>)"

definition nni_mqtt_msg_get_subscribe_property :: "mqtt_nng_msg \<Rightarrow> props_ptr option" where
  "nni_mqtt_msg_get_subscribe_property m = sel m sub_props"

definition nni_mqtt_msg_set_subscribe_property :: "mqtt_nng_msg \<Rightarrow> props_ptr \<Rightarrow> mqtt_nng_msg option" where
  "nni_mqtt_msg_set_subscribe_property m prop = upd m (\<lambda>d. d\<lparr>sub_props := prop\<rparr>)"

definition nni_mqtt_msg_get_suback_packet_id :: "mqtt_nng_msg \<Rightarrow> u16 option" where
  "nni_mqtt_msg_get_suback_packet_id m = sel m sub_packet_id"

definition nni_mqtt_msg_set_suback_packet_id :: "mqtt_nng_msg \<Rightarrow> u16 \<Rightarrow> mqtt_nng_msg option" where
  "nni_mqtt_msg_set_suback_packet_id m packet_id = upd m (\<lambda>d. d\<lparr>sub_packet_id := packet_id\<rparr>)"

definition nni_mqtt_msg_get_suback_property :: "mqtt_nng_msg \<Rightarrow> props_ptr option" where
  "nni_mqtt_msg_get_suback_property m = sel m sub_props"

definition nni_mqtt_msg_set_suback_property :: "mqtt_nng_msg \<Rightarrow> props_ptr \<Rightarrow> mqtt_nng_msg option" where
  "nni_mqtt_msg_set_suback_property m prop = upd m (\<lambda>d. d\<lparr>sub_props := prop\<rparr>)"

definition nni_mqtt_msg_get_unsubscribe_packet_id :: "mqtt_nng_msg \<Rightarrow> u16 option" where
  "nni_mqtt_msg_get_unsubscribe_packet_id m = sel m sub_packet_id"

definition nni_mqtt_msg_set_unsubscribe_packet_id :: "mqtt_nng_msg \<Rightarrow> u16 \<Rightarrow> mqtt_nng_msg option" where
  "nni_mqtt_msg_set_unsubscribe_packet_id m packet_id = upd m (\<lambda>d. d\<lparr>sub_packet_id := packet_id\<rparr>)"

definition nni_mqtt_msg_get_unsubscribe_property :: "mqtt_nng_msg \<Rightarrow> props_ptr option" where
  "nni_mqtt_msg_get_unsubscribe_property m = sel m sub_props"

definition nni_mqtt_msg_set_unsubscribe_property :: "mqtt_nng_msg \<Rightarrow> props_ptr \<Rightarrow> mqtt_nng_msg option" where
  "nni_mqtt_msg_set_unsubscribe_property m prop = upd m (\<lambda>d. d\<lparr>sub_props := prop\<rparr>)"

definition nni_mqtt_msg_get_unsuback_packet_id :: "mqtt_nng_msg \<Rightarrow> u16 option" where
  "nni_mqtt_msg_get_unsuback_packet_id m = sel m sub_packet_id"

definition nni_mqtt_msg_set_unsuback_packet_id :: "mqtt_nng_msg \<Rightarrow> u16 \<Rightarrow> mqtt_nng_msg option" where
  "nni_mqtt_msg_set_unsuback_packet_id m packet_id = upd m (\<lambda>d. d\<lparr>sub_packet_id := packet_id\<rparr>)"

definition nni_mqtt_msg_get_unsuback_property :: "mqtt_nng_msg \<Rightarrow> props_ptr option" where
  "nni_mqtt_msg_get_unsuback_property m = sel m sub_props"

definition nni_mqtt_msg_set_unsuback_property :: "mqtt_nng_msg \<Rightarrow> props_ptr \<Rightarrow> mqtt_nng_msg option" where
  "nni_mqtt_msg_set_unsuback_property m prop = upd m (\<lambda>d. d\<lparr>sub_props := prop\<rparr>)"

definition nni_mqtt_msg_get_subscribe_topics :: "mqtt_nng_msg \<Rightarrow> mqtt_topic_qos list option" where
  "nni_mqtt_msg_get_subscribe_topics m = sel m topics"

definition nni_mqtt_msg_get_unsubscribe_topics :: "mqtt_nng_msg \<Rightarrow> mqtt_buf list option" where
  "nni_mqtt_msg_get_unsubscribe_topics m = sel m un_topics"

definition nni_mqtt_msg_get_suback_return_codes :: "mqtt_nng_msg \<Rightarrow> bytes option" where
  "nni_mqtt_msg_get_suback_return_codes m = sel m ret_codes"

definition nni_mqtt_msg_get_unsuback_return_codes :: "mqtt_nng_msg \<Rightarrow> bytes option" where
  "nni_mqtt_msg_get_unsuback_return_codes m = sel m ret_codes"

text \<open>Copying into the array fails when there is no memory for it.\<close>

definition nni_mqtt_msg_set_suback_return_codes ::
    "allocator \<Rightarrow> mqtt_nng_msg \<Rightarrow> bytes \<Rightarrow> mqtt_nng_msg option" where
  "nni_mqtt_msg_set_suback_return_codes al m codes =
     (if codes \<noteq> [] \<and> \<not> al (length codes) then None else upd m (\<lambda>d. d\<lparr>ret_codes := codes\<rparr>))"

definition nni_mqtt_msg_set_unsuback_return_codes ::
    "allocator \<Rightarrow> mqtt_nng_msg \<Rightarrow> bytes \<Rightarrow> mqtt_nng_msg option" where
  "nni_mqtt_msg_set_unsuback_return_codes al m codes =
     (if codes \<noteq> [] \<and> \<not> al (length codes) then None else upd m (\<lambda>d. d\<lparr>ret_codes := codes\<rparr>))"

definition nni_mqtt_msg_set_connect_clean_session :: "mqtt_nng_msg \<Rightarrow> bool \<Rightarrow> mqtt_nng_msg option" where
  "nni_mqtt_msg_set_connect_clean_session m clean_session = upd m (\<lambda>d. d\<lparr>conn_flags := set_field 0x02 1 (of_bool clean_session) (conn_flags d)\<rparr>)"

definition nni_mqtt_msg_set_connect_will_retain :: "mqtt_nng_msg \<Rightarrow> bool \<Rightarrow> mqtt_nng_msg option" where
  "nni_mqtt_msg_set_connect_will_retain m will_retain = upd m (\<lambda>d. d\<lparr>conn_flags := set_field 0x20 5 (of_bool will_retain) (conn_flags d)\<rparr>)"

definition nni_mqtt_msg_set_connect_will_qos :: "mqtt_nng_msg \<Rightarrow> u8 \<Rightarrow> mqtt_nng_msg option" where
  "nni_mqtt_msg_set_connect_will_qos m will_qos = upd m (\<lambda>d. d\<lparr>conn_flags := set_field 0x18 3 will_qos (conn_flags d)\<rparr>)"

definition nni_mqtt_msg_set_connect_will_property :: "mqtt_nng_msg \<Rightarrow> props_ptr \<Rightarrow> mqtt_nng_msg option" where
  "nni_mqtt_msg_set_connect_will_property m prop = upd m (\<lambda>d. d\<lparr>will_props := prop\<rparr>)"

definition nni_mqtt_msg_set_connect_proto_version :: "mqtt_nng_msg \<Rightarrow> u8 \<Rightarrow> mqtt_nng_msg option" where
  "nni_mqtt_msg_set_connect_proto_version m version = upd m (\<lambda>d. d\<lparr>vh_version := version\<rparr>)"

definition nni_mqtt_msg_set_publish_proto_version :: "mqtt_nng_msg \<Rightarrow> u8 \<Rightarrow> mqtt_nng_msg option" where
  "nni_mqtt_msg_set_publish_proto_version m version = upd m (\<lambda>d. d\<lparr>vh_version := version\<rparr>)"

definition nni_mqtt_msg_set_disconnect_reason_code :: "mqtt_nng_msg \<Rightarrow> u8 \<Rightarrow> mqtt_nng_msg option" where
  "nni_mqtt_msg_set_disconnect_reason_code m code = upd m (\<lambda>d. d\<lparr>reason_code := code\<rparr>)"

definition nni_mqtt_msg_get_disconnect_reason_code :: "mqtt_nng_msg \<Rightarrow> u8 option" where
  "nni_mqtt_msg_get_disconnect_reason_code m = sel m reason_code"

definition nni_mqtt_msg_set_disconnect_property :: "mqtt_nng_msg \<Rightarrow> props_ptr \<Rightarrow> mqtt_nng_msg option" where
  "nni_mqtt_msg_set_disconnect_property m prop = upd m (\<lambda>d. d\<lparr>disc_props := prop\<rparr>)"

definition nni_mqtt_msg_set_connect_keep_alive :: "mqtt_nng_msg \<Rightarrow> u16 \<Rightarrow> mqtt_nng_msg option" where
  "nni_mqtt_msg_set_connect_keep_alive m t = upd m (\<lambda>d. d\<lparr>vh_u16 := t\<rparr>)"

definition nni_mqtt_msg_get_connect_clean_session :: "mqtt_nng_msg \<Rightarrow> bool option" where
  "nni_mqtt_msg_get_connect_clean_session m = sel m (\<lambda>d. bit (conn_flags d) 1)"

definition nni_mqtt_msg_get_connect_will_retain :: "mqtt_nng_msg \<Rightarrow> bool option" where
  "nni_mqtt_msg_get_connect_will_retain m = sel m (\<lambda>d. bit (conn_flags d) 5)"

definition nni_mqtt_msg_get_connect_will_qos :: "mqtt_nng_msg \<Rightarrow> u8 option" where
  "nni_mqtt_msg_get_connect_will_qos m = sel m (\<lambda>d. drop_bit 3 (conn_flags d AND 0x18))"

definition nni_mqtt_msg_get_connect_will_property :: "mqtt_nng_msg \<Rightarrow> props_ptr option" where
  "nni_mqtt_msg_get_connect_will_property m = sel m will_props"

definition nni_mqtt_msg_get_connect_proto_version :: "mqtt_nng_msg \<Rightarrow> u8 option" where
  "nni_mqtt_msg_get_connect_proto_version m = sel m vh_version"

definition nni_mqtt_msg_get_publish_proto_version :: "mqtt_nng_msg \<Rightarrow> u8 option" where
  "nni_mqtt_msg_get_publish_proto_version m = sel m vh_version"

definition nni_mqtt_msg_get_connect_keep_alive :: "mqtt_nng_msg \<Rightarrow> u16 option" where
  "nni_mqtt_msg_get_connect_keep_alive m = sel m vh_u16"

subsection \<open>Strings of a CONNECT\<close>

text \<open>The result of \<^verbatim>\<open>mqtt_buf_create\<close> is dropped; an old buffer is replaced without being freed.\<close>

definition nni_mqtt_msg_set_connect_client_id :: "allocator \<Rightarrow> mqtt_nng_msg \<Rightarrow> bytes \<Rightarrow> mqtt_nng_msg option" where
  "nni_mqtt_msg_set_connect_client_id al m s =
     (case m_proto_data m of
        None \<Rightarrow> None
      | Some d \<Rightarrow>
          map_option (\<lambda>(rv, b). m\<lparr>m_proto_data := Some (d\<lparr>client_id := b\<rparr>)\<rparr>)
            (mqtt_buf_create al (client_id d) (Some s) (wrap32 (length s))))"

definition nni_mqtt_msg_set_connect_will_topic :: "allocator \<Rightarrow> mqtt_nng_msg \<Rightarrow> bytes \<Rightarrow> mqtt_nng_msg option" where
  "nni_mqtt_msg_set_connect_will_topic al m s =
     (case m_proto_data m of
        None \<Rightarrow> None
      | Some d \<Rightarrow>
          map_option (\<lambda>(rv, b). m\<lparr>m_proto_data := Some (d\<lparr>will_topic := b\<rparr>)\<rparr>)
            (mqtt_buf_create al (will_topic d) (Some s) (wrap32 (length s))))"

definition nni_mqtt_msg_set_connect_user_name :: "allocator \<Rightarrow> mqtt_nng_msg \<Rightarrow> bytes \<Rightarrow> mqtt_nng_msg option" where
  "nni_mqtt_msg_set_connect_user_name al m s =
     (case m_proto_data m of
        None \<Rightarrow> None
      | Some d \<Rightarrow>
          map_option (\<lambda>(rv, b). m\<lparr>m_proto_data := Some (d\<lparr>user_name := b\<rparr>)\<rparr>)
            (mqtt_buf_create al (user_name d) (Some s) (wrap32 (length s))))"

definition nni_mqtt_msg_set_connect_password :: "allocator \<Rightarrow> mqtt_nng_msg \<Rightarrow> bytes \<Rightarrow> mqtt_nng_msg option" where
  "nni_mqtt_msg_set_connect_password al m s =
     (case m_proto_data m of
        None \<Rightarrow> None
      | Some d \<Rightarrow>
          map_option (\<lambda>(rv, b). m\<lparr>m_proto_data := Some (d\<lparr>password := b\<rparr>)\<rparr>)
            (mqtt_buf_create al (password d) (Some s) (wrap32 (length s))))"

definition nni_mqtt_msg_set_connect_will_msg ::
    "allocator \<Rightarrow> mqtt_nng_msg \<Rightarrow> bytes option \<Rightarrow> nat \<Rightarrow> mqtt_nng_msg option" where
  "nni_mqtt_msg_set_connect_will_msg al m data len =
     (case m_proto_data m of
        None \<Rightarrow> None
      | Some d \<Rightarrow>
          map_option (\<lambda>(rv, b). m\<lparr>m_proto_data := Some (d\<lparr>will_msg := b\<rparr>)\<rparr>)
            (mqtt_buf_create al (will_msg d) data len))"

definition nni_mqtt_msg_get_connect_client_id :: "mqtt_nng_msg \<Rightarrow> bytes option option" where
  "nni_mqtt_msg_get_connect_client_id m = sel m (\<lambda>d. bbuf (client_id d))"

definition nni_mqtt_msg_get_connect_will_topic :: "mqtt_nng_msg \<Rightarrow> bytes option option" where
  "nni_mqtt_msg_get_connect_will_topic m = sel m (\<lambda>d. bbuf (will_topic d))"

definition nni_mqtt_msg_get_connect_user_name :: "mqtt_nng_msg \<Rightarrow> bytes option option" where
  "nni_mqtt_msg_get_connect_user_name m = sel m (\<lambda>d. bbuf (user_name d))"

definition nni_mqtt_msg_get_connect_password :: "mqtt_nng_msg \<Rightarrow> bytes option option" where
  "nni_mqtt_msg_get_connect_password m = sel m (\<lambda>d. bbuf (password d))"

definition nni_mqtt_msg_get_connect_will_msg :: "mqtt_nng_msg \<Rightarrow> (bytes option \<times> nat) option" where
  "nni_mqtt_msg_get_connect_will_msg m = sel m (\<lambda>d. (bbuf (will_msg d), blen (will_msg d)))"

definition nni_mqtt_msg_get_connect_user_name_len :: "mqtt_nng_msg \<Rightarrow> nat option" where
  "nni_mqtt_msg_get_connect_user_name_len m = sel m (\<lambda>d. blen (user_name d))"

definition nni_mqtt_msg_get_connect_password_len :: "mqtt_nng_msg \<Rightarrow> nat option" where
  "nni_mqtt_msg_get_connect_password_len m = sel m (\<lambda>d. blen (password d))"

definition nni_mqtt_msg_set_connack_return_code :: "mqtt_nng_msg \<Rightarrow> u8 \<Rightarrow> mqtt_nng_msg option" where
  "nni_mqtt_msg_set_connack_return_code m code = upd m (\<lambda>d. d\<lparr>conn_return_code := code\<rparr>)"

definition nni_mqtt_msg_set_connack_flags :: "mqtt_nng_msg \<Rightarrow> u8 \<Rightarrow> mqtt_nng_msg option" where
  "nni_mqtt_msg_set_connack_flags m flags = upd m (\<lambda>d. d\<lparr>ca_flags := flags\<rparr>)"

definition nni_mqtt_msg_set_connack_property :: "mqtt_nng_msg \<Rightarrow> props_ptr \<Rightarrow> mqtt_nng_msg option" where
  "nni_mqtt_msg_set_connack_property m prop = upd m (\<lambda>d. d\<lparr>ca_props := prop\<rparr>)"

definition nni_mqtt_msg_get_connack_return_code :: "mqtt_nng_msg \<Rightarrow> u8 option" where
  "nni_mqtt_msg_get_connack_return_code m = sel m conn_return_code"

definition nni_mqtt_msg_get_connack_flags :: "mqtt_nng_msg \<Rightarrow> u8 option" where
  "nni_mqtt_msg_get_connack_flags m = sel m ca_flags"

definition nni_mqtt_msg_get_connack_property :: "mqtt_nng_msg \<Rightarrow> props_ptr option" where
  "nni_mqtt_msg_get_connack_property m = sel m ca_props"

definition nni_mqtt_msg_get_disconnect_property :: "mqtt_nng_msg \<Rightarrow> props_ptr option" where
  "nni_mqtt_msg_get_disconnect_property m = sel m disc_props"

definition nni_mqtt_msg_get_auth_property :: "mqtt_nng_msg \<Rightarrow> props_ptr option" where
  "nni_mqtt_msg_get_auth_property m = sel m disc_props"

definition nni_mqtt_msg_set_auth_property :: "mqtt_nng_msg \<Rightarrow> props_ptr \<Rightarrow> mqtt_nng_msg option" where
  "nni_mqtt_msg_set_auth_property m prop = upd m (\<lambda>d. d\<lparr>disc_props := prop\<rparr>)"

definition nni_mqtt_msg_get_auth_reason_code :: "mqtt_nng_msg \<Rightarrow> u8 option" where
  "nni_mqtt_msg_get_auth_reason_code m = sel m reason_code"

definition nni_mqtt_msg_set_auth_reason_code :: "mqtt_nng_msg \<Rightarrow> u8 \<Rightarrow> mqtt_nng_msg option" where
  "nni_mqtt_msg_set_auth_reason_code m code = upd m (\<lambda>d. d\<lparr>reason_code := code\<rparr>)"

definition nni_mqtt_msg_get_aio :: "mqtt_nng_msg \<Rightarrow> nat option option" where
  "nni_mqtt_msg_get_aio m = sel m msg_aio"

definition nni_mqtt_msg_set_aio :: "mqtt_nng_msg \<Rightarrow> nat option \<Rightarrow> mqtt_nng_msg option" where
  "nni_mqtt_msg_set_aio m aio = upd m (\<lambda>d. d\<lparr>msg_aio := aio\<rparr>)"

definition nni_mqtt_msg_set_connect_property :: "mqtt_nng_msg \<Rightarrow> props_ptr \<Rightarrow> mqtt_nng_msg option" where
  "nni_mqtt_msg_set_connect_property m prop = upd m (\<lambda>d. d\<lparr>vh_props := prop\<rparr>)"

definition nni_mqtt_msg_get_connect_property :: "mqtt_nng_msg \<Rightarrow> props_ptr option" where
  "nni_mqtt_msg_get_connect_property m = sel m vh_props"

section \<open>Release and duplication\<close>

text \<open>
  \<^verbatim>\<open>property_free\<close> releases a whole list: a pointer that is not null dangles afterwards, and freeing it
  again is undefined.
\<close>

definition property_free :: "props_ptr \<Rightarrow> props_ptr option" where
  "property_free p = (case p of P_null \<Rightarrow> Some P_null | P_freed \<Rightarrow> None | P_list ps \<Rightarrow> Some P_freed)"

definition destory_connect :: "mqtt_msg \<Rightarrow> mqtt_msg" where
  "destory_connect d =
     d\<lparr>vh_name := mqtt_buf_free (vh_name d), client_id := mqtt_buf_free (client_id d),
       user_name := mqtt_buf_free (user_name d), password := mqtt_buf_free (password d),
       will_topic := mqtt_buf_free (will_topic d), will_msg := mqtt_buf_free (will_msg d)\<rparr>"

definition destory_publish :: "mqtt_msg \<Rightarrow> mqtt_msg" where
  "destory_publish d = d\<lparr>vh_name := mqtt_buf_free (vh_name d), pub_payload := mqtt_buf_free (pub_payload d)\<rparr>"

definition destory_subscribe :: "mqtt_msg \<Rightarrow> mqtt_msg" where
  "destory_subscribe d = d\<lparr>topics := []\<rparr>"

definition destory_suback :: "mqtt_msg \<Rightarrow> mqtt_msg" where
  "destory_suback d = (if length (ret_codes d) > 0 then d\<lparr>ret_codes := []\<rparr> else d)"

definition destory_unsuback :: "mqtt_msg \<Rightarrow> mqtt_msg" where
  "destory_unsuback d = (if length (ret_codes d) > 0 then d\<lparr>ret_codes := []\<rparr> else d)"

definition destory_unsubscribe :: "mqtt_msg \<Rightarrow> mqtt_msg" where
  "destory_unsubscribe d = d\<lparr>un_topics := []\<rparr>"

text \<open>Only the acknowledgements of a PUBLISH clear the pointer to the freed list.\<close>

definition mqtt_msg_content_free :: "mqtt_msg \<Rightarrow> mqtt_msg option" where
  "mqtt_msg_content_free d =
     map_option (\<lambda>d. d\<lparr>is_copied := False\<rparr>)
       (if packet_type d = NNG_MQTT_CONNECT then
          (let d = (if is_copied d then destory_connect d else d) in
           case property_free (vh_props d) of
             None \<Rightarrow> None
           | Some p \<Rightarrow> map_option (\<lambda>w. d\<lparr>vh_props := p, will_props := w\<rparr>) (property_free (will_props d)))
        else if packet_type d = NNG_MQTT_CONNACK then
          map_option (\<lambda>p. d\<lparr>ca_props := p\<rparr>) (property_free (ca_props d))
        else if packet_type d = NNG_MQTT_PUBLISH then
          (let d = (if is_copied d then destory_publish d else d) in
           map_option (\<lambda>p. d\<lparr>vh_props := p\<rparr>) (property_free (vh_props d)))
        else if packet_type d \<in> {NNG_MQTT_PUBACK, NNG_MQTT_PUBREC, NNG_MQTT_PUBREL, NNG_MQTT_PUBCOMP} then
          map_option (\<lambda>p. d\<lparr>ack_props := P_null\<rparr>) (property_free (ack_props d))
        else if packet_type d = NNG_MQTT_SUBSCRIBE then
          (let d = (if is_copied d then destory_subscribe d else d\<lparr>topics := []\<rparr>) in
           map_option (\<lambda>p. d\<lparr>sub_props := p\<rparr>) (property_free (sub_props d)))
        else if packet_type d = NNG_MQTT_SUBACK then
          (let d = destory_suback d in
           map_option (\<lambda>p. d\<lparr>sub_props := p\<rparr>) (property_free (sub_props d)))
        else if packet_type d = NNG_MQTT_UNSUBSCRIBE then
          (let d = (if is_copied d then destory_unsubscribe d else d\<lparr>un_topics := []\<rparr>) in
           map_option (\<lambda>p. d\<lparr>sub_props := p\<rparr>) (property_free (sub_props d)))
        else if packet_type d = NNG_MQTT_UNSUBACK then
          (let d = destory_unsuback d in
           map_option (\<lambda>p. d\<lparr>sub_props := p\<rparr>) (property_free (sub_props d)))
        else if packet_type d \<in> {NNG_MQTT_DISCONNECT, NNG_MQTT_AUTH} then
          map_option (\<lambda>p. d\<lparr>disc_props := p\<rparr>) (property_free (disc_props d))
        else Some d)"

text \<open>The struct itself is gone afterwards; only the result remains.\<close>

definition nni_mqtt_msg_free :: "mqtt_msg option \<Rightarrow> int option" where
  "nni_mqtt_msg_free self =
     (case self of None \<Rightarrow> Some 1 | Some d \<Rightarrow> map_option (\<lambda>_. 0) (mqtt_msg_content_free d))"

text \<open>The results of the copies are dropped: a failed copy leaves a null buffer.\<close>

definition dup_buf :: "allocator \<Rightarrow> mqtt_buf \<Rightarrow> mqtt_buf option" where
  "dup_buf al b = map_option snd (mqtt_buf_dup al b b)"

definition dup_connect :: "allocator \<Rightarrow> mqtt_msg \<Rightarrow> mqtt_msg option" where
  "dup_connect al d =
     (case (dup_buf al (vh_name d), dup_buf al (client_id d), dup_buf al (user_name d),
            dup_buf al (password d), dup_buf al (will_topic d), dup_buf al (will_msg d)) of
        (Some n, Some c, Some u, Some p, Some t, Some w) \<Rightarrow>
          Some (d\<lparr>vh_name := n, client_id := c, user_name := u, password := p, will_topic := t, will_msg := w\<rparr>)
      | _ \<Rightarrow> None)"

definition dup_publish :: "allocator \<Rightarrow> mqtt_msg \<Rightarrow> mqtt_msg option" where
  "dup_publish al d =
     (case (dup_buf al (vh_name d), dup_buf al (pub_payload d)) of
        (Some n, Some p) \<Rightarrow> Some (d\<lparr>vh_name := n, pub_payload := p\<rparr>)
      | _ \<Rightarrow> None)"

definition dup_subscribe :: "allocator \<Rightarrow> mqtt_msg \<Rightarrow> mqtt_msg option" where
  "dup_subscribe al d =
     (if topics d = [] then Some d
      else map_option (\<lambda>ts. d\<lparr>topics := ts\<rparr>)
             (fill_topic_qos al (nni_mqtt_topic_qos_array_create al (length (topics d))) 0 (topics d)))"

definition dup_suback :: "allocator \<Rightarrow> mqtt_msg \<Rightarrow> mqtt_msg option" where
  "dup_suback al d = (if ret_codes d \<noteq> [] \<and> \<not> al (length (ret_codes d)) then None else Some d)"

definition dup_unsuback :: "allocator \<Rightarrow> mqtt_msg \<Rightarrow> mqtt_msg option" where
  "dup_unsuback al d = (if length (ret_codes d) > 0 \<and> \<not> al (length (ret_codes d)) then None else Some d)"

definition dup_unsubscribe :: "allocator \<Rightarrow> mqtt_msg \<Rightarrow> mqtt_msg option" where
  "dup_unsubscribe al d =
     (if un_topics d = [] then Some d
      else map_option (\<lambda>ts. d\<lparr>un_topics := ts\<rparr>)
             (fill_topics al (nni_mqtt_topic_array_create al (length (un_topics d))) 0 (un_topics d)))"

text \<open>The copy of the array alone, whose entries still point into the original.\<close>

definition dup_array :: "allocator \<Rightarrow> nat \<Rightarrow> 'a list \<Rightarrow> mqtt_msg \<Rightarrow> mqtt_msg option" where
  "dup_array al sz xs d = (if xs \<noteq> [] \<and> \<not> al (length xs * sz) then None else Some d)"

text \<open>The guarded call of \<^verbatim>\<open>property_dup\<close>, with the pointer the copy of the struct starts from.\<close>

definition dup_props :: "bool \<Rightarrow> allocator \<Rightarrow> props_ptr \<Rightarrow> (int \<times> props_ptr) option" where
  "dup_props st al p =
     (case p of
        P_null \<Rightarrow> Some (0, P_null)
      | P_freed \<Rightarrow> None
      | P_list ps \<Rightarrow>
          map_option (\<lambda>(rv, q). (rv, case q of None \<Rightarrow> P_null | Some qs \<Rightarrow> P_list qs))
            (property_dup st al (Some ps) (Some ps)))"

text \<open>\<open>get\<close> and \<open>put\<close> are the properties of the packet type.\<close>

definition with_props ::
    "bool \<Rightarrow> allocator \<Rightarrow> (mqtt_msg \<Rightarrow> props_ptr) \<Rightarrow> (props_ptr \<Rightarrow> mqtt_msg \<Rightarrow> mqtt_msg) \<Rightarrow>
     mqtt_msg option \<Rightarrow> (int \<times> mqtt_msg) option" where
  "with_props st al get put d =
     (case d of
        None \<Rightarrow> None
      | Some d \<Rightarrow> map_option (\<lambda>(rv, p). (rv, put p d)) (dup_props st al (get d)))"

definition nni_mqtt_msg_dup :: "bool \<Rightarrow> bool \<Rightarrow> allocator \<Rightarrow> mqtt_msg \<Rightarrow> (int \<times> mqtt_msg) option" where
  "nni_mqtt_msg_dup st stp al s =
     (if \<not> st then None
      else
        (let d = s\<lparr>initialized := False\<rparr> in
         if packet_type d = NNG_MQTT_CONNECT then
           (case with_props stp al vh_props (\<lambda>p d. d\<lparr>vh_props := p\<rparr>)
                   (if is_copied d then dup_connect al d else Some d) of
              None \<Rightarrow> None
            | Some (rv, d) \<Rightarrow>
                map_option (\<lambda>(rv', d). (rv + rv', d))
                  (with_props stp al will_props (\<lambda>p d. d\<lparr>will_props := p\<rparr>) (Some d)))
         else if packet_type d = NNG_MQTT_CONNACK then
           with_props stp al ca_props (\<lambda>p d. d\<lparr>ca_props := p\<rparr>) (Some d)
         else if packet_type d = NNG_MQTT_PUBLISH then
           with_props stp al vh_props (\<lambda>p d. d\<lparr>vh_props := p\<rparr>)
             (if is_copied d then dup_publish al d else Some d)
         else if packet_type d \<in> {NNG_MQTT_PUBACK, NNG_MQTT_PUBREC, NNG_MQTT_PUBREL, NNG_MQTT_PUBCOMP} then
           with_props stp al ack_props (\<lambda>p d. d\<lparr>ack_props := p\<rparr>) (Some d)
         else if packet_type d = NNG_MQTT_SUBSCRIBE then
           with_props stp al sub_props (\<lambda>p d. d\<lparr>sub_props := p\<rparr>)
             (if is_copied d then dup_subscribe al d else dup_array al 24 (topics d) d)
         else if packet_type d = NNG_MQTT_SUBACK then
           with_props stp al sub_props (\<lambda>p d. d\<lparr>sub_props := p\<rparr>) (dup_suback al d)
         else if packet_type d = NNG_MQTT_UNSUBACK then
           with_props stp al sub_props (\<lambda>p d. d\<lparr>sub_props := p\<rparr>) (dup_unsuback al d)
         else if packet_type d = NNG_MQTT_UNSUBSCRIBE then
           with_props stp al sub_props (\<lambda>p d. d\<lparr>sub_props := p\<rparr>)
             (if is_copied d then dup_unsubscribe al d else dup_array al 16 (un_topics d) d)
         else if packet_type d \<in> {NNG_MQTT_DISCONNECT, NNG_MQTT_AUTH} then
           with_props stp al disc_props (\<lambda>p d. d\<lparr>disc_props := p\<rparr>) (Some d)
         else Some (0, d)))"

text \<open>\<^verbatim>\<open>malloc\<close> is not checked before the struct is cleared.\<close>

definition mqtt_msg_create :: "bool \<Rightarrow> u8 \<Rightarrow> mqtt_msg option" where
  "mqtt_msg_create st t = (if st then Some (set_packet_type t zero_mqtt) else None)"

definition get_packet_type_str :: "nat \<Rightarrow> string" where
  "get_packet_type_str packtype =
     [''Forbidden-0'', ''CONNECT'', ''CONNACK'', ''PUBLISH'', ''PUBACK'', ''PUBREC'', ''PUBREL'',
      ''PUBCOMP'', ''SUBSCRIBE'', ''SUBACK'', ''UNSUBSCRIBE'', ''UNSUBACK'', ''PINGREQ'', ''PINGRESP'',
      ''DISCONNECT'', ''Forbidden-15''] ! (if packtype > 15 then 0 else packtype)"

end
