(* ===== verification/MqttCodec.thy ===== *)
theory MqttCodec
  imports MqttMsg
begin

text \<open>
  The codec of MQTT 3.1.1 packets in \<^verbatim>\<open>supplemental/mqtt/mqtt_codec.c\<close>: the fixed header, an encoder and a
  decoder for every packet type, and the functions that select them by the packet type.

  An encoder works on the message and its protocol data, which the selecting function stores back; a
  decoder reads the body of the message. The result is the return code with the changed message and
  data; \<open>None\<close> stands for a write through a null pointer, behind an array, or a use of freed memory.
  \<open>al\<close> says which allocations succeed, \<open>rnd\<close> is what \<^verbatim>\<open>nni_random\<close> returns, and \<open>junk\<close> is the content of
  an array of topics that \<^verbatim>\<open>nni_alloc\<close> returns, since memory is not cleared.

  Contents: the fixed header; encoders; decoders; selection; the bytes of each packet, and that every
  packet that was encoded is decoded to what was sent.
\<close>

section \<open>Fixed header\<close>

definition nni_mqtt_msg_encode_fixed_header ::
    "allocator \<Rightarrow> mqtt_nng_msg \<Rightarrow> mqtt_msg \<Rightarrow> (int \<times> mqtt_nng_msg \<times> mqtt_msg) option" where
  "nni_mqtt_msg_encode_fixed_header al m d =
     (if \<not> al 8 then None
      else
        (case nni_msg_header_append (nni_msg_header_clear m) [fh_common d] 1 of
           (rv, m) \<Rightarrow>
             (case write_variable_length_value (remaining_length d) of
                (len, rlen) \<Rightarrow>
                  if len = -1 then Some (-1, m, d)
                  else
                    (case nni_msg_header_append m rlen (nat len) of
                       (rv', m) \<Rightarrow> Some (rv OR rv', m, d\<lparr>used_bytes := nat len mod 16\<rparr>)))))"

text \<open>
  The bound passed on is the length of the whole header although reading starts at its second byte.
\<close>

definition nni_mqtt_msg_decode_fixed_header :: "mqtt_nng_msg \<Rightarrow> (int \<times> mqtt_nng_msg) option" where
  "nni_mqtt_msg_decode_fixed_header m =
     (if m_header_len m < 2 then Some (MQTT_ERR_PROTOCOL, m)
      else
        (case m_proto_data m of
           None \<Rightarrow> None
         | Some d \<Rightarrow>
             (let d = d\<lparr>fh_common := m_header_buf m ! 0\<rparr> in
              case mqtt_get_remaining_length (m_header_buf m) (m_header_len m) of
                Inl ret \<Rightarrow> Some (ret, m\<lparr>m_proto_data := Some d\<rparr>)
              | Inr (remain_len, used) \<Rightarrow>
                  Some (MQTT_SUCCESS, m\<lparr>m_proto_data :=
                    Some (d\<lparr>remaining_length := remain_len, used_bytes := used mod 16\<rparr>)\<rparr>))))"

section \<open>Encoders\<close>

text \<open>\<^verbatim>\<open>snprintf\<close> with the format \<^verbatim>\<open>nanomq-%04x\<close>.\<close>

definition hex_digit :: "nat \<Rightarrow> u8" where
  "hex_digit n = of_nat (if n < 10 then 48 + n else 87 + n)"

fun hex_digits :: "nat \<Rightarrow> bytes" where
  "hex_digits n = (if n < 16 then [hex_digit n] else hex_digits (n div 16) @ [hex_digit (n mod 16)])"

declare hex_digits.simps [simp del]

definition random_client_id :: "u32 \<Rightarrow> bytes" where
  "random_client_id rnd =
     (let h = hex_digits (unat rnd) in
      [0x6e, 0x61, 0x6e, 0x6f, 0x6d, 0x71, 0x2d] @ replicate (4 - length h) 48 @ h)"

definition mqtt_protocol_name :: bytes where
  "mqtt_protocol_name = [0x4d, 0x51, 0x54, 0x54]"

text \<open>The result of \<^verbatim>\<open>mqtt_buf_create\<close> is dropped.\<close>

definition buf_default :: "allocator \<Rightarrow> bytes \<Rightarrow> mqtt_buf \<Rightarrow> mqtt_buf" where
  "buf_default al s b =
     (if blen b = 0 then (case mqtt_buf_create al b (Some s) (length s) of None \<Rightarrow> b | Some (rv, b') \<Rightarrow> b') else b)"

definition connect_defaults :: "allocator \<Rightarrow> u32 \<Rightarrow> u8 \<Rightarrow> mqtt_msg \<Rightarrow> mqtt_msg" where
  "connect_defaults al rnd version d =
     d\<lparr>vh_name := buf_default al mqtt_protocol_name (vh_name d),
       vh_version := (if vh_version d = 0 then version else vh_version d),
       client_id := buf_default al (random_client_id rnd) (client_id d)\<rparr>"

definition connect_flags :: "mqtt_msg \<Rightarrow> u8" where
  "connect_flags d =
     (let f = conn_flags d;
          f = (if blen (will_topic d) > 0 then set_field 0x04 2 1 f else f);
          f = (if blen (will_msg d) > 0 then set_field 0x04 2 1 f else f);
          f = (if blen (user_name d) > 0 then set_field 0x80 7 1 f else f) in
      if blen (password d) > 0 then set_field 0x40 6 1 f else f)"

definition opt_len :: "mqtt_buf \<Rightarrow> nat" where
  "opt_len b = (if blen b > 0 then 2 + blen b else 0)"

definition connect_length :: "mqtt_msg \<Rightarrow> nat" where
  "connect_length d =
     wrap32 (6 + blen (vh_name d) + blen (client_id d) + 2 + opt_len (will_topic d) + opt_len (will_msg d) +
       opt_len (user_name d) + opt_len (password d))"

text \<open>The optional strings of a CONNECT: each is present exactly when its flag is set.\<close>

fun put_optional :: "allocator \<Rightarrow> mqtt_nng_msg \<Rightarrow> (bool \<times> mqtt_buf) list \<Rightarrow> int \<times> mqtt_nng_msg" where
  "put_optional al m [] = (MQTT_SUCCESS, m)"
| "put_optional al m ((flag, s) # xs) =
     (if blen s \<noteq> 0 then
        (if \<not> flag then (MQTT_ERR_PROTOCOL, m)
         else put_optional al (nni_mqtt_msg_append_byte_str al m s) xs)
      else if flag then (MQTT_ERR_PROTOCOL, m)
      else put_optional al m xs)"

definition keep_alive_default :: "u16 \<Rightarrow> u16" where
  "keep_alive_default t = (if t = 0 then 60 else t)"

definition nni_mqtt_msg_encode_connect ::
    "allocator \<Rightarrow> u32 \<Rightarrow> mqtt_nng_msg \<Rightarrow> mqtt_msg \<Rightarrow> (int \<times> mqtt_nng_msg \<times> mqtt_msg) option" where
  "nni_mqtt_msg_encode_connect al rnd m d =
     (let m = nni_msg_clear m;
          d = connect_defaults al rnd 4 d;
          d = d\<lparr>conn_flags := connect_flags d, remaining_length := connect_length d\<rparr> in
      if remaining_length d > MQTT_MAX_MSG_LEN then Some (MQTT_ERR_PAYLOAD_SIZE, m, d)
      else
        (case nni_mqtt_msg_encode_fixed_header al m d of
           None \<Rightarrow> None
         | Some (_, m, d) \<Rightarrow>
             (let m = nni_mqtt_msg_append_byte_str al m (vh_name d);
                  m = nni_mqtt_msg_append_u8 al m (vh_version d);
                  m = nni_mqtt_msg_append_u8 al m (conn_flags d);
                  d = d\<lparr>vh_u16 := keep_alive_default (vh_u16 d)\<rparr>;
                  m = nni_mqtt_msg_append_u16 al m (vh_u16 d);
                  m = nni_mqtt_msg_append_byte_str al m (client_id d) in
              case put_optional al m
                     [(will_flag (conn_flags d), will_topic d), (will_flag (conn_flags d), will_msg d),
                      (username_flag (conn_flags d), user_name d), (password_flag (conn_flags d), password d)] of
                (rv, m) \<Rightarrow> Some (rv, m, d))))"

text \<open>The result of encoding the fixed header is dropped by all encoders but that of PUBLISH.\<close>

definition nni_mqtt_msg_encode_connack ::
    "allocator \<Rightarrow> mqtt_nng_msg \<Rightarrow> mqtt_msg \<Rightarrow> (int \<times> mqtt_nng_msg \<times> mqtt_msg) option" where
  "nni_mqtt_msg_encode_connack al m d =
     (case nni_mqtt_msg_encode_fixed_header al (nni_msg_clear m) (d\<lparr>remaining_length := 2\<rparr>) of
        None \<Rightarrow> None
      | Some (_, m, d) \<Rightarrow>
          (let m = nni_mqtt_msg_append_u8 al m (ca_flags d);
               m = nni_mqtt_msg_append_u8 al m (conn_return_code d) in
           Some (MQTT_SUCCESS, m, d)))"

fun topics_length :: "mqtt_topic_qos list \<Rightarrow> nat \<Rightarrow> nat" where
  "topics_length [] poslength = poslength"
| "topics_length (t # ts) poslength = topics_length ts (wrap32 (poslength + blen (tq_topic t) + 1 + 2))"

fun put_topics :: "allocator \<Rightarrow> mqtt_nng_msg \<Rightarrow> mqtt_topic_qos list \<Rightarrow> mqtt_nng_msg" where
  "put_topics al m [] = m"
| "put_topics al m (t # ts) =
     put_topics al (nni_mqtt_msg_append_u8 al (nni_mqtt_msg_append_byte_str al m (tq_topic t)) (tq_qos t)) ts"

definition set_bit_1 :: "mqtt_msg \<Rightarrow> mqtt_msg" where
  "set_bit_1 d = d\<lparr>fh_common := fh_common d OR 0x02\<rparr>"

definition nni_mqtt_msg_encode_subscribe ::
    "allocator \<Rightarrow> mqtt_nng_msg \<Rightarrow> mqtt_msg \<Rightarrow> (int \<times> mqtt_nng_msg \<times> mqtt_msg) option" where
  "nni_mqtt_msg_encode_subscribe al m d =
     (let d = (set_bit_1 d)\<lparr>remaining_length := topics_length (topics d) 2\<rparr> in
      case nni_mqtt_msg_encode_fixed_header al (nni_msg_clear m) d of
        None \<Rightarrow> None
      | Some (_, m, d) \<Rightarrow>
          (let m = nni_mqtt_msg_append_u16 al m (sub_packet_id d) in
           Some (MQTT_SUCCESS, put_topics al m (topics d), d)))"

definition nni_mqtt_msg_encode_suback ::
    "allocator \<Rightarrow> mqtt_nng_msg \<Rightarrow> mqtt_msg \<Rightarrow> (int \<times> mqtt_nng_msg \<times> mqtt_msg) option" where
  "nni_mqtt_msg_encode_suback al m d =
     (case nni_mqtt_msg_encode_fixed_header al (nni_msg_clear m)
             (d\<lparr>remaining_length := wrap32 (2 + length (ret_codes d))\<rparr>) of
        None \<Rightarrow> None
      | Some (_, m, d) \<Rightarrow>
          (let m = nni_mqtt_msg_append_u16 al m (sub_packet_id d);
               m = snd (nni_msg_append al m (Some (ret_codes d)) (length (ret_codes d))) in
           Some (MQTT_SUCCESS, m, d)))"

definition nni_mqtt_msg_encode_publish ::
    "allocator \<Rightarrow> mqtt_nng_msg \<Rightarrow> mqtt_msg \<Rightarrow> (int \<times> mqtt_nng_msg \<times> mqtt_msg) option" where
  "nni_mqtt_msg_encode_publish al m d =
     (let m = nni_msg_header_clear (nni_msg_clear m);
          d = d\<lparr>remaining_length :=
            wrap32 (2 + blen (vh_name d) + (if publish_qos d > 0 then 2 else 0) + blen (pub_payload d))\<rparr> in
      case nni_mqtt_msg_encode_fixed_header al m d of
        None \<Rightarrow> None
      | Some (rv, m, d) \<Rightarrow>
          if rv \<noteq> 0 then Some (MQTT_ERR_PROTOCOL, m, d)
          else
            (let m = nni_mqtt_msg_append_byte_str al m (vh_name d);
                 m = (if publish_qos d > 0 then nni_mqtt_msg_append_u16 al m (vh_u16 d) else m) in
             case (if blen (pub_payload d) > 0
                   then nni_msg_append al m (bbuf (pub_payload d)) (blen (pub_payload d)) else (0, m)) of
               (rv, m) \<Rightarrow>
                 Some (if remaining_length d \<noteq> nni_msg_len m then MQTT_ERR_PROTOCOL
                       else if rv = 0 then MQTT_SUCCESS else MQTT_ERR_PROTOCOL, m, d)))"

definition nni_mqtt_msg_encode_puback ::
    "allocator \<Rightarrow> mqtt_nng_msg \<Rightarrow> mqtt_msg \<Rightarrow> (int \<times> mqtt_nng_msg \<times> mqtt_msg) option" where
  "nni_mqtt_msg_encode_puback al m d =
     (let d = d\<lparr>remaining_length := 2\<rparr>;
          m = nni_mqtt_msg_append_u16 al (nni_msg_clear m) (ack_packet_id d) in
      map_option (\<lambda>(_, m, d). (MQTT_SUCCESS, m, d)) (nni_mqtt_msg_encode_fixed_header al m d))"

definition nni_mqtt_msg_encode_pubrec ::
    "allocator \<Rightarrow> mqtt_nng_msg \<Rightarrow> mqtt_msg \<Rightarrow> (int \<times> mqtt_nng_msg \<times> mqtt_msg) option" where
  "nni_mqtt_msg_encode_pubrec al m d =
     map_option (\<lambda>(_, m, d). (MQTT_SUCCESS, nni_mqtt_msg_append_u16 al m (ack_packet_id d), d))
       (nni_mqtt_msg_encode_fixed_header al (nni_msg_clear m) (d\<lparr>remaining_length := 2\<rparr>))"

definition nni_mqtt_msg_encode_pubrel ::
    "allocator \<Rightarrow> mqtt_nng_msg \<Rightarrow> mqtt_msg \<Rightarrow> (int \<times> mqtt_nng_msg \<times> mqtt_msg) option" where
  "nni_mqtt_msg_encode_pubrel al m d =
     map_option (\<lambda>(_, m, d). (MQTT_SUCCESS, nni_mqtt_msg_append_u16 al m (ack_packet_id d), d))
       (nni_mqtt_msg_encode_fixed_header al (nni_msg_clear m) ((set_bit_1 d)\<lparr>remaining_length := 2\<rparr>))"

definition nni_mqtt_msg_encode_pubcomp ::
    "allocator \<Rightarrow> mqtt_nng_msg \<Rightarrow> mqtt_msg \<Rightarrow> (int \<times> mqtt_nng_msg \<times> mqtt_msg) option" where
  "nni_mqtt_msg_encode_pubcomp al m d =
     map_option (\<lambda>(_, m, d). (MQTT_SUCCESS, nni_mqtt_msg_append_u16 al m (ack_packet_id d), d))
       (nni_mqtt_msg_encode_fixed_header al (nni_msg_clear m) (d\<lparr>remaining_length := 2\<rparr>))"

fun un_topics_length :: "mqtt_buf list \<Rightarrow> nat \<Rightarrow> nat" where
  "un_topics_length [] poslength = poslength"
| "un_topics_length (t # ts) poslength = un_topics_length ts (wrap32 (poslength + blen t + 2))"

fun put_un_topics :: "allocator \<Rightarrow> mqtt_nng_msg \<Rightarrow> mqtt_buf list \<Rightarrow> mqtt_nng_msg" where
  "put_un_topics al m [] = m"
| "put_un_topics al m (t # ts) = put_un_topics al (nni_mqtt_msg_append_byte_str al m t) ts"

definition nni_mqtt_msg_encode_unsubscribe ::
    "allocator \<Rightarrow> mqtt_nng_msg \<Rightarrow> mqtt_msg \<Rightarrow> (int \<times> mqtt_nng_msg \<times> mqtt_msg) option" where
  "nni_mqtt_msg_encode_unsubscribe al m d =
     (let d = (set_bit_1 d)\<lparr>remaining_length := un_topics_length (un_topics d) 2\<rparr> in
      case nni_mqtt_msg_encode_fixed_header al (nni_msg_clear m) d of
        None \<Rightarrow> None
      | Some (_, m, d) \<Rightarrow>
          (let m = nni_mqtt_msg_append_u16 al m (sub_packet_id d) in
           Some (MQTT_SUCCESS, put_un_topics al m (un_topics d), d)))"

definition nni_mqtt_msg_encode_unsuback ::
    "allocator \<Rightarrow> mqtt_nng_msg \<Rightarrow> mqtt_msg \<Rightarrow> (int \<times> mqtt_nng_msg \<times> mqtt_msg) option" where
  "nni_mqtt_msg_encode_unsuback al m d =
     map_option (\<lambda>(_, m, d). (MQTT_SUCCESS, nni_mqtt_msg_append_u16 al m (sub_packet_id d), d))
       (nni_mqtt_msg_encode_fixed_header al (nni_msg_clear m) (d\<lparr>remaining_length := 2\<rparr>))"

definition nni_mqtt_msg_encode_base ::
    "allocator \<Rightarrow> mqtt_nng_msg \<Rightarrow> mqtt_msg \<Rightarrow> (int \<times> mqtt_nng_msg \<times> mqtt_msg) option" where
  "nni_mqtt_msg_encode_base al m d =
     map_option (\<lambda>(_, m, d). (MQTT_SUCCESS, m, d))
       (nni_mqtt_msg_encode_fixed_header al (nni_msg_clear m) (d\<lparr>remaining_length := 0\<rparr>))"

section \<open>Decoders\<close>

text \<open>Every error of a reader is reported as a protocol error.\<close>

definition rd ::
    "(int + 'a \<times> bytes) \<Rightarrow> mqtt_msg \<Rightarrow> ('a \<Rightarrow> bytes \<Rightarrow> (int \<times> mqtt_msg) option) \<Rightarrow> (int \<times> mqtt_msg) option" where
  "rd r d k = (case r of Inl _ \<Rightarrow> Some (MQTT_ERR_PROTOCOL, d) | Inr (x, b) \<Rightarrow> k x b)"

text \<open>The user name and the password at the end of a CONNECT.\<close>

definition read_credentials :: "bytes \<Rightarrow> mqtt_msg \<Rightarrow> (int \<times> mqtt_msg) option" where
  "read_credentials b d =
     (let pass = (\<lambda>b d.
            if password_flag (conn_flags d)
            then rd (read_str_data b) d (\<lambda>s b. Some (MQTT_SUCCESS, d\<lparr>password := s\<rparr>))
            else Some (MQTT_SUCCESS, d)) in
      if username_flag (conn_flags d)
      then rd (read_utf8_str b) d (\<lambda>s b. pass b (d\<lparr>user_name := s\<rparr>))
      else pass b d)"

definition nni_mqtt_msg_decode_connect :: "mqtt_nng_msg \<Rightarrow> mqtt_msg \<Rightarrow> (int \<times> mqtt_msg) option" where
  "nni_mqtt_msg_decode_connect m d =
     rd (read_str_data (nni_msg_body m)) d (\<lambda>name b.
       let d = d\<lparr>vh_name := name\<rparr> in
       rd (read_byte b) d (\<lambda>version b.
         let d = d\<lparr>vh_version := version\<rparr> in
         rd (read_byte b) d (\<lambda>flags b.
           let d = d\<lparr>conn_flags := flags\<rparr> in
           rd (read_uint16 b) d (\<lambda>t b.
             let d = d\<lparr>vh_u16 := t\<rparr> in
             rd (read_utf8_str b) d (\<lambda>cid b.
               let d = d\<lparr>client_id := cid\<rparr> in
               if will_flag (conn_flags d)
               then rd (read_utf8_str b) d (\<lambda>topic b.
                      let d = d\<lparr>will_topic := topic\<rparr> in
                      rd (read_str_data b) d (\<lambda>s b. read_credentials b (d\<lparr>will_msg := s\<rparr>)))
               else read_credentials b d)))))"

definition nni_mqtt_msg_decode_connack :: "mqtt_nng_msg \<Rightarrow> mqtt_msg \<Rightarrow> (int \<times> mqtt_msg) option" where
  "nni_mqtt_msg_decode_connack m d =
     rd (read_byte (nni_msg_body m)) d (\<lambda>flags b.
       let d = d\<lparr>ca_flags := flags\<rparr> in
       rd (read_byte b) d (\<lambda>code b. Some (MQTT_SUCCESS, d\<lparr>conn_return_code := code\<rparr>)))"

text \<open>
  The first loop over the topics counts them; \<open>extra\<close> is the number of bytes behind a topic. A jump
  behind the end ends the loop.
\<close>

function count_topics :: "nat \<Rightarrow> bytes \<Rightarrow> nat option" where
  "count_topics extra b =
     (if b = [] then Some 0
      else
        (case read_uint16 b of
           Inl _ \<Rightarrow> None
         | Inr (n, r) \<Rightarrow> map_option Suc (count_topics extra (drop (unat n + extra) r))))"
  by pat_completeness auto

termination
  by (relation "measure (\<lambda>(extra, b). length b)") (auto simp: read_uint16_def split: if_splits)

declare count_topics.simps [simp del]

text \<open>
  The second loop stores topic number \<open>i\<close> in an array of \<open>n\<close> entries; the outer \<open>None\<close> is a store
  behind the array, the inner one an error of a reader. \<open>entry\<close> is the stored entry.
\<close>

function read_topics ::
    "(nat \<Rightarrow> mqtt_buf \<Rightarrow> u8 \<Rightarrow> mqtt_topic_qos) \<Rightarrow> nat \<Rightarrow> nat \<Rightarrow> bytes \<Rightarrow> mqtt_topic_qos list \<Rightarrow>
     mqtt_topic_qos list option option" where
  "read_topics entry n i b acc =
     (if b = [] then Some (Some acc)
      else if i \<ge> n then None
      else
        (case read_utf8_str b of
           Inl _ \<Rightarrow> Some None
         | Inr (topic, b') \<Rightarrow>
             (case read_byte b' of
                Inl _ \<Rightarrow> Some None
              | Inr (to, r) \<Rightarrow> read_topics entry n (i + 1) r (acc @ [entry i topic to]))))"
  by pat_completeness auto

termination
  by (relation "measure (\<lambda>(entry, n, i, b, acc). n - i)") auto

declare read_topics.simps [simp del]

text \<open>
  The counter of the payload is the start index of the second loop. It is zero after the content was
  freed; from another value the stores would leave the array.
\<close>

definition decode_topics ::
    "allocator \<Rightarrow> (nat \<Rightarrow> mqtt_buf \<Rightarrow> u8 \<Rightarrow> mqtt_topic_qos) \<Rightarrow> bytes \<Rightarrow> mqtt_msg \<Rightarrow> (int \<times> mqtt_msg) option" where
  "decode_topics al entry b d =
     (case count_topics 1 b of
        None \<Rightarrow> Some (MQTT_ERR_PROTOCOL, d)
      | Some n \<Rightarrow>
          if topics d \<noteq> [] \<or> (n > 0 \<and> \<not> al (24 * n)) then None
          else
            (case read_topics entry n 0 b [] of
               None \<Rightarrow> None
             | Some None \<Rightarrow> Some (MQTT_ERR_PROTOCOL, d\<lparr>topics := []\<rparr>)
             | Some (Some ts) \<Rightarrow> Some (MQTT_SUCCESS, d\<lparr>topics := ts\<rparr>)))"

definition topic_entry :: "(nat \<Rightarrow> mqtt_topic_qos) \<Rightarrow> nat \<Rightarrow> mqtt_buf \<Rightarrow> u8 \<Rightarrow> mqtt_topic_qos" where
  "topic_entry junk i topic to = (junk i)\<lparr>tq_topic := topic, tq_qos := to\<rparr>"

definition nni_mqtt_msg_decode_subscribe ::
    "allocator \<Rightarrow> (nat \<Rightarrow> mqtt_topic_qos) \<Rightarrow> mqtt_nng_msg \<Rightarrow> mqtt_msg \<Rightarrow> (int \<times> mqtt_msg) option" where
  "nni_mqtt_msg_decode_subscribe al junk m d =
     rd (read_uint16 (nni_msg_body m)) d (\<lambda>packet_id b.
       decode_topics al (topic_entry junk) b (d\<lparr>sub_packet_id := packet_id\<rparr>))"

text \<open>\<open>n\<close> return codes are read into an array of \<open>n\<close> bytes.\<close>

fun read_ret_codes :: "nat \<Rightarrow> bytes \<Rightarrow> bytes \<Rightarrow> bytes option" where
  "read_ret_codes 0 b acc = Some acc"
| "read_ret_codes (Suc n) b acc =
     (case read_byte b of Inl _ \<Rightarrow> None | Inr (c, r) \<Rightarrow> read_ret_codes n r (acc @ [c]))"

definition decode_ret_codes :: "allocator \<Rightarrow> bytes \<Rightarrow> mqtt_msg \<Rightarrow> (int \<times> mqtt_msg) option" where
  "decode_ret_codes al b d =
     (let n = wrap32 (length b) in
      if n > 0 \<and> \<not> al n then None
      else
        (case read_ret_codes n b [] of
           None \<Rightarrow> Some (MQTT_ERR_PROTOCOL, d\<lparr>ret_codes := []\<rparr>)
         | Some codes \<Rightarrow> Some (MQTT_SUCCESS, d\<lparr>ret_codes := codes\<rparr>)))"

definition nni_mqtt_msg_decode_suback :: "allocator \<Rightarrow> mqtt_nng_msg \<Rightarrow> mqtt_msg \<Rightarrow> (int \<times> mqtt_msg) option" where
  "nni_mqtt_msg_decode_suback al m d =
     rd (read_uint16 (nni_msg_body m)) d (\<lambda>packet_id b.
       decode_ret_codes al b (d\<lparr>sub_packet_id := packet_id\<rparr>))"

text \<open>
  The payload length is a difference of 32-bit values that is not compared with the body: the buffer
  can name more bytes than there are.
\<close>

definition read_packet_id :: "bytes \<Rightarrow> mqtt_msg \<Rightarrow> (bytes \<Rightarrow> mqtt_msg \<Rightarrow> (int \<times> mqtt_msg) option) \<Rightarrow>
    (int \<times> mqtt_msg) option" where
  "read_packet_id b d k =
     (if publish_qos d > 0 then rd (read_uint16 b) d (\<lambda>packet_id b. k b (d\<lparr>vh_u16 := packet_id\<rparr>)) else k b d)"

definition payload_at :: "nat \<Rightarrow> bytes \<Rightarrow> mqtt_buf" where
  "payload_at n b = \<lparr>blen = n, bbuf = (if n > 0 then Some (take n b) else None)\<rparr>"

definition nni_mqtt_msg_decode_publish :: "mqtt_nng_msg \<Rightarrow> mqtt_msg \<Rightarrow> (int \<times> mqtt_msg) option" where
  "nni_mqtt_msg_decode_publish m d =
     rd (read_utf8_str (nni_msg_body m)) d (\<lambda>topic b.
       read_packet_id b (d\<lparr>vh_name := topic\<rparr>) (\<lambda>b d.
         let header = 2 + blen (vh_name d) + (if publish_qos d > 0 then 2 else 0);
             len = wrap32 (remaining_length d + 2 ^ 32 - header) in
         Some (MQTT_SUCCESS, d\<lparr>pub_payload := payload_at len b\<rparr>)))"

text \<open>The packet identifier or an error.\<close>

definition nni_mqtt_msg_decode_base_with_packet_id :: "mqtt_nng_msg \<Rightarrow> int + u16" where
  "nni_mqtt_msg_decode_base_with_packet_id m =
     (case read_uint16 (nni_msg_body m) of Inl _ \<Rightarrow> Inl MQTT_ERR_PROTOCOL | Inr (packet_id, _) \<Rightarrow> Inr packet_id)"

definition decode_ack :: "mqtt_nng_msg \<Rightarrow> mqtt_msg \<Rightarrow> (int \<times> mqtt_msg) option" where
  "decode_ack m d =
     (case nni_mqtt_msg_decode_base_with_packet_id m of
        Inl e \<Rightarrow> Some (e, d)
      | Inr packet_id \<Rightarrow> Some (MQTT_SUCCESS, d\<lparr>ack_packet_id := packet_id\<rparr>))"

definition nni_mqtt_msg_decode_puback :: "mqtt_nng_msg \<Rightarrow> mqtt_msg \<Rightarrow> (int \<times> mqtt_msg) option" where
  "nni_mqtt_msg_decode_puback m d = decode_ack m d"

definition nni_mqtt_msg_decode_pubrec :: "mqtt_nng_msg \<Rightarrow> mqtt_msg \<Rightarrow> (int \<times> mqtt_msg) option" where
  "nni_mqtt_msg_decode_pubrec m d = decode_ack m d"

definition flags_are_2 :: "mqtt_msg \<Rightarrow> bool" where
  "flags_are_2 d \<longleftrightarrow>
     \<not> bit (fh_common d) 0 \<and> bit (fh_common d) 1 \<and> \<not> bit (fh_common d) 2 \<and> \<not> bit (fh_common d) 3"

definition nni_mqtt_msg_decode_pubrel :: "mqtt_nng_msg \<Rightarrow> mqtt_msg \<Rightarrow> (int \<times> mqtt_msg) option" where
  "nni_mqtt_msg_decode_pubrel m d =
     (if \<not> flags_are_2 d then Some (MQTT_ERR_PROTOCOL, d) else decode_ack m d)"

definition nni_mqtt_msg_decode_pubcomp :: "mqtt_nng_msg \<Rightarrow> mqtt_msg \<Rightarrow> (int \<times> mqtt_msg) option" where
  "nni_mqtt_msg_decode_pubcomp m d = decode_ack m d"

function read_un_topics :: "nat \<Rightarrow> nat \<Rightarrow> bytes \<Rightarrow> mqtt_buf list \<Rightarrow> mqtt_buf list option option" where
  "read_un_topics n i b acc =
     (if b = [] then Some (Some acc)
      else if i \<ge> n then None
      else
        (case read_utf8_str b of
           Inl _ \<Rightarrow> Some None
         | Inr (topic, r) \<Rightarrow> read_un_topics n (i + 1) r (acc @ [topic])))"
  by pat_completeness auto

termination
  by (relation "measure (\<lambda>(n, i, b, acc). n - i)") auto

declare read_un_topics.simps [simp del]

definition decode_un_topics :: "allocator \<Rightarrow> bytes \<Rightarrow> mqtt_msg \<Rightarrow> (int \<times> mqtt_msg) option" where
  "decode_un_topics al b d =
     (case count_topics 0 b of
        None \<Rightarrow> Some (MQTT_ERR_PROTOCOL, d)
      | Some n \<Rightarrow>
          if un_topics d \<noteq> [] \<or> (n > 0 \<and> \<not> al (n * 16)) then None
          else
            (case read_un_topics n 0 b [] of
               None \<Rightarrow> None
             | Some None \<Rightarrow> Some (MQTT_ERR_PROTOCOL, d\<lparr>un_topics := []\<rparr>)
             | Some (Some ts) \<Rightarrow> Some (MQTT_SUCCESS, d\<lparr>un_topics := ts\<rparr>)))"

definition nni_mqtt_msg_decode_unsubscribe ::
    "allocator \<Rightarrow> mqtt_nng_msg \<Rightarrow> mqtt_msg \<Rightarrow> (int \<times> mqtt_msg) option" where
  "nni_mqtt_msg_decode_unsubscribe al m d =
     (if \<not> flags_are_2 d then Some (MQTT_ERR_PROTOCOL, d)
      else
        rd (read_uint16 (nni_msg_body m)) d (\<lambda>packet_id b.
          decode_un_topics al b (d\<lparr>sub_packet_id := packet_id\<rparr>)))"

definition nni_mqtt_msg_decode_unsuback :: "mqtt_nng_msg \<Rightarrow> mqtt_msg \<Rightarrow> (int \<times> mqtt_msg) option" where
  "nni_mqtt_msg_decode_unsuback m d =
     (case nni_mqtt_msg_decode_base_with_packet_id m of
        Inl e \<Rightarrow> Some (e, d)
      | Inr packet_id \<Rightarrow> Some (MQTT_SUCCESS, d\<lparr>sub_packet_id := packet_id\<rparr>))"

definition nni_mqtt_msg_decode_base :: "mqtt_nng_msg \<Rightarrow> mqtt_msg \<Rightarrow> (int \<times> mqtt_msg) option" where
  "nni_mqtt_msg_decode_base m d = Some (MQTT_SUCCESS, d)"

section \<open>Selection by packet type\<close>

type_synonym encoder = "mqtt_nng_msg \<Rightarrow> mqtt_msg \<Rightarrow> (int \<times> mqtt_nng_msg \<times> mqtt_msg) option"
type_synonym decoder = "mqtt_nng_msg \<Rightarrow> mqtt_msg \<Rightarrow> (int \<times> mqtt_msg) option"

text \<open>The two columns of the table of handlers.\<close>

definition codec_encoders :: "allocator \<Rightarrow> u32 \<Rightarrow> (u8 \<times> encoder) list" where
  "codec_encoders al rnd =
     [(NNG_MQTT_CONNECT, nni_mqtt_msg_encode_connect al rnd),
      (NNG_MQTT_CONNACK, nni_mqtt_msg_encode_connack al),
      (NNG_MQTT_PUBLISH, nni_mqtt_msg_encode_publish al),
      (NNG_MQTT_PUBACK, nni_mqtt_msg_encode_puback al),
      (NNG_MQTT_PUBREC, nni_mqtt_msg_encode_pubrec al),
      (NNG_MQTT_PUBREL, nni_mqtt_msg_encode_pubrel al),
      (NNG_MQTT_PUBCOMP, nni_mqtt_msg_encode_pubcomp al),
      (NNG_MQTT_SUBSCRIBE, nni_mqtt_msg_encode_subscribe al),
      (NNG_MQTT_SUBACK, nni_mqtt_msg_encode_suback al),
      (NNG_MQTT_UNSUBSCRIBE, nni_mqtt_msg_encode_unsubscribe al),
      (NNG_MQTT_UNSUBACK, nni_mqtt_msg_encode_unsuback al),
      (NNG_MQTT_PINGREQ, nni_mqtt_msg_encode_base al),
      (NNG_MQTT_PINGRESP, nni_mqtt_msg_encode_base al),
      (NNG_MQTT_DISCONNECT, nni_mqtt_msg_encode_base al)]"

definition codec_decoders :: "allocator \<Rightarrow> (nat \<Rightarrow> mqtt_topic_qos) \<Rightarrow> (u8 \<times> decoder) list" where
  "codec_decoders al junk =
     [(NNG_MQTT_CONNECT, nni_mqtt_msg_decode_connect),
      (NNG_MQTT_CONNACK, nni_mqtt_msg_decode_connack),
      (NNG_MQTT_PUBLISH, nni_mqtt_msg_decode_publish),
      (NNG_MQTT_PUBACK, nni_mqtt_msg_decode_puback),
      (NNG_MQTT_PUBREC, nni_mqtt_msg_decode_pubrec),
      (NNG_MQTT_PUBREL, nni_mqtt_msg_decode_pubrel),
      (NNG_MQTT_PUBCOMP, nni_mqtt_msg_decode_pubcomp),
      (NNG_MQTT_SUBSCRIBE, nni_mqtt_msg_decode_subscribe al junk),
      (NNG_MQTT_SUBACK, nni_mqtt_msg_decode_suback al),
      (NNG_MQTT_UNSUBSCRIBE, nni_mqtt_msg_decode_unsubscribe al),
      (NNG_MQTT_UNSUBACK, nni_mqtt_msg_decode_unsuback),
      (NNG_MQTT_PINGREQ, nni_mqtt_msg_decode_base),
      (NNG_MQTT_PINGRESP, nni_mqtt_msg_decode_base),
      (NNG_MQTT_DISCONNECT, nni_mqtt_msg_decode_base)]"

definition started :: "bool \<Rightarrow> mqtt_msg \<Rightarrow> mqtt_msg" where
  "started copied d = (if \<not> initialized d then d\<lparr>initialized := True, is_copied := copied\<rparr> else d)"

text \<open>The search through the table and the call of its encoder, for either table.\<close>

definition encode_with :: "(u8 \<times> encoder) list \<Rightarrow> mqtt_nng_msg \<Rightarrow> (int \<times> mqtt_nng_msg) option" where
  "encode_with tbl m =
     (let m = nni_msg_header_clear (nni_msg_clear m) in
      case m_proto_data m of
        None \<Rightarrow> None
      | Some d \<Rightarrow>
          (case map_of tbl (packet_type d) of
             None \<Rightarrow> Some (MQTT_ERR_PROTOCOL, m)
           | Some enc \<Rightarrow>
               map_option (\<lambda>(rv, m, d). (rv, m\<lparr>m_proto_data := Some d\<rparr>))
                 (enc m ((started True d)\<lparr>is_decoded := False\<rparr>))))"

definition nni_mqtt_msg_encode ::
    "allocator \<Rightarrow> u32 \<Rightarrow> mqtt_nng_msg \<Rightarrow> (int \<times> mqtt_nng_msg) option" where
  "nni_mqtt_msg_encode al rnd m = encode_with (codec_encoders al rnd) m"

definition nni_mqtt_msg_decode ::
    "allocator \<Rightarrow> (nat \<Rightarrow> mqtt_topic_qos) \<Rightarrow> mqtt_nng_msg \<Rightarrow> (int \<times> mqtt_nng_msg) option" where
  "nni_mqtt_msg_decode al junk m =
     (case nni_mqtt_msg_decode_fixed_header m of
        None \<Rightarrow> None
      | Some (ret, m) \<Rightarrow>
          if ret \<noteq> MQTT_SUCCESS then Some (ret, m)
          else
            (case m_proto_data m of
               None \<Rightarrow> None
             | Some d \<Rightarrow>
                 (case map_of (codec_decoders al junk) (packet_type d) of
                    None \<Rightarrow> Some (MQTT_ERR_PROTOCOL, m)
                  | Some dec \<Rightarrow>
                      (case mqtt_msg_content_free d of
                         None \<Rightarrow> None
                       | Some d \<Rightarrow>
                           (let d = started False d in
                            if \<not> is_decoded d
                            then map_option (\<lambda>(rv, d). (rv, m\<lparr>m_proto_data := Some d\<rparr>))
                                   (dec m (d\<lparr>is_decoded := True\<rparr>))
                            else Some (MQTT_SUCCESS, m\<lparr>m_proto_data := Some d\<rparr>))))))"

section \<open>Steps of encoding and decoding\<close>

text \<open>\<open>holds m h b\<close>: the message is well formed and has the header \<open>h\<close> and the body \<open>b\<close>.\<close>

definition holds :: "'p nng_msg \<Rightarrow> bytes \<Rightarrow> bytes \<Rightarrow> bool" where
  "holds m h b \<longleftrightarrow> msg_wf m \<and> nni_msg_header m = h \<and> nni_msg_body m = b"

named_theorems held \<open>what the steps of an encoder do to the bytes of a message\<close>

lemma holds_self: "msg_wf m \<Longrightarrow> holds m (nni_msg_header m) (nni_msg_body m)"
  by (simp add: holds_def)

lemma holds_clear [held]: "holds m h b \<Longrightarrow> holds (nni_msg_clear m) h []"
  by (simp add: holds_def)

lemma holds_header_clear [held]: "holds m h b \<Longrightarrow> holds (nni_msg_header_clear m) [] b"
  by (auto simp: holds_def nni_msg_header_clear_def msg_wf_def nni_msg_body_def nni_msg_header_def)

lemma holds_proto [held]: "holds m h b \<Longrightarrow> holds (m\<lparr>m_proto_data := x\<rparr>) h b"
  by (simp add: holds_def msg_wf_def nni_msg_body_def nni_msg_header_def)

lemma holds_put [held]: "mem_ok al \<Longrightarrow> holds m h b \<Longrightarrow> holds (msg_put al m x) h (b @ x)"
  by (simp add: holds_def)

lemma holds_u8 [held]: "mem_ok al \<Longrightarrow> holds m h b \<Longrightarrow> holds (nni_mqtt_msg_append_u8 al m v) h (b @ [v])"
  by (simp add: append_u8_put held)

lemma holds_u16 [held]:
  "mem_ok al \<Longrightarrow> holds m h b \<Longrightarrow> holds (nni_mqtt_msg_append_u16 al m w) h (b @ NNI_PUT16 w)"
  by (simp add: append_u16_put held)

lemma holds_str [held]:
  "mem_ok al \<Longrightarrow> str_ok s \<Longrightarrow> holds m h b \<Longrightarrow> holds (nni_mqtt_msg_append_byte_str al m s) h (b @ str_enc s)"
  using grown_fields [OF grown_str, of al m s] by (simp add: holds_def)

lemma holds_append:
  assumes "mem_ok al" "holds m h b" "length x = n"
  shows "\<exists>m'. nni_msg_append al m (Some x) n = (0, m') \<and> holds m' h (b @ x)"
  using holds_put [OF assms(1,2), of x] nni_msg_append_mem [OF assms(1), of m "Some x" n] assms(3)
  by (cases "nni_msg_append al m (Some x) n") (auto simp: msg_put_def)

lemma holds_len: "holds m h b \<Longrightarrow> nni_msg_len m = length b"
  by (auto simp: holds_def)

lemma fixed_header_ok:
  assumes "mem_ok al" "holds m h b" "remaining_length d \<le> MQTT_MAX_MSG_LEN"
  shows "\<exists>m'. nni_mqtt_msg_encode_fixed_header al m d =
      Some (0, m', d\<lparr>used_bytes := length (write_var_loop 0 (remaining_length d))\<rparr>) \<and>
    holds m' (fh_common d # write_var_loop 0 (remaining_length d)) b"
proof -
  let ?v = "write_var_loop 0 (remaining_length d)"
  let ?m0 = "nni_msg_header_clear m"
  have l: "length ?v \<le> 4" using length_write_var_le [OF assms(3)] .
  have h0: "holds ?m0 [] b" using holds_header_clear [OF assms(2)] .
  then have wf0: "msg_wf ?m0" "m_header_len ?m0 = 0"
    by (simp_all add: holds_def nni_msg_header_clear_def)
  obtain rv1 m1 where a1: "nni_msg_header_append ?m0 [fh_common d] 1 = (rv1, m1)" by force
  have m1: "rv1 = 0" "msg_wf m1" "nni_msg_header m1 = [fh_common d]" "m_body m1 = m_body ?m0"
    using nni_msg_header_append_ok [of ?m0 1 "[fh_common d]"] wf0 h0 a1 by (simp_all add: holds_def)
  obtain rv2 m2 where a2: "nni_msg_header_append m1 ?v (length ?v) = (rv2, m2)" by force
  have "m_header_len m1 = 1"
    using m1(3) length_nni_msg_header [OF m1(2)] by (simp add: nni_msg_header_len_def)
  then have m2: "rv2 = 0" "msg_wf m2" "nni_msg_header m2 = fh_common d # ?v" "m_body m2 = m_body m1"
    using nni_msg_header_append_ok [of m1 "length ?v" ?v] m1 l a2 by simp_all
  have "nni_mqtt_msg_encode_fixed_header al m d = Some (0, m2, d\<lparr>used_bytes := length ?v\<rparr>)"
    using a1 a2 m1(1) m2(1) l assms(1)
    by (simp add: nni_mqtt_msg_encode_fixed_header_def mem_ok_def write_variable_length_value_small [OF assms(3)])
  moreover have "holds m2 (fh_common d # ?v) b"
    using m2 m1(4) h0 by (simp add: holds_def nni_msg_body_def)
  ultimately show ?thesis by blast
qed

lemma rd_Inr [simp]: "rd (Inr (x, b)) d k = k x b"
  by (simp add: rd_def)

lemma rd_str [simp]:
  "str_ok s \<Longrightarrow> rd (read_utf8_str (str_enc s @ r)) d k = k s r"
  "str_ok s \<Longrightarrow> rd (read_str_data (str_enc s @ r)) d k = k s r"
  by (simp_all add: str_codec.dec_enc read_str_data_eq)

lemma rd_u16 [simp]: "rd (read_uint16 (NNI_PUT16 w @ r)) d k = k w r"
  by (simp add: u16_codec.dec_enc)

lemma rd_byte [simp]: "rd (read_byte (v # r)) d k = k v r"
  by simp

lemma decode_header_ok:
  assumes "holds m (f # write_var_loop 0 n) b" "n \<le> MQTT_MAX_MSG_LEN" "m_proto_data m = Some g"
  shows "nni_mqtt_msg_decode_fixed_header m = Some (0, m\<lparr>m_proto_data := Some (g\<lparr>fh_common := f,
    remaining_length := n, used_bytes := length (write_var_loop 0 n)\<rparr>)\<rparr>)"
proof -
  let ?v = "write_var_loop 0 n"
  have wf: "msg_wf m" and h: "take (m_header_len m) (m_header_buf m) = f # ?v"
    using assms(1) by (simp_all add: holds_def nni_msg_header_def)
  then have l: "m_header_len m = Suc (length ?v)"
    using msg_wfD(2,3) [OF wf] length_take [of "m_header_len m" "m_header_buf m"] by simp
  have buf: "m_header_buf m = f # ?v @ drop (m_header_len m) (m_header_buf m)"
    using append_take_drop_id [of "m_header_len m" "m_header_buf m"] h by simp
  have "read_var_loop ([] @ ?v @ drop (m_header_len m) (m_header_buf m)) (m_header_len m) 0 1 0 =
      Inr (0 + n * 1, 0 + length ?v)"
    using assms(2) l by (intro read_write_var) simp_all
  moreover have "drop 1 (m_header_buf m) = ?v @ drop (m_header_len m) (m_header_buf m)"
    "m_header_buf m ! 0 = f"
    by (subst buf, simp)+
  moreover have "length ?v \<noteq> 0" "length ?v \<le> 4"
    using length_write_var_le [OF assms(2)] by simp_all
  ultimately show ?thesis
    using l assms(3)
    by (simp add: nni_mqtt_msg_decode_fixed_header_def mqtt_get_remaining_length_def Let_def)
qed

section \<open>Packets\<close>

text \<open>
  What a packet type promises. \<open>ok\<close> are the data the encoder accepts, \<open>out\<close> what it makes of them,
  \<open>bdy\<close> the body it writes, and \<open>got s g\<close> the data the decoder makes of \<open>g\<close> when \<open>s\<close> was sent. The length
  fields are set by \<open>sized\<close>.
\<close>

definition sized :: "(mqtt_msg \<Rightarrow> bytes) \<Rightarrow> mqtt_msg \<Rightarrow> mqtt_msg" where
  "sized bdy d = d\<lparr>remaining_length := length (bdy d),
     used_bytes := length (write_var_loop 0 (length (bdy d)))\<rparr>"

definition received :: "mqtt_msg \<Rightarrow> mqtt_msg \<Rightarrow> bool" where
  "received s g \<longleftrightarrow>
     fh_common g = fh_common s \<and> remaining_length g = remaining_length s \<and> topics g = [] \<and> un_topics g = []"

locale packet_codec =
  fixes ok :: "mqtt_msg \<Rightarrow> bool" and out :: "allocator \<Rightarrow> mqtt_msg \<Rightarrow> mqtt_msg" and bdy :: "mqtt_msg \<Rightarrow> bytes"
    and got :: "mqtt_msg \<Rightarrow> mqtt_msg \<Rightarrow> mqtt_msg" and enc :: "allocator \<Rightarrow> encoder" and dec :: "allocator \<Rightarrow> decoder"
  assumes enc_ok: "mem_ok al \<Longrightarrow> msg_wf m \<Longrightarrow> ok d \<Longrightarrow> length (bdy (out al d)) \<le> MQTT_MAX_MSG_LEN \<Longrightarrow>
      \<exists>m'. enc al m d = Some (0, m', sized bdy (out al d)) \<and>
        holds m' (fh_common (out al d) # write_var_loop 0 (length (bdy (out al d)))) (bdy (out al d))"
    and bdy_sized: "bdy (sized bdy d) = bdy d"
    and dec_ok: "mem_ok al \<Longrightarrow> ok d \<Longrightarrow> length (bdy (out al d)) \<le> MQTT_MAX_MSG_LEN \<Longrightarrow>
      holds m (fh_common (out al d) # write_var_loop 0 (length (bdy (out al d)))) (bdy (out al d)) \<Longrightarrow> received (sized bdy (out al d)) g \<Longrightarrow>
      dec al m g = Some (0, got (sized bdy (out al d)) g)"
begin

text \<open>The whole way: the decoder undoes the encoder on every message with the same bytes.\<close>

lemma round_trip:
  assumes "mem_ok al" "msg_wf m" "ok d" "length (bdy (out al d)) \<le> MQTT_MAX_MSG_LEN"
  shows "\<exists>m' s. enc al m d = Some (0, m', s) \<and> s = sized bdy (out al d) \<and>
    holds m' (fh_common s # write_var_loop 0 (remaining_length s)) (bdy s) \<and>
    remaining_length s \<le> MQTT_MAX_MSG_LEN \<and> used_bytes s = length (write_var_loop 0 (remaining_length s)) \<and>
    (\<forall>m2 g. holds m2 (fh_common s # write_var_loop 0 (remaining_length s)) (bdy s) \<longrightarrow> received s g \<longrightarrow>
       dec al m2 g = Some (0, got s g))"
proof -
  have "fh_common (sized bdy (out al d)) = fh_common (out al d)"
    "remaining_length (sized bdy (out al d)) = length (bdy (out al d))"
    "used_bytes (sized bdy (out al d)) = length (write_var_loop 0 (length (bdy (out al d))))"
    by (simp_all add: sized_def)
  then show ?thesis
    using enc_ok [OF assms] dec_ok [OF assms(1,3,4)] assms(4) by (auto simp: bdy_sized)
qed

end

text \<open>A decoder that reads the body only.\<close>

lemma packet_codecI:
  assumes "\<And>al m d. mem_ok al \<Longrightarrow> msg_wf m \<Longrightarrow> ok d \<Longrightarrow> length (bdy (out al d)) \<le> MQTT_MAX_MSG_LEN \<Longrightarrow>
      \<exists>m'. enc al m d = Some (0, m', sized bdy (out al d)) \<and>
        holds m' (fh_common (out al d) # write_var_loop 0 (length (bdy (out al d)))) (bdy (out al d))"
    and "\<And>d. bdy (sized bdy d) = bdy d"
    and "\<And>al d m g. mem_ok al \<Longrightarrow> ok d \<Longrightarrow> length (bdy (out al d)) \<le> MQTT_MAX_MSG_LEN \<Longrightarrow>
      nni_msg_body m = bdy (out al d) \<Longrightarrow> received (sized bdy (out al d)) g \<Longrightarrow>
      dec al m g = Some (0, got (sized bdy (out al d)) g)"
  shows "packet_codec ok out bdy got enc dec"
  using assms by unfold_locales (auto simp: holds_def)

text \<open>The step all encoders share.\<close>

lemma fixed_header_sized:
  assumes "mem_ok al" "holds m h b" "n = length (bdy d)" "n \<le> MQTT_MAX_MSG_LEN"
  obtains m' where "nni_mqtt_msg_encode_fixed_header al m (d\<lparr>remaining_length := n\<rparr>) = Some (0, m', sized bdy d)"
    "holds m' (fh_common d # write_var_loop 0 (length (bdy d))) b"
  using fixed_header_ok [OF assms(1,2), of "d\<lparr>remaining_length := n\<rparr>"] assms(3,4)
  by (auto simp: sized_def)

lemma sized_simps [simp]:
  "fh_common (sized bdy d) = fh_common d" "vh_name (sized bdy d) = vh_name d"
  "vh_version (sized bdy d) = vh_version d" "conn_flags (sized bdy d) = conn_flags d"
  "vh_u16 (sized bdy d) = vh_u16 d" "ca_flags (sized bdy d) = ca_flags d"
  "conn_return_code (sized bdy d) = conn_return_code d" "ack_packet_id (sized bdy d) = ack_packet_id d"
  "sub_packet_id (sized bdy d) = sub_packet_id d" "client_id (sized bdy d) = client_id d"
  "will_topic (sized bdy d) = will_topic d" "will_msg (sized bdy d) = will_msg d"
  "user_name (sized bdy d) = user_name d" "password (sized bdy d) = password d"
  "pub_payload (sized bdy d) = pub_payload d" "topics (sized bdy d) = topics d"
  "ret_codes (sized bdy d) = ret_codes d" "un_topics (sized bdy d) = un_topics d"
  "publish_qos (sized bdy d) = publish_qos d" "remaining_length (sized bdy d) = length (bdy d)"
  "packet_type (sized bdy d) = packet_type d"
  by (simp_all add: sized_def publish_qos_def packet_type_def)

lemma holds_start: "msg_wf m \<Longrightarrow> holds (nni_msg_clear m) (nni_msg_header m) []"
  by (rule holds_clear [OF holds_self])

subsection \<open>Packets with a fixed body\<close>

interpretation base3: packet_codec "\<lambda>_. True" "\<lambda>_ d. d" "\<lambda>_. []" "\<lambda>s g. g" nni_mqtt_msg_encode_base
  "\<lambda>_. nni_mqtt_msg_decode_base"
proof (rule packet_codecI, goal_cases)
  case (1 al m d)
  obtain m' where "nni_mqtt_msg_encode_fixed_header al (nni_msg_clear m) (d\<lparr>remaining_length := 0\<rparr>) =
      Some (0, m', sized (\<lambda>_. []) d)" "holds m' (fh_common d # write_var_loop 0 (length [])) []"
    by (rule fixed_header_sized [OF 1(1) holds_start [OF 1(2)], of 0 "\<lambda>_. []" d]) simp_all
  then show ?case by (simp add: nni_mqtt_msg_encode_base_def)
qed (simp_all add: nni_mqtt_msg_decode_base_def)

definition connack_body :: "mqtt_msg \<Rightarrow> bytes" where
  "connack_body d = [ca_flags d, conn_return_code d]"

interpretation connack3: packet_codec "\<lambda>_. True" "\<lambda>_ d. d" connack_body
  "\<lambda>s g. g\<lparr>ca_flags := ca_flags s, conn_return_code := conn_return_code s\<rparr>" nni_mqtt_msg_encode_connack
  "\<lambda>_. nni_mqtt_msg_decode_connack"
proof (rule packet_codecI, goal_cases)
  case (1 al m d)
  obtain m' where m': "nni_mqtt_msg_encode_fixed_header al (nni_msg_clear m) (d\<lparr>remaining_length := 2\<rparr>) =
      Some (0, m', sized connack_body d)" "holds m' (fh_common d # write_var_loop 0 (length (connack_body d))) []"
    by (rule fixed_header_sized [OF 1(1) holds_start [OF 1(2)], of 2 connack_body d])
      (simp_all add: connack_body_def)
  have "holds (nni_mqtt_msg_append_u8 al (nni_mqtt_msg_append_u8 al m' (ca_flags d)) (conn_return_code d))
      (fh_common d # write_var_loop 0 (length (connack_body d))) (([] @ [ca_flags d]) @ [conn_return_code d])"
    by (intro holds_u8 1(1) m'(2))
  then show ?case
    using m'(1) by (simp add: nni_mqtt_msg_encode_connack_def connack_body_def)
qed (simp_all add: connack_body_def nni_mqtt_msg_decode_connack_def Let_def)

definition ack_body :: "mqtt_msg \<Rightarrow> bytes" where
  "ack_body d = NNI_PUT16 (ack_packet_id d)"

abbreviation ack_got :: "mqtt_msg \<Rightarrow> mqtt_msg \<Rightarrow> mqtt_msg" where
  "ack_got s g \<equiv> g\<lparr>ack_packet_id := ack_packet_id s\<rparr>"

lemma ack_body_simps [simp]: "length (ack_body d) = 2" "ack_body (sized bdy d) = ack_body d"
  by (simp_all add: ack_body_def)

lemma decode_ack_ok: "nni_msg_body m = ack_body s \<Longrightarrow> decode_ack m g = Some (0, ack_got s g)"
  using u16_codec.dec_enc [of "ack_packet_id s" "[]"]
  by (simp add: decode_ack_def nni_mqtt_msg_decode_base_with_packet_id_def ack_body_def)

lemma encode_ack_ok:
  assumes "mem_ok al" "msg_wf m"
  shows "\<exists>m'. map_option (\<lambda>(_, m, d). (0 :: int, nni_mqtt_msg_append_u16 al m (ack_packet_id d), d))
      (nni_mqtt_msg_encode_fixed_header al (nni_msg_clear m) (d\<lparr>remaining_length := 2\<rparr>)) =
      Some (0, m', sized ack_body d) \<and>
    holds m' (fh_common d # write_var_loop 0 (length (ack_body d))) (ack_body d)"
proof -
  obtain m' where m': "nni_mqtt_msg_encode_fixed_header al (nni_msg_clear m) (d\<lparr>remaining_length := 2\<rparr>) =
      Some (0, m', sized ack_body d)" "holds m' (fh_common d # write_var_loop 0 (length (ack_body d))) []"
    by (rule fixed_header_sized [OF assms(1) holds_start [OF assms(2)], of 2 ack_body d]) simp_all
  have "holds (nni_mqtt_msg_append_u16 al m' (ack_packet_id d))
      (fh_common d # write_var_loop 0 (length (ack_body d))) ([] @ ack_body d)"
    unfolding ack_body_def [of d] by (intro holds_u16 assms(1)) (use m'(2) in \<open>simp add: ack_body_def\<close>)
  then show ?thesis using m'(1) by simp
qed

interpretation puback3: packet_codec "\<lambda>_. True" "\<lambda>_ d. d" ack_body ack_got nni_mqtt_msg_encode_puback
  "\<lambda>_. nni_mqtt_msg_decode_puback"
proof (rule packet_codecI, goal_cases)
  case (1 al m d)
  have "holds (nni_mqtt_msg_append_u16 al (nni_msg_clear m) (ack_packet_id d)) (nni_msg_header m) ([] @ ack_body d)"
    unfolding ack_body_def by (intro holds_u16 1(1) holds_start [OF 1(2)])
  then obtain m' where "nni_mqtt_msg_encode_fixed_header al (nni_mqtt_msg_append_u16 al (nni_msg_clear m)
      (ack_packet_id d)) (d\<lparr>remaining_length := 2\<rparr>) = Some (0, m', sized ack_body d)"
    "holds m' (fh_common d # write_var_loop 0 (length (ack_body d))) ([] @ ack_body d)"
    by (rule fixed_header_sized [OF 1(1), of _ _ _ 2 ack_body d]) simp_all
  then show ?case by (simp add: nni_mqtt_msg_encode_puback_def)
qed (simp_all add: nni_mqtt_msg_decode_puback_def decode_ack_ok)

interpretation pubrec3: packet_codec "\<lambda>_. True" "\<lambda>_ d. d" ack_body ack_got nni_mqtt_msg_encode_pubrec
  "\<lambda>_. nni_mqtt_msg_decode_pubrec"
proof (rule packet_codecI, goal_cases)
  case (1 al m d)
  show ?case unfolding nni_mqtt_msg_encode_pubrec_def by (rule encode_ack_ok [OF 1(1,2)])
qed (simp_all add: nni_mqtt_msg_decode_pubrec_def decode_ack_ok)

interpretation pubcomp3: packet_codec "\<lambda>_. True" "\<lambda>_ d. d" ack_body ack_got nni_mqtt_msg_encode_pubcomp
  "\<lambda>_. nni_mqtt_msg_decode_pubcomp"
proof (rule packet_codecI, goal_cases)
  case (1 al m d)
  show ?case unfolding nni_mqtt_msg_encode_pubcomp_def by (rule encode_ack_ok [OF 1(1,2)])
qed (simp_all add: nni_mqtt_msg_decode_pubcomp_def decode_ack_ok)

text \<open>The flags of PUBREL, SUBSCRIBE and UNSUBSCRIBE are 2 once the bit is set, if the other bits are clear.\<close>

definition no_flags :: "mqtt_msg \<Rightarrow> bool" where
  "no_flags d \<longleftrightarrow> \<not> bit (fh_common d) 0 \<and> \<not> bit (fh_common d) 2 \<and> \<not> bit (fh_common d) 3"

lemma flags_set: "no_flags d \<Longrightarrow> received (sized bdy (set_bit_1 d)) g \<Longrightarrow> flags_are_2 g"
proof -
  have "bit (2 :: u8) n \<longleftrightarrow> n = 1" for n
    using bit_2_iff [where 'a = "8 word"] by simp
  then show "no_flags d \<Longrightarrow> received (sized bdy (set_bit_1 d)) g \<Longrightarrow> flags_are_2 g"
    by (simp add: no_flags_def flags_are_2_def received_def set_bit_1_def bit_or_iff)
qed

lemma set_bit_1_simps [simp]:
  "ack_packet_id (set_bit_1 d) = ack_packet_id d" "sub_packet_id (set_bit_1 d) = sub_packet_id d"
  "topics (set_bit_1 d) = topics d" "un_topics (set_bit_1 d) = un_topics d"
  by (simp_all add: set_bit_1_def)

interpretation pubrel3: packet_codec no_flags "\<lambda>_. set_bit_1" ack_body ack_got nni_mqtt_msg_encode_pubrel
  "\<lambda>_. nni_mqtt_msg_decode_pubrel"
proof (rule packet_codecI, goal_cases)
  case (1 al m d)
  show ?case
    using encode_ack_ok [OF 1(1,2), of "set_bit_1 d"] by (simp add: nni_mqtt_msg_encode_pubrel_def)
next
  case (3 al d m g)
  show ?case
    using flags_set [OF 3(2,5)] decode_ack_ok [OF 3(4)] by (simp add: nni_mqtt_msg_decode_pubrel_def)
qed simp

definition unsuback_body :: "mqtt_msg \<Rightarrow> bytes" where
  "unsuback_body d = NNI_PUT16 (sub_packet_id d)"

interpretation unsuback3: packet_codec "\<lambda>_. True" "\<lambda>_ d. d" unsuback_body
  "\<lambda>s g. g\<lparr>sub_packet_id := sub_packet_id s\<rparr>" nni_mqtt_msg_encode_unsuback "\<lambda>_. nni_mqtt_msg_decode_unsuback"
proof (rule packet_codecI, goal_cases)
  case (1 al m d)
  obtain m' where m': "nni_mqtt_msg_encode_fixed_header al (nni_msg_clear m) (d\<lparr>remaining_length := 2\<rparr>) =
      Some (0, m', sized unsuback_body d)" "holds m' (fh_common d # write_var_loop 0 (length (unsuback_body d))) []"
    by (rule fixed_header_sized [OF 1(1) holds_start [OF 1(2)], of 2 unsuback_body d])
      (simp_all add: unsuback_body_def)
  have "holds (nni_mqtt_msg_append_u16 al m' (sub_packet_id d))
      (fh_common d # write_var_loop 0 (length (unsuback_body d))) ([] @ NNI_PUT16 (sub_packet_id d))"
    by (intro holds_u16 1(1) m'(2))
  then show ?case
    using m'(1) by (simp add: nni_mqtt_msg_encode_unsuback_def unsuback_body_def)
next
  case (3 al d m g)
  then show ?case
    using u16_codec.dec_enc [of "sub_packet_id d" "[]"]
    by (simp add: nni_mqtt_msg_decode_unsuback_def nni_mqtt_msg_decode_base_with_packet_id_def unsuback_body_def)
qed (simp add: unsuback_body_def)

subsection \<open>Packets with a payload\<close>

definition suback_body :: "mqtt_msg \<Rightarrow> bytes" where
  "suback_body d = NNI_PUT16 (sub_packet_id d) @ ret_codes d"

lemma read_ret_codes_all: "read_ret_codes (length b) (b @ r) acc = Some (acc @ b)"
  by (induction b arbitrary: acc) simp_all

lemma decode_ret_codes_ok:
  assumes "mem_ok al" "length b < 2 ^ 32"
  shows "decode_ret_codes al b d = Some (0, d\<lparr>ret_codes := b\<rparr>)"
proof -
  have "wrap32 (length b) = length b" using assms(2) by simp
  then show ?thesis
    using assms(1) read_ret_codes_all [of b "[]" "[]"]
    by (simp add: decode_ret_codes_def mem_ok_def)
qed

interpretation suback3: packet_codec "\<lambda>_. True" "\<lambda>_ d. d" suback_body
  "\<lambda>s g. g\<lparr>sub_packet_id := sub_packet_id s, ret_codes := ret_codes s\<rparr>" nni_mqtt_msg_encode_suback
  nni_mqtt_msg_decode_suback
proof (rule packet_codecI, goal_cases)
  case (1 al m d)
  let ?n = "2 + length (ret_codes d)"
  have n: "?n = length (suback_body d)" by (simp add: suback_body_def)
  have w: "wrap32 ?n = ?n" using 1(4) n by simp
  obtain m' where m': "nni_mqtt_msg_encode_fixed_header al (nni_msg_clear m) (d\<lparr>remaining_length := ?n\<rparr>) =
      Some (0, m', sized suback_body d)" "holds m' (fh_common d # write_var_loop 0 (length (suback_body d))) []"
    by (rule fixed_header_sized [where bdy = suback_body and d = d, OF 1(1) holds_start [OF 1(2)] n]) (use 1(4) n in simp_all)
  have "holds (msg_put al (nni_mqtt_msg_append_u16 al m' (sub_packet_id d)) (ret_codes d))
      (fh_common d # write_var_loop 0 (length (suback_body d))) (([] @ NNI_PUT16 (sub_packet_id d)) @ ret_codes d)"
    by (intro holds_put holds_u16 1(1) m'(2))
  then show ?case
    using m'(1) w by (simp add: nni_mqtt_msg_encode_suback_def msg_put_def suback_body_def)
next
  case (3 al d m g)
  then show ?case
    using decode_ret_codes_ok [OF 3(1), of "ret_codes d"]
    by (simp add: nni_mqtt_msg_decode_suback_def suback_body_def)
qed (simp add: suback_body_def)

text \<open>A payload is a buffer with its bytes, or null when it is empty.\<close>

definition pay_ok :: "mqtt_buf \<Rightarrow> bool" where
  "pay_ok b \<longleftrightarrow> (case bbuf b of None \<Rightarrow> blen b = 0 | Some d \<Rightarrow> d \<noteq> [] \<and> length d = blen b)"

definition publish_body :: "mqtt_msg \<Rightarrow> bytes" where
  "publish_body d = str_enc (vh_name d) @ (if publish_qos d > 0 then NNI_PUT16 (vh_u16 d) else []) @
     str_bytes (pub_payload d)"

definition publish_ok :: "mqtt_msg \<Rightarrow> bool" where
  "publish_ok d \<longleftrightarrow> str_ok (vh_name d) \<and> pay_ok (pub_payload d)"

lemma pay_bytes: "pay_ok b \<Longrightarrow> length (str_bytes b) = blen b"
  by (auto simp: pay_ok_def str_bytes_def split: option.splits)

lemma payload_at_self: "pay_ok b \<Longrightarrow> payload_at (blen b) (str_bytes b) = b"
  by (cases b) (auto simp: pay_ok_def str_bytes_def payload_at_def split: option.splits)

lemma append_payload:
  assumes "mem_ok al" "holds m h b" "pay_ok p"
  obtains m' where "(if blen p > 0 then nni_msg_append al m (bbuf p) (blen p) else (0, m)) = (0, m')"
    "holds m' h (b @ str_bytes p)"
proof (cases "bbuf p")
  case None
  then show ?thesis using assms that [of m] by (simp add: pay_ok_def str_bytes_def)
next
  case (Some x)
  then have "length x = blen p" "x \<noteq> []" "str_bytes p = x" using assms(3) by (simp_all add: pay_ok_def str_bytes_def)
  moreover from this(1) obtain m' where "nni_msg_append al m (Some x) (blen p) = (0, m')" "holds m' h (b @ x)"
    using holds_append [OF assms(1,2)] by blast
  ultimately show ?thesis
    by (intro that [of m']) (use Some in auto)
qed

definition publish_got :: "mqtt_msg \<Rightarrow> mqtt_msg \<Rightarrow> mqtt_msg" where
  "publish_got s g = g\<lparr>vh_name := vh_name s, vh_u16 := (if publish_qos s > 0 then vh_u16 s else vh_u16 g),
     pub_payload := pub_payload s\<rparr>"

lemma publish_qos_simps [simp]:
  "publish_qos (d\<lparr>remaining_length := n\<rparr>) = publish_qos d" "publish_qos (d\<lparr>vh_name := x\<rparr>) = publish_qos d"
  "publish_qos (d\<lparr>vh_u16 := y\<rparr>) = publish_qos d"
  by (simp_all add: publish_qos_def)

interpretation publish3: packet_codec publish_ok "\<lambda>_ d. d" publish_body publish_got nni_mqtt_msg_encode_publish
  "\<lambda>_. nni_mqtt_msg_decode_publish"
proof (rule packet_codecI, goal_cases)
  case (1 al m d)
  let ?n = "2 + blen (vh_name d) + (if publish_qos d > 0 then 2 else 0) + blen (pub_payload d)"
  let ?h = "fh_common d # write_var_loop 0 (length (publish_body d))"
  have ok: "str_ok (vh_name d)" "pay_ok (pub_payload d)"
    using 1(3) by (simp_all add: publish_ok_def)
  then have n: "?n = length (publish_body d)"
    by (simp add: publish_body_def pay_bytes)
  then have w: "wrap32 ?n = ?n" using 1(4) by simp
  obtain m1 where m1: "nni_mqtt_msg_encode_fixed_header al (nni_msg_header_clear (nni_msg_clear m))
      (d\<lparr>remaining_length := ?n\<rparr>) = Some (0, m1, sized publish_body d)" "holds m1 ?h []"
    by (rule fixed_header_sized [where bdy = publish_body and d = d,
          OF 1(1) holds_header_clear [OF holds_start [OF 1(2)]] n])
      (use 1(4) n in simp_all)
  let ?m2 = "nni_mqtt_msg_append_byte_str al m1 (vh_name d)"
  let ?m3 = "if publish_qos d > 0 then nni_mqtt_msg_append_u16 al ?m2 (vh_u16 d) else ?m2"
  have m2: "holds ?m2 ?h ([] @ str_enc (vh_name d))" by (intro holds_str 1(1) ok m1(2))
  then have "holds ?m3 ?h (str_enc (vh_name d) @ (if publish_qos d > 0 then NNI_PUT16 (vh_u16 d) else []))"
    using holds_u16 [OF 1(1) m2, of "vh_u16 d"] by simp
  from append_payload [OF 1(1) this ok(2)]
  obtain m' where m': "(if blen (pub_payload d) > 0
        then nni_msg_append al ?m3 (bbuf (pub_payload d)) (blen (pub_payload d)) else (0, ?m3)) = (0, m')"
    "holds m' ?h (publish_body d)"
    by (auto simp: publish_body_def)
  show ?case
    using m'(2) holds_len [OF m'(2)]
    by (simp only: nni_mqtt_msg_encode_publish_def Let_def w m1(1) option.case prod.case sized_simps m'(1)) simp
next
  case (3 al d m g)
  have ok: "str_ok (vh_name d)" "pay_ok (pub_payload d)"
    using 3(2) by (simp_all add: publish_ok_def)
  have g: "publish_qos g = publish_qos d" "remaining_length g = length (publish_body d)"
    using 3(5) by (simp_all add: received_def publish_qos_def)
  have "blen (pub_payload d) \<le> length (publish_body d)"
    using ok by (simp add: publish_body_def pay_bytes)
  then have "wrap32 (4294967296 + blen (pub_payload d)) = blen (pub_payload d)"
    using 3(3) by (simp add: wrap32_def)
  then show ?case
    using 3(4) ok g payload_at_self [OF ok(2)] pay_bytes [OF ok(2)]
    by (simp add: nni_mqtt_msg_decode_publish_def read_packet_id_def publish_got_def publish_body_def Let_def)
qed (simp add: publish_body_def)

text \<open>Topics of SUBSCRIBE; \<open>opts\<close> is the byte behind a topic.\<close>

definition topics_enc :: "(mqtt_topic_qos \<Rightarrow> u8) \<Rightarrow> mqtt_topic_qos list \<Rightarrow> bytes" where
  "topics_enc opts ts = concat (map (\<lambda>t. str_enc (tq_topic t) @ [opts t]) ts)"

definition topics_ok :: "mqtt_topic_qos list \<Rightarrow> bool" where
  "topics_ok ts \<longleftrightarrow> (\<forall>t \<in> set ts. str_ok (tq_topic t))"

lemma topics_enc_simps [simp]:
  "topics_enc opts [] = []"
  "topics_enc opts (t # ts) = str_enc (tq_topic t) @ opts t # topics_enc opts ts"
  by (simp_all add: topics_enc_def)

lemma topics_ok_simps [simp]:
  "topics_ok []" "topics_ok (t # ts) \<longleftrightarrow> str_ok (tq_topic t) \<and> topics_ok ts"
  by (simp_all add: topics_ok_def)

lemma topics_length_eq:
  "topics_ok ts \<Longrightarrow> n + length (topics_enc opts ts) < 2 ^ 32 \<Longrightarrow>
   topics_length ts n = n + length (topics_enc opts ts)"
  by (induction ts arbitrary: n) simp_all

lemma holds_topics:
  "mem_ok al \<Longrightarrow> topics_ok ts \<Longrightarrow> holds m h b \<Longrightarrow> holds (put_topics al m ts) h (b @ topics_enc tq_qos ts)"
proof (induction ts arbitrary: m b)
  case (Cons t ts)
  have "holds (nni_mqtt_msg_append_u8 al (nni_mqtt_msg_append_byte_str al m (tq_topic t)) (tq_qos t)) h
      ((b @ str_enc (tq_topic t)) @ [tq_qos t])"
    using Cons.prems by (intro holds_u8 holds_str) simp_all
  then show ?case using Cons.IH Cons.prems(1,2) by fastforce
qed simp

lemma str_enc_ne [simp]: "str_enc s \<noteq> []"
  by (simp add: str_enc_def NNI_PUT16_def)

lemma count_topics_Cons:
  assumes "str_ok s" "length x = extra"
  shows "count_topics extra (str_enc s @ x @ r) = map_option Suc (count_topics extra r)"
proof -
  have "read_uint16 (str_enc s @ x @ r) = Inr (of_nat (blen s), str_bytes s @ x @ r)"
    using u16_codec.dec_enc [of "of_nat (blen s)"] by (simp add: str_enc_def)
  moreover have "unat (of_nat (blen s) :: u16) = blen s"
    using assms(1) by (simp add: str_ok_def unsigned_of_nat take_bit_nat_eq_self)
  ultimately show ?thesis
    using assms by (subst count_topics.simps) simp
qed

lemma count_topics_enc: "topics_ok ts \<Longrightarrow> count_topics 1 (topics_enc opts ts) = Some (length ts)"
proof (induction ts)
  case (Cons t ts)
  then show ?case using count_topics_Cons [of "tq_topic t" "[opts t]" 1] by simp
qed (simp add: count_topics.simps)

lemma read_topics_enc:
  "topics_ok ts \<Longrightarrow> n = i + length ts \<Longrightarrow>
   read_topics entry n i (topics_enc opts ts) acc =
     Some (Some (acc @ map (\<lambda>(j, t). entry j (tq_topic t) (opts t)) (zip [i..<n] ts)))"
proof (induction ts arbitrary: i acc)
  case (Cons t ts)
  have "[i..<n] = i # [Suc i..<n]" by (rule upt_conv_Cons) (use Cons.prems(2) in simp)
  then show ?case
    using Cons.prems Cons.IH [of "Suc i"] str_codec.dec_enc [of "tq_topic t"]
    by (subst read_topics.simps) simp
qed (simp add: read_topics.simps)

lemma decode_topics_ok:
  assumes "mem_ok al" "topics_ok ts" "topics d = []"
  shows "decode_topics al entry (topics_enc opts ts) d =
    Some (0, d\<lparr>topics := map (\<lambda>(j, t). entry j (tq_topic t) (opts t)) (zip [0..<length ts] ts)\<rparr>)"
  using assms count_topics_enc [OF assms(2), of opts] read_topics_enc [OF assms(2), of "length ts" 0 entry opts "[]"]
  by (simp add: decode_topics_def mem_ok_def)

definition subscribe_body :: "mqtt_msg \<Rightarrow> bytes" where
  "subscribe_body d = NNI_PUT16 (sub_packet_id d) @ topics_enc tq_qos (topics d)"

definition numbered :: "(nat \<Rightarrow> mqtt_buf \<Rightarrow> u8 \<Rightarrow> mqtt_topic_qos) \<Rightarrow> (mqtt_topic_qos \<Rightarrow> u8) \<Rightarrow>
    mqtt_topic_qos list \<Rightarrow> mqtt_topic_qos list" where
  "numbered entry opts ts = map (\<lambda>(j, t). entry j (tq_topic t) (opts t)) (zip [0..<length ts] ts)"

interpretation subscribe3: packet_codec "\<lambda>d. topics_ok (topics d)" "\<lambda>_. set_bit_1" subscribe_body
  "\<lambda>s g. g\<lparr>sub_packet_id := sub_packet_id s, topics := numbered (topic_entry junk) tq_qos (topics s)\<rparr>"
  nni_mqtt_msg_encode_subscribe "\<lambda>al. nni_mqtt_msg_decode_subscribe al junk" for junk
proof (rule packet_codecI, goal_cases)
  case (1 al m d)
  let ?d = "set_bit_1 d"
  let ?h = "fh_common ?d # write_var_loop 0 (length (subscribe_body ?d))"
  have n: "topics_length (topics d) 2 = length (subscribe_body ?d)"
    using topics_length_eq [OF 1(3), of 2 tq_qos] 1(4) by (simp add: subscribe_body_def)
  obtain m' where m': "nni_mqtt_msg_encode_fixed_header al (nni_msg_clear m)
      (?d\<lparr>remaining_length := topics_length (topics d) 2\<rparr>) = Some (0, m', sized subscribe_body ?d)" "holds m' ?h []"
    by (rule fixed_header_sized [where bdy = subscribe_body and d = ?d, OF 1(1) holds_start [OF 1(2)] n])
      (use 1(4) n in simp_all)
  have "holds (put_topics al (nni_mqtt_msg_append_u16 al m' (sub_packet_id d)) (topics d)) ?h
      (([] @ NNI_PUT16 (sub_packet_id d)) @ topics_enc tq_qos (topics d))"
    by (intro holds_topics holds_u16 1(1) m'(2) 1(3))
  then show ?case
    using m'(1) by (simp add: nni_mqtt_msg_encode_subscribe_def subscribe_body_def Let_def)
next
  case (3 al d m g)
  then show ?case
    using decode_topics_ok [OF 3(1,2), of "g\<lparr>sub_packet_id := sub_packet_id d\<rparr>"]
    by (simp add: nni_mqtt_msg_decode_subscribe_def subscribe_body_def received_def numbered_def)
qed (simp add: subscribe_body_def)

text \<open>Topics of UNSUBSCRIBE.\<close>

definition un_topics_enc :: "mqtt_buf list \<Rightarrow> bytes" where
  "un_topics_enc ts = concat (map str_enc ts)"

lemma un_topics_enc_simps [simp]:
  "un_topics_enc [] = []" "un_topics_enc (t # ts) = str_enc t @ un_topics_enc ts"
  by (simp_all add: un_topics_enc_def)

lemma un_topics_length_eq:
  "list_all str_ok ts \<Longrightarrow> n + length (un_topics_enc ts) < 2 ^ 32 \<Longrightarrow>
   un_topics_length ts n = n + length (un_topics_enc ts)"
  by (induction ts arbitrary: n) simp_all

lemma holds_un_topics:
  "mem_ok al \<Longrightarrow> list_all str_ok ts \<Longrightarrow> holds m h b \<Longrightarrow> holds (put_un_topics al m ts) h (b @ un_topics_enc ts)"
proof (induction ts arbitrary: m b)
  case (Cons t ts)
  have "holds (nni_mqtt_msg_append_byte_str al m t) h (b @ str_enc t)"
    using Cons.prems by (intro holds_str) simp_all
  then show ?case using Cons.IH Cons.prems(1,2) by fastforce
qed simp

lemma count_un_topics_enc: "list_all str_ok ts \<Longrightarrow> count_topics 0 (un_topics_enc ts) = Some (length ts)"
proof (induction ts)
  case (Cons t ts)
  then show ?case using count_topics_Cons [of t "[]" 0] by simp
qed (simp add: count_topics.simps)

lemma read_un_topics_enc:
  "list_all str_ok ts \<Longrightarrow> n = i + length ts \<Longrightarrow> read_un_topics n i (un_topics_enc ts) acc = Some (Some (acc @ ts))"
proof (induction ts arbitrary: i acc)
  case (Cons t ts)
  show ?case
    using Cons.prems Cons.IH [of "Suc i"] str_codec.dec_enc [of t] by (subst read_un_topics.simps) simp
qed (simp add: read_un_topics.simps)

lemma decode_un_topics_ok:
  assumes "mem_ok al" "list_all str_ok ts" "un_topics d = []"
  shows "decode_un_topics al (un_topics_enc ts) d = Some (0, d\<lparr>un_topics := ts\<rparr>)"
  using assms count_un_topics_enc [OF assms(2)] read_un_topics_enc [OF assms(2), of "length ts" 0 "[]"]
  by (simp add: decode_un_topics_def mem_ok_def)

definition unsubscribe_body :: "mqtt_msg \<Rightarrow> bytes" where
  "unsubscribe_body d = NNI_PUT16 (sub_packet_id d) @ un_topics_enc (un_topics d)"

interpretation unsubscribe3: packet_codec "\<lambda>d. no_flags d \<and> list_all str_ok (un_topics d)" "\<lambda>_. set_bit_1"
  unsubscribe_body "\<lambda>s g. g\<lparr>sub_packet_id := sub_packet_id s, un_topics := un_topics s\<rparr>"
  nni_mqtt_msg_encode_unsubscribe nni_mqtt_msg_decode_unsubscribe
proof (rule packet_codecI, goal_cases)
  case (1 al m d)
  let ?d = "set_bit_1 d"
  let ?h = "fh_common ?d # write_var_loop 0 (length (unsubscribe_body ?d))"
  have ok: "list_all str_ok (un_topics d)" using 1(3) ..
  have n: "un_topics_length (un_topics d) 2 = length (unsubscribe_body ?d)"
    using un_topics_length_eq [OF ok, of 2] 1(4) by (simp add: unsubscribe_body_def)
  obtain m' where m': "nni_mqtt_msg_encode_fixed_header al (nni_msg_clear m)
      (?d\<lparr>remaining_length := un_topics_length (un_topics d) 2\<rparr>) = Some (0, m', sized unsubscribe_body ?d)"
    "holds m' ?h []"
    by (rule fixed_header_sized [where bdy = unsubscribe_body and d = ?d, OF 1(1) holds_start [OF 1(2)] n])
      (use 1(4) n in simp_all)
  have "holds (put_un_topics al (nni_mqtt_msg_append_u16 al m' (sub_packet_id d)) (un_topics d)) ?h
      (([] @ NNI_PUT16 (sub_packet_id d)) @ un_topics_enc (un_topics d))"
    by (intro holds_un_topics holds_u16 1(1) m'(2) ok)
  then show ?case
    using m'(1) by (simp add: nni_mqtt_msg_encode_unsubscribe_def unsubscribe_body_def Let_def)
next
  case (3 al d m g)
  then show ?case
    using flags_set [of d unsubscribe_body g] decode_un_topics_ok [OF 3(1), of "un_topics d" "g\<lparr>sub_packet_id := sub_packet_id d\<rparr>"]
    by (simp add: nni_mqtt_msg_decode_unsubscribe_def unsubscribe_body_def received_def)
qed (simp add: unsubscribe_body_def)

subsection \<open>CONNECT\<close>

definition opt_enc :: "mqtt_buf \<Rightarrow> bytes" where
  "opt_enc b = (if blen b > 0 then str_enc b else [])"

definition connect_body :: "mqtt_msg \<Rightarrow> bytes" where
  "connect_body d =
     str_enc (vh_name d) @ [vh_version d, conn_flags d] @ NNI_PUT16 (vh_u16 d) @ str_enc (client_id d) @
     opt_enc (will_topic d) @ opt_enc (will_msg d) @ opt_enc (user_name d) @ opt_enc (password d)"

definition connect_out :: "u8 \<Rightarrow> u32 \<Rightarrow> allocator \<Rightarrow> mqtt_msg \<Rightarrow> mqtt_msg" where
  "connect_out version rnd al d =
     (let d = connect_defaults al rnd version d in
      d\<lparr>conn_flags := connect_flags d, vh_u16 := keep_alive_default (vh_u16 d)\<rparr>)"

text \<open>The flags agree with the optional strings; the two parts of a will come together.\<close>

definition flags_match :: "u8 \<Rightarrow> mqtt_msg \<Rightarrow> bool" where
  "flags_match f d \<longleftrightarrow>
     will_flag f = (0 < blen (will_topic d)) \<and> will_flag f = (0 < blen (will_msg d)) \<and>
     username_flag f = (0 < blen (user_name d)) \<and> password_flag f = (0 < blen (password d))"

definition connect_ok :: "mqtt_msg \<Rightarrow> bool" where
  "connect_ok d \<longleftrightarrow>
     list_all str_ok [vh_name d, client_id d, will_topic d, will_msg d, user_name d, password d] \<and>
     flags_match (connect_flags d) d"

lemma buf_default_ok:
  assumes "mem_ok al" "str_ok b" "s \<noteq> []" "length s < 65536"
  shows "str_ok (buf_default al s b)"
  using assms by (auto simp: buf_default_def mqtt_buf_create_def mem_ok_def str_ok_def)

lemma hex_digits_bound: "n < 16 ^ k \<Longrightarrow> 0 < k \<Longrightarrow> hex_digits n \<noteq> [] \<and> length (hex_digits n) \<le> k"
proof (induction n arbitrary: k rule: hex_digits.induct)
  case (1 n)
  show ?case
  proof (cases "n < 16")
    case False
    then obtain j where j: "k = Suc j" "0 < j"
      using "1.prems" by (cases k; cases "k - 1") auto
    then have "n div 16 < 16 ^ j" using "1.prems"(1) by (simp add: less_mult_imp_div_less mult.commute)
    then show ?thesis
      using "1.IH" [OF False, of j] False j by (simp add: hex_digits.simps [of n])
  qed (use "1.prems" in \<open>simp add: hex_digits.simps [of n]\<close>)
qed

lemma random_client_id_ok: "random_client_id rnd \<noteq> []" "length (random_client_id rnd) \<le> 15"
  using hex_digits_bound [of "unat rnd" 8] unsigned_less [where ?'a = nat, of rnd]
  by (auto simp: random_client_id_def Let_def)

lemma connect_defaults_ok:
  assumes "mem_ok al" "connect_ok d"
  shows "list_all str_ok [vh_name (connect_out v rnd al d), client_id (connect_out v rnd al d)]"
  using assms random_client_id_ok [of rnd]
  by (auto simp: connect_out_def connect_defaults_def Let_def connect_ok_def mqtt_protocol_name_def
      intro!: buf_default_ok)

lemma connect_defaults_simps [simp]:
  "will_topic (connect_defaults al rnd v d) = will_topic d" "will_msg (connect_defaults al rnd v d) = will_msg d"
  "user_name (connect_defaults al rnd v d) = user_name d" "password (connect_defaults al rnd v d) = password d"
  "vh_u16 (connect_defaults al rnd v d) = vh_u16 d" "fh_common (connect_defaults al rnd v d) = fh_common d"
  by (simp_all add: connect_defaults_def)

lemma connect_out_simps [simp]:
  "will_topic (connect_out v rnd al d) = will_topic d" "will_msg (connect_out v rnd al d) = will_msg d"
  "user_name (connect_out v rnd al d) = user_name d" "password (connect_out v rnd al d) = password d"
  "conn_flags (connect_out v rnd al d) = connect_flags d" "fh_common (connect_out v rnd al d) = fh_common d"
  "vh_props (connect_out v rnd al d) = vh_props d" "will_props (connect_out v rnd al d) = will_props d"
  by (simp_all add: connect_out_def connect_defaults_def connect_flags_def Let_def)

lemma opt_enc_simps:
  "str_ok b \<Longrightarrow> length (opt_enc b) = opt_len b" "\<not> 0 < blen b \<Longrightarrow> opt_enc b = []"
  "0 < blen b \<Longrightarrow> opt_enc b = str_enc b"
  by (simp_all add: opt_enc_def opt_len_def)

lemma put_optional_ok:
  assumes "mem_ok al" "list_all (\<lambda>(f, s). str_ok s \<and> f = (0 < blen s)) xs" "holds m h b"
  shows "\<exists>m'. put_optional al m xs = (0, m') \<and> holds m' h (b @ concat (map (\<lambda>(f, s). opt_enc s) xs))"
  using assms(2,3)
proof (induction xs arbitrary: m b)
  case (Cons x xs)
  obtain f s where x: "x = (f, s)" by force
  show ?case
  proof (cases "0 < blen s")
    case True
    then have "holds (nni_mqtt_msg_append_byte_str al m s) h (b @ str_enc s)"
      using Cons.prems x by (intro holds_str assms(1)) simp_all
    then show ?thesis
      using True Cons.prems(1) x Cons.IH [of "nni_mqtt_msg_append_byte_str al m s" "b @ str_enc s"]
      by (simp add: opt_enc_def)
  next
    case False
    then show ?thesis
      using Cons.prems x Cons.IH [of m b] by (simp add: opt_enc_def)
  qed
qed simp

lemma flags_list:
  "flags_match f d \<Longrightarrow> list_all str_ok [will_topic d, will_msg d, user_name d, password d] \<Longrightarrow>
   list_all (\<lambda>(f, s). str_ok s \<and> f = (0 < blen s))
     [(will_flag f, will_topic d), (will_flag f, will_msg d), (username_flag f, user_name d), (password_flag f, password d)]"
  by (auto simp: flags_match_def)

lemma read_credentials_ok:
  assumes "flags_match (conn_flags g) s" "str_ok (user_name s)" "str_ok (password s)"
  shows "read_credentials (opt_enc (user_name s) @ opt_enc (password s)) g =
    Some (0, g\<lparr>user_name := (if 0 < blen (user_name s) then user_name s else user_name g),
      password := (if 0 < blen (password s) then password s else password g)\<rparr>)"
  using assms rd_str(2) [OF assms(3), where r = "[]"]
  by (auto simp: read_credentials_def opt_enc_def flags_match_def)


definition or_else :: "mqtt_buf \<Rightarrow> mqtt_buf \<Rightarrow> mqtt_buf" where
  "or_else s g = (if 0 < blen s then s else g)"

definition connect_got :: "mqtt_msg \<Rightarrow> mqtt_msg \<Rightarrow> mqtt_msg" where
  "connect_got s g = g\<lparr>vh_name := vh_name s, vh_version := vh_version s, conn_flags := conn_flags s,
     vh_u16 := vh_u16 s, client_id := client_id s, will_topic := or_else (will_topic s) (will_topic g),
     will_msg := or_else (will_msg s) (will_msg g), user_name := or_else (user_name s) (user_name g),
     password := or_else (password s) (password g)\<rparr>"

lemma connect_length_ok:
  assumes "mem_ok al" "connect_ok d" "length (connect_body (connect_out v rnd al d)) \<le> MQTT_MAX_MSG_LEN"
  shows "connect_length (connect_defaults al rnd v d) = length (connect_body (connect_out v rnd al d))"
proof -
  let ?o = "connect_out v rnd al d"
  have e: "vh_name (connect_defaults al rnd v d) = vh_name ?o" "client_id (connect_defaults al rnd v d) = client_id ?o"
    by (simp_all add: connect_out_def connect_defaults_def Let_def)
  have "length (connect_body ?o) = 6 + blen (vh_name ?o) + blen (client_id ?o) + 2 + opt_len (will_topic d) +
      opt_len (will_msg d) + opt_len (user_name d) + opt_len (password d)"
    using connect_defaults_ok [OF assms(1,2), of v rnd] assms(2)
    by (simp add: connect_body_def opt_enc_simps(1) connect_ok_def)
  then show ?thesis
    using assms(3) unfolding connect_length_def e connect_defaults_simps by simp
qed

interpretation connect3: packet_codec connect_ok "connect_out 4 rnd" connect_body connect_got
  "\<lambda>al. nni_mqtt_msg_encode_connect al rnd" "\<lambda>_. nni_mqtt_msg_decode_connect" for rnd
proof (rule packet_codecI, goal_cases)
  case (1 al m d)
  let ?o = "connect_out 4 rnd al d"
  let ?d = "(connect_defaults al rnd 4 d)\<lparr>conn_flags := connect_flags d\<rparr>"
  let ?h = "fh_common d # write_var_loop 0 (length (connect_body ?o))"
  have fl: "connect_flags (connect_defaults al rnd 4 d) = connect_flags d"
    by (simp add: connect_flags_def connect_defaults_def Let_def)
  have o: "?o = ?d\<lparr>vh_u16 := keep_alive_default (vh_u16 d)\<rparr>"
    by (simp add: connect_out_def Let_def fl)
  have len0: "connect_length (connect_defaults al rnd 4 d) = length (connect_body ?o)"
    using connect_length_ok [OF 1(1,3,4)] .
  let ?d1 = "?d\<lparr>remaining_length := length (connect_body ?o)\<rparr>"
  let ?d2 = "?d1\<lparr>used_bytes := length (write_var_loop 0 (length (connect_body ?o)))\<rparr>"
  obtain m1 where m1: "nni_mqtt_msg_encode_fixed_header al (nni_msg_clear m) ?d1 = Some (0, m1, ?d2)" "holds m1 ?h []"
    using fixed_header_ok [OF 1(1) holds_start [OF 1(2)], of ?d1] 1(4) by auto
  have ok: "str_ok (vh_name ?o)" "str_ok (client_id ?o)"
    using connect_defaults_ok [OF 1(1,3)] by simp_all
  let ?m2 = "nni_mqtt_msg_append_u16 al (nni_mqtt_msg_append_u8 al (nni_mqtt_msg_append_u8 al
      (nni_mqtt_msg_append_byte_str al m1 (vh_name ?o)) (vh_version ?o)) (conn_flags ?o)) (vh_u16 ?o)"
  let ?m3 = "nni_mqtt_msg_append_byte_str al ?m2 (client_id ?o)"
  have m3: "holds ?m3 ?h ((((([] @ str_enc (vh_name ?o)) @ [vh_version ?o]) @ [conn_flags ?o]) @ NNI_PUT16 (vh_u16 ?o)) @
      str_enc (client_id ?o))"
    by (intro holds_str holds_u16 holds_u8 1(1) ok m1(2))
  let ?xs = "[(will_flag (connect_flags d), will_topic d), (will_flag (connect_flags d), will_msg d),
      (username_flag (connect_flags d), user_name d), (password_flag (connect_flags d), password d)]"
  obtain m' where m': "put_optional al ?m3 ?xs = (0, m')" "holds m' ?h (connect_body ?o)"
    using put_optional_ok [OF 1(1) flags_list m3, of "connect_flags d" d] 1(3)
    by (auto simp: connect_ok_def connect_body_def)
  have "sized connect_body ?o = ?d2\<lparr>vh_u16 := keep_alive_default (vh_u16 d)\<rparr>"
    unfolding sized_def by (subst (1) o) simp
  then show ?case
    using m1(1) m' 1(4) o
    by (simp add: nni_mqtt_msg_encode_connect_def Let_def fl len0 del: put_optional.simps)
next
  case (3 al d m g)
  let ?o = "connect_out 4 rnd al d"
  have ok: "str_ok (vh_name ?o)" "str_ok (client_id ?o)"
    using connect_defaults_ok [OF 3(1,2)] by simp_all
  have okd: "str_ok (will_topic d)" "str_ok (will_msg d)" "str_ok (user_name d)" "str_ok (password d)"
    "flags_match (connect_flags d) d"
    using 3(2) by (simp_all add: connect_ok_def)
  have w: "will_flag (connect_flags d) \<longleftrightarrow> 0 < blen (will_topic d)" "will_flag (connect_flags d) \<longleftrightarrow> 0 < blen (will_msg d)"
    using okd(5) unfolding flags_match_def by blast+
  show ?case
    using 3(4) ok okd w read_credentials_ok [OF _ okd(3,4)]
    by (cases "will_flag (connect_flags d)")
      (simp_all add: nni_mqtt_msg_decode_connect_def connect_body_def connect_got_def or_else_def opt_enc_simps Let_def)
qed (simp_all add: connect_body_def)

section \<open>The codec as a whole\<close>

text \<open>
  The specification of a packet type, in the terms of \<open>packet_codec\<close>, and the table of all types of
  MQTT 3.1.1. \<open>rnd\<close> enters the generated client identifier, \<open>junk\<close> the options of a received topic that
  version 3 does not carry.
\<close>

record packet_spec =
  s_ok :: "mqtt_msg \<Rightarrow> bool"
  s_out :: "allocator \<Rightarrow> mqtt_msg \<Rightarrow> mqtt_msg"
  s_body :: "mqtt_msg \<Rightarrow> bytes"
  s_got :: "mqtt_msg \<Rightarrow> mqtt_msg \<Rightarrow> mqtt_msg"

definition plain_spec :: "(mqtt_msg \<Rightarrow> bytes) \<Rightarrow> (mqtt_msg \<Rightarrow> mqtt_msg \<Rightarrow> mqtt_msg) \<Rightarrow> packet_spec" where
  "plain_spec bdy got = \<lparr>s_ok = \<lambda>_. True, s_out = \<lambda>_ d. d, s_body = bdy, s_got = got\<rparr>"

definition v3_spec :: "u32 \<Rightarrow> (nat \<Rightarrow> mqtt_topic_qos) \<Rightarrow> (u8 \<times> packet_spec) list" where
  "v3_spec rnd junk =
     [(NNG_MQTT_CONNECT, \<lparr>s_ok = connect_ok, s_out = connect_out 4 rnd, s_body = connect_body, s_got = connect_got\<rparr>),
      (NNG_MQTT_CONNACK, plain_spec connack_body
         (\<lambda>s g. g\<lparr>ca_flags := ca_flags s, conn_return_code := conn_return_code s\<rparr>)),
      (NNG_MQTT_PUBLISH, \<lparr>s_ok = publish_ok, s_out = \<lambda>_ d. d, s_body = publish_body, s_got = publish_got\<rparr>),
      (NNG_MQTT_PUBACK, plain_spec ack_body ack_got),
      (NNG_MQTT_PUBREC, plain_spec ack_body ack_got),
      (NNG_MQTT_PUBREL, \<lparr>s_ok = no_flags, s_out = \<lambda>_. set_bit_1, s_body = ack_body, s_got = ack_got\<rparr>),
      (NNG_MQTT_PUBCOMP, plain_spec ack_body ack_got),
      (NNG_MQTT_SUBSCRIBE,
         \<lparr>s_ok = \<lambda>d. topics_ok (topics d), s_out = \<lambda>_. set_bit_1, s_body = subscribe_body,
          s_got = \<lambda>s g. g\<lparr>sub_packet_id := sub_packet_id s,
            topics := numbered (topic_entry junk) tq_qos (topics s)\<rparr>\<rparr>),
      (NNG_MQTT_SUBACK, plain_spec suback_body
         (\<lambda>s g. g\<lparr>sub_packet_id := sub_packet_id s, ret_codes := ret_codes s\<rparr>)),
      (NNG_MQTT_UNSUBSCRIBE,
         \<lparr>s_ok = \<lambda>d. no_flags d \<and> list_all str_ok (un_topics d), s_out = \<lambda>_. set_bit_1, s_body = unsubscribe_body,
          s_got = \<lambda>s g. g\<lparr>sub_packet_id := sub_packet_id s, un_topics := un_topics s\<rparr>\<rparr>),
      (NNG_MQTT_UNSUBACK, plain_spec unsuback_body (\<lambda>s g. g\<lparr>sub_packet_id := sub_packet_id s\<rparr>)),
      (NNG_MQTT_PINGREQ, plain_spec (\<lambda>_. []) (\<lambda>s g. g)),
      (NNG_MQTT_PINGRESP, plain_spec (\<lambda>_. []) (\<lambda>s g. g)),
      (NNG_MQTT_DISCONNECT, plain_spec (\<lambda>_. []) (\<lambda>s g. g))]"

text \<open>Every entry is implemented by the handlers the code selects for its type.\<close>

definition implemented :: "(allocator \<Rightarrow> (u8 \<times> encoder) list) \<Rightarrow> (allocator \<Rightarrow> (u8 \<times> decoder) list) \<Rightarrow>
    u8 \<Rightarrow> packet_spec \<Rightarrow> bool" where
  "implemented encs decs t p \<longleftrightarrow>
     (\<exists>enc dec. (\<forall>al. map_of (encs al) t = Some (enc al)) \<and> (\<forall>al. map_of (decs al) t = Some (dec al)) \<and>
        packet_codec (s_ok p) (s_out p) (s_body p) (s_got p) enc dec)"

lemma implementedI:
  assumes "packet_codec (s_ok p) (s_out p) (s_body p) (s_got p) enc dec"
    "\<And>al. map_of (encs al) t = Some (enc al)" "\<And>al. map_of (decs al) t = Some (dec al)"
  shows "implemented encs decs t p"
  using assms unfolding implemented_def by blast

lemma v3_implemented:
  "(t, p) \<in> set (v3_spec rnd junk) \<Longrightarrow> implemented (\<lambda>al. codec_encoders al rnd) (\<lambda>al. codec_decoders al junk) t p"
  unfolding v3_spec_def list.set insert_iff prod.inject empty_iff
  by (elim disjE conjE FalseE; hypsubst; rule implementedI)
    (simp_all add: codec_encoders_def codec_decoders_def plain_spec_def connect3.packet_codec_axioms
      connack3.packet_codec_axioms publish3.packet_codec_axioms puback3.packet_codec_axioms
      pubrec3.packet_codec_axioms pubrel3.packet_codec_axioms pubcomp3.packet_codec_axioms
      subscribe3.packet_codec_axioms suback3.packet_codec_axioms unsubscribe3.packet_codec_axioms
      unsuback3.packet_codec_axioms base3.packet_codec_axioms)

text \<open>The data before an encoder runs, and before a decoder runs on a fresh message.\<close>

definition begun :: "mqtt_msg \<Rightarrow> mqtt_msg" where
  "begun d = (started True d)\<lparr>is_decoded := False\<rparr>"

definition fresh :: mqtt_msg where
  "fresh = nni_proto_data_init zero_mqtt"

definition blank :: "mqtt_msg \<Rightarrow> mqtt_msg" where
  "blank s = fresh\<lparr>fh_common := fh_common s, remaining_length := remaining_length s,
     used_bytes := used_bytes s, is_decoded := True, initialized := True\<rparr>"

lemma begun_simps [simp]:
  "fh_common (begun d) = fh_common d" "packet_type (begun d) = packet_type d"
  by (simp_all add: begun_def started_def packet_type_def)

lemma packet_type_set_bit_1 [simp]: "packet_type (set_bit_1 d) = packet_type d"
  by (simp add: packet_type_def set_bit_1_def drop_bit_or)

lemma packet_type_out:
  "(t, p) \<in> set (v3_spec rnd junk) \<Longrightarrow> packet_type (s_out p al d) = packet_type d"
  by (auto simp: v3_spec_def plain_spec_def) (simp add: packet_type_def)

lemma encode_with_ok:
  assumes "mem_ok al" "msg_wf m" "m_proto_data m = Some d" "implemented encs decs (packet_type d) p"
    "s_ok p (begun d)" "length (s_body p (s_out p al (begun d))) \<le> MQTT_MAX_MSG_LEN"
  obtains m' s dec where "encode_with (encs al) m = Some (0, m')" "m_proto_data m' = Some s"
    "s = sized (s_body p) (s_out p al (begun d))"
    "holds m' (fh_common s # write_var_loop 0 (remaining_length s)) (s_body p s)"
    "remaining_length s \<le> MQTT_MAX_MSG_LEN" "used_bytes s = length (write_var_loop 0 (remaining_length s))"
    "map_of (decs al) (packet_type d) = Some dec"
    "\<forall>m2 g. holds m2 (fh_common s # write_var_loop 0 (remaining_length s)) (s_body p s) \<longrightarrow> received s g \<longrightarrow>
       dec m2 g = Some (0, s_got p s g)"
proof -
  obtain enc dec where c: "map_of (encs al) (packet_type d) = Some (enc al)"
    "map_of (decs al) (packet_type d) = Some (dec al)"
    "packet_codec (s_ok p) (s_out p) (s_body p) (s_got p) enc dec"
    using assms(4) by (auto simp: implemented_def)
  let ?m = "nni_msg_header_clear (nni_msg_clear m)"
  have "msg_wf ?m" using holds_header_clear [OF holds_start [OF assms(2)]] by (simp add: holds_def)
  from packet_codec.round_trip [OF c(3) assms(1) this assms(5,6)] obtain m' s where
    m': "enc al ?m (begun d) = Some (0, m', s)" "s = sized (s_body p) (s_out p al (begun d))"
    "holds m' (fh_common s # write_var_loop 0 (remaining_length s)) (s_body p s)"
    "remaining_length s \<le> MQTT_MAX_MSG_LEN" "used_bytes s = length (write_var_loop 0 (remaining_length s))"
    "\<forall>m2 g. holds m2 (fh_common s # write_var_loop 0 (remaining_length s)) (s_body p s) \<longrightarrow> received s g \<longrightarrow>
       dec al m2 g = Some (0, s_got p s g)"
    by blast
  have "m_proto_data ?m = Some d"
    using assms(3) by (simp add: nni_msg_header_clear_def nni_msg_clear_def)
  then have "encode_with (encs al) m = Some (0, m'\<lparr>m_proto_data := Some s\<rparr>)"
    using m'(1) c(1) by (simp add: encode_with_def begun_def)
  then show thesis
    using that [of "m'\<lparr>m_proto_data := Some s\<rparr>" s "dec al"] m'(2-6) holds_proto [OF m'(3)] c(2) by auto
qed

lemma decode_ok:
  assumes "holds m (fh_common s # write_var_loop 0 (remaining_length s)) b" "m_proto_data m = Some fresh"
    "remaining_length s \<le> MQTT_MAX_MSG_LEN" "used_bytes s = length (write_var_loop 0 (remaining_length s))"
    "map_of (codec_decoders al junk) (packet_type s) = Some dec"
    "\<And>m2. holds m2 (fh_common s # write_var_loop 0 (remaining_length s)) b \<Longrightarrow> dec m2 (blank s) = Some (0, r)"
  shows "nni_mqtt_msg_decode al junk m = Some (0, m\<lparr>m_proto_data := Some r\<rparr>)"
proof -
  let ?d = "fresh\<lparr>fh_common := fh_common s, remaining_length := remaining_length s, used_bytes := used_bytes s\<rparr>"
  have "nni_mqtt_msg_decode_fixed_header m = Some (0, m\<lparr>m_proto_data := Some ?d\<rparr>)"
    using decode_header_ok [OF assms(1,3,2)] assms(4) by simp
  moreover have "mqtt_msg_content_free ?d = Some ?d"
    by (simp add: mqtt_msg_content_free_def property_free_def fresh_def nni_proto_data_init_def zero_mqtt_def
        destory_suback_def destory_unsuback_def)
  moreover have "(started False ?d)\<lparr>is_decoded := True\<rparr> = blank s" "\<not> is_decoded (started False ?d)"
    by (simp_all add: started_def blank_def fresh_def nni_proto_data_init_def zero_mqtt_def)
  moreover have "packet_type ?d = packet_type s" by (simp add: packet_type_def)
  moreover have "dec (m\<lparr>m_proto_data := x\<rparr>) (blank s) = Some (0, r)" for x
    using holds_proto [OF assms(1)] by (rule assms(6))
  ultimately show ?thesis
    using assms(5) by (simp add: nni_mqtt_msg_decode_def Let_def)
qed

text \<open>C11: Decoding undoes encoding, for every packet of MQTT 3.1.1. Encoding well-formed protocol data of any of
  the fourteen types whose body fits the maximal length succeeds; and decoding any message with the same
  header and body bytes, with fresh protocol data, succeeds and yields exactly the fields of the packet
  that were sent, with the defaults the encoder filled in for a CONNECT.\<close>

theorem mqtt_v3_round_trip:
  assumes "mem_ok al" and "msg_wf m" and "m_proto_data m = Some d"
    and "(packet_type d, p) \<in> set (v3_spec rnd junk)" and "s_ok p (begun d)"
    and "length (s_body p (s_out p al (begun d))) \<le> MQTT_MAX_MSG_LEN"
  shows "\<exists>m' s. nni_mqtt_msg_encode al rnd m = Some (0, m') \<and> s = sized (s_body p) (s_out p al (begun d)) \<and>
    nni_msg_body m' = s_body p s \<and>
    (\<forall>m2. msg_wf m2 \<and> nni_msg_header m2 = nni_msg_header m' \<and> nni_msg_body m2 = nni_msg_body m' \<and>
       m_proto_data m2 = Some fresh \<longrightarrow>
       nni_mqtt_msg_decode al junk m2 = Some (0, m2\<lparr>m_proto_data := Some (s_got p s (blank s))\<rparr>))"
proof -
  obtain m' s dec where m': "encode_with (codec_encoders al rnd) m = Some (0, m')" "m_proto_data m' = Some s"
    "s = sized (s_body p) (s_out p al (begun d))"
    "holds m' (fh_common s # write_var_loop 0 (remaining_length s)) (s_body p s)"
    "remaining_length s \<le> MQTT_MAX_MSG_LEN" "used_bytes s = length (write_var_loop 0 (remaining_length s))"
    "map_of (codec_decoders al junk) (packet_type d) = Some dec"
    "\<forall>m2 g. holds m2 (fh_common s # write_var_loop 0 (remaining_length s)) (s_body p s) \<longrightarrow> received s g \<longrightarrow>
       dec m2 g = Some (0, s_got p s g)"
    by (rule encode_with_ok [OF assms(1-3) v3_implemented [OF assms(4)] assms(5,6)])
  have t: "packet_type s = packet_type d"
    using packet_type_out [OF assms(4)] m'(3) by simp
  have "received s (blank s)"
    by (simp add: received_def blank_def fresh_def nni_proto_data_init_def zero_mqtt_def)
  then have "dec m2 (blank s) = Some (0, s_got p s (blank s))" if "holds m2 (fh_common s # write_var_loop 0 (remaining_length s)) (s_body p s)" for m2
    using m'(8) that \<open>received s (blank s)\<close> by blast
  then have "nni_mqtt_msg_decode al junk m2 = Some (0, m2\<lparr>m_proto_data := Some (s_got p s (blank s))\<rparr>)"
    if "holds m2 (nni_msg_header m') (nni_msg_body m')" "m_proto_data m2 = Some fresh" for m2
    using decode_ok [OF _ that(2) m'(5,6), of "s_body p s" al junk dec] m'(4,7) t that(1)
    by (simp add: holds_def)
  then show ?thesis
    using m'(1,3,4) unfolding nni_mqtt_msg_encode_def holds_def by blast
qed


definition some_subscribe :: mqtt_msg where
  "some_subscribe = fresh\<lparr>fh_common := 0x80, sub_packet_id := 7,
     topics := [\<lparr>tq_topic = some_topic, tq_qos = 1, tq_nolocal = 0, tq_rap = 0, tq_retain_handling = 0\<rparr>]\<rparr>"

definition some_message :: "mqtt_msg \<Rightarrow> mqtt_nng_msg" where
  "some_message d = zero_msg\<lparr>m_proto_data := Some d\<rparr>"

lemma some_message_wf [simp]: "msg_wf (some_message d)" "m_proto_data (some_message d) = Some d"
  using msg_wf_zero by (simp_all add: some_message_def msg_wf_def)

lemma some_topic_ok [simp]: "str_ok some_topic"
  by (simp add: some_topic_def str_ok_def)

lemma some_topic_len: "blen some_topic = 1"
  by (simp add: some_topic_def)

theorem mqtt_v3_round_trip_witness:
  "\<exists>m'. nni_mqtt_msg_encode (\<lambda>_. True) 0 (some_message some_subscribe) = Some (0, m') \<and>
     nni_msg_body m' = NNI_PUT16 7 @ str_enc some_topic @ [1]"
proof -
  let ?p = "\<lparr>s_ok = \<lambda>d. topics_ok (topics d), s_out = \<lambda>_. set_bit_1, s_body = subscribe_body,
          s_got = \<lambda>s g. g\<lparr>sub_packet_id := sub_packet_id s,
            topics := numbered (topic_entry (\<lambda>_. hd (topics some_subscribe))) tq_qos (topics s)\<rparr>\<rparr>"
  have p: "(packet_type some_subscribe, ?p) \<in> set (v3_spec 0 (\<lambda>_. hd (topics some_subscribe)))"
    by (simp add: v3_spec_def packet_type_def some_subscribe_def)
  have b: "subscribe_body (sized subscribe_body (set_bit_1 (begun some_subscribe))) = NNI_PUT16 7 @ str_enc some_topic @ [1]"
    by (simp add: subscribe_body_def begun_def started_def some_subscribe_def fresh_def nni_proto_data_init_def zero_mqtt_def)
  have "mem_ok (\<lambda>_. True)" "topics_ok (topics (begun some_subscribe))"
    "length (subscribe_body (set_bit_1 (begun some_subscribe))) \<le> MQTT_MAX_MSG_LEN"
    by (simp_all add: mem_ok_def begun_def started_def some_subscribe_def subscribe_body_def
        fresh_def nni_proto_data_init_def zero_mqtt_def some_topic_len)
  with mqtt_v3_round_trip [OF _ some_message_wf p, of "\<lambda>_. True"] b show ?thesis by auto
qed

end
