(* ===== verification/MqttCodec5.thy ===== *)
theory MqttCodec5
  imports MqttCodec
begin

text \<open>
  The codec of MQTT 5 packets in \<^verbatim>\<open>supplemental/mqtt/mqtt_codec.c\<close>, the validation of packets of both
  versions, and the helpers for acknowledgements that the broker uses. Conventions are those of
  \<open>MqttCodec\<close>; \<open>st\<close> says whether the structs of property lists can be allocated. Bodies are shorter than
  \<open>2 ^ 32\<close> bytes, so that positions are plain numbers.

  Contents: encoders; decoders; selection and validation; acknowledgements; the bytes of the packets
  and what decoding makes of them; that decoding is safe on every input.
\<close>

abbreviation CMD_PUBLISH_V5 :: u8 where "CMD_PUBLISH_V5 \<equiv> 0x31"
abbreviation CMD_PUBLISH_V5_RECV :: u8 where "CMD_PUBLISH_V5_RECV \<equiv> 0x32"
abbreviation CMD_PUBACK :: u8 where "CMD_PUBACK \<equiv> 0x40"
abbreviation CMD_PUBREC :: u8 where "CMD_PUBREC \<equiv> 0x50"
abbreviation CMD_PUBREL :: u8 where "CMD_PUBREL \<equiv> 0x60"
abbreviation CMD_SUBSCRIBE :: u8 where "CMD_SUBSCRIBE \<equiv> 0x80"
abbreviation CMD_SUBACK :: u8 where "CMD_SUBACK \<equiv> 0x90"
abbreviation CMD_UNSUBSCRIBE :: u8 where "CMD_UNSUBSCRIBE \<equiv> 0xA0"
abbreviation CMD_UNSUBACK :: u8 where "CMD_UNSUBACK \<equiv> 0xB0"
abbreviation CMD_DISCONNECT :: u8 where "CMD_DISCONNECT \<equiv> 0xE0"
abbreviation CMD_AUTH_V5 :: u8 where "CMD_AUTH_V5 \<equiv> 0xF0"
abbreviation MQTT_PROTOCOL_VERSION_v5 :: u8 where "MQTT_PROTOCOL_VERSION_v5 \<equiv> 5"
abbreviation PAYLOAD_FORMAT_INVALID :: nat where "PAYLOAD_FORMAT_INVALID \<equiv> 153"

section \<open>Encoders\<close>

text \<open>A property list that is passed on; a dangling pointer is followed.\<close>

definition encode_props :: "allocator \<Rightarrow> mqtt_nng_msg \<Rightarrow> props_ptr \<Rightarrow> u8 \<Rightarrow> (int \<times> mqtt_nng_msg) option" where
  "encode_props al m p cmd =
     (case p of
        P_null \<Rightarrow> encode_properties al m None cmd
      | P_freed \<Rightarrow> None
      | P_list ps \<Rightarrow> encode_properties al m (Some ps) cmd)"

text \<open>A step whose error ends the encoder.\<close>

definition enc_step ::
    "(int \<times> mqtt_nng_msg) option \<Rightarrow> mqtt_msg \<Rightarrow> (mqtt_nng_msg \<Rightarrow> (int \<times> mqtt_nng_msg \<times> mqtt_msg) option) \<Rightarrow>
     (int \<times> mqtt_nng_msg \<times> mqtt_msg) option" where
  "enc_step r d k = (case r of None \<Rightarrow> None | Some (rv, m) \<Rightarrow> if rv \<noteq> 0 then Some (rv, m, d) else k m)"

text \<open>The remaining length is the length of the body; the result of the fixed header is dropped.\<close>

definition finish_header ::
    "allocator \<Rightarrow> mqtt_nng_msg \<Rightarrow> mqtt_msg \<Rightarrow> (int \<times> mqtt_nng_msg \<times> mqtt_msg) option" where
  "finish_header al m d =
     map_option (\<lambda>(_, m, d). (MQTT_SUCCESS, m, d))
       (nni_mqtt_msg_encode_fixed_header al m (d\<lparr>remaining_length := wrap32 (nni_msg_len m)\<rparr>))"

text \<open>The end of a CONNECT: the credentials and the fixed header.\<close>

definition connect5_end :: "allocator \<Rightarrow> mqtt_msg \<Rightarrow> mqtt_nng_msg \<Rightarrow> (int \<times> mqtt_nng_msg \<times> mqtt_msg) option" where
  "connect5_end al d m =
     enc_step (Some (put_optional al m [(username_flag (conn_flags d), user_name d),
         (password_flag (conn_flags d), password d)])) d (\<lambda>m.
       let d = d\<lparr>remaining_length := wrap32 (nni_msg_len m)\<rparr> in
       if remaining_length d > MQTT_MAX_MSG_LEN then Some (MQTT_ERR_PAYLOAD_SIZE, m, d)
       else finish_header al m d)"

text \<open>The will of a CONNECT with its properties, when the flag is set.\<close>

definition connect5_will :: "allocator \<Rightarrow> mqtt_msg \<Rightarrow> mqtt_nng_msg \<Rightarrow> (int \<times> mqtt_nng_msg \<times> mqtt_msg) option" where
  "connect5_will al d m =
     (if will_flag (conn_flags d)
      then enc_step (encode_props al m (will_props d) CMD_CONNECT) d (\<lambda>m.
             if blen (will_topic d) = 0 then Some (MQTT_ERR_PROTOCOL, m, d)
             else
               (let m = nni_mqtt_msg_append_byte_str al m (will_topic d) in
                if blen (will_msg d) = 0 then Some (MQTT_ERR_PROTOCOL, m, d)
                else connect5_end al d (nni_mqtt_msg_append_byte_str al m (will_msg d))))
      else connect5_end al d m)"

definition nni_mqttv5_msg_encode_connect ::
    "allocator \<Rightarrow> u32 \<Rightarrow> mqtt_nng_msg \<Rightarrow> mqtt_msg \<Rightarrow> (int \<times> mqtt_nng_msg \<times> mqtt_msg) option" where
  "nni_mqttv5_msg_encode_connect al rnd m d =
     (let d = connect_defaults al rnd 5 d;
          d = d\<lparr>conn_flags := connect_flags d\<rparr>;
          m = nni_mqtt_msg_append_byte_str al (nni_msg_clear m) (vh_name d);
          m = nni_mqtt_msg_append_u8 al m (vh_version d);
          m = nni_mqtt_msg_append_u8 al m (conn_flags d);
          d = d\<lparr>vh_u16 := keep_alive_default (vh_u16 d)\<rparr>;
          m = nni_mqtt_msg_append_u16 al m (vh_u16 d) in
      enc_step (encode_props al m (vh_props d) CMD_CONNECT) d (\<lambda>m.
        connect5_will al d (nni_mqtt_msg_append_byte_str al m (client_id d))))"

text \<open>The result of encoding the properties is dropped here and in most of the following encoders.\<close>

definition nni_mqttv5_msg_encode_connack ::
    "allocator \<Rightarrow> mqtt_nng_msg \<Rightarrow> mqtt_msg \<Rightarrow> (int \<times> mqtt_nng_msg \<times> mqtt_msg) option" where
  "nni_mqttv5_msg_encode_connack al m d =
     (let m = nni_mqtt_msg_append_u8 al (nni_msg_clear m) (ca_flags d);
          m = nni_mqtt_msg_append_u8 al m (conn_return_code d) in
      case encode_props al m (ca_props d) CMD_CONNACK of
        None \<Rightarrow> None
      | Some (_, m) \<Rightarrow>
          (let d = d\<lparr>remaining_length := wrap32 (nni_msg_len m)\<rparr> in
           if remaining_length d > MQTT_MAX_MSG_LEN then Some (MQTT_ERR_PAYLOAD_SIZE, m, d)
           else finish_header al m d))"

definition topic_options :: "mqtt_topic_qos \<Rightarrow> u8" where
  "topic_options t =
     tq_qos t OR push_bit 2 (tq_nolocal t) OR push_bit 3 (tq_rap t) OR push_bit 4 (tq_retain_handling t)"

fun put_topics5 :: "allocator \<Rightarrow> mqtt_nng_msg \<Rightarrow> mqtt_topic_qos list \<Rightarrow> mqtt_nng_msg" where
  "put_topics5 al m [] = m"
| "put_topics5 al m (t # ts) =
     put_topics5 al (nni_mqtt_msg_append_u8 al (nni_mqtt_msg_append_byte_str al m (tq_topic t)) (topic_options t)) ts"

definition nni_mqttv5_msg_encode_subscribe ::
    "allocator \<Rightarrow> mqtt_nng_msg \<Rightarrow> mqtt_msg \<Rightarrow> (int \<times> mqtt_nng_msg \<times> mqtt_msg) option" where
  "nni_mqttv5_msg_encode_subscribe al m d =
     (let m = nni_mqtt_msg_append_u16 al (nni_msg_clear m) (sub_packet_id d) in
      case encode_props al m (sub_props d) CMD_SUBSCRIBE of
        None \<Rightarrow> None
      | Some (_, m) \<Rightarrow> finish_header al (put_topics5 al m (topics d)) (set_bit_1 d))"

definition append_codes :: "allocator \<Rightarrow> mqtt_nng_msg \<Rightarrow> bytes \<Rightarrow> mqtt_nng_msg" where
  "append_codes al m codes = snd (nni_msg_append al m (Some codes) (length codes))"

text \<open>Here the properties come before the packet identifier.\<close>

definition nni_mqttv5_msg_encode_suback ::
    "allocator \<Rightarrow> mqtt_nng_msg \<Rightarrow> mqtt_msg \<Rightarrow> (int \<times> mqtt_nng_msg \<times> mqtt_msg) option" where
  "nni_mqttv5_msg_encode_suback al m d =
     (case encode_props al (nni_msg_clear m) (sub_props d) CMD_SUBACK of
        None \<Rightarrow> None
      | Some (_, m) \<Rightarrow>
          (let m = nni_mqtt_msg_append_u16 al m (sub_packet_id d) in
           finish_header al (append_codes al m (ret_codes d)) d))"

definition nni_mqttv5_msg_encode_publish ::
    "allocator \<Rightarrow> mqtt_nng_msg \<Rightarrow> mqtt_msg \<Rightarrow> (int \<times> mqtt_nng_msg \<times> mqtt_msg) option" where
  "nni_mqttv5_msg_encode_publish al m d =
     (let m = nni_mqtt_msg_append_byte_str al (nni_msg_header_clear (nni_msg_clear m)) (vh_name d);
          m = (if publish_qos d > 0 then nni_mqtt_msg_append_u16 al m (vh_u16 d) else m) in
      case encode_props al m (vh_props d) CMD_PUBLISH of
        None \<Rightarrow> None
      | Some (rv, m) \<Rightarrow>
          if rv \<noteq> 0 then Some (MQTT_ERR_PROTOCOL, m, d)
          else
            (case (if blen (pub_payload d) > 0
                   then nni_msg_append al m (bbuf (pub_payload d)) (blen (pub_payload d)) else (0, m)) of
               (rv, m) \<Rightarrow>
                 map_option (\<lambda>(hrv, m, d). (if hrv = 0 \<and> rv = 0 then MQTT_SUCCESS else MQTT_ERR_PROTOCOL, m, d))
                   (nni_mqtt_msg_encode_fixed_header al m (d\<lparr>remaining_length := wrap32 (nni_msg_len m)\<rparr>))))"

definition nni_mqttv5_msg_encode_puback ::
    "allocator \<Rightarrow> mqtt_nng_msg \<Rightarrow> mqtt_msg \<Rightarrow> (int \<times> mqtt_nng_msg \<times> mqtt_msg) option" where
  "nni_mqttv5_msg_encode_puback al m d =
     (let m = nni_mqtt_msg_append_u16 al (nni_msg_clear m) (ack_packet_id d) in
      case encode_props al m (ack_props d) CMD_PUBACK of
        None \<Rightarrow> None
      | Some (_, m) \<Rightarrow> finish_header al m d)"

text \<open>PUBREC and PUBREL write the fixed header twice, first for a length of two.\<close>

definition nni_mqttv5_msg_encode_pubrec ::
    "allocator \<Rightarrow> mqtt_nng_msg \<Rightarrow> mqtt_msg \<Rightarrow> (int \<times> mqtt_nng_msg \<times> mqtt_msg) option" where
  "nni_mqttv5_msg_encode_pubrec al m d =
     (case nni_mqtt_msg_encode_fixed_header al (nni_msg_clear m) (d\<lparr>remaining_length := 2\<rparr>) of
        None \<Rightarrow> None
      | Some (_, m, d) \<Rightarrow>
          (let m = nni_mqtt_msg_append_u16 al m (ack_packet_id d) in
           case encode_props al m (ack_props d) CMD_PUBREC of
             None \<Rightarrow> None
           | Some (_, m) \<Rightarrow> finish_header al m d))"

definition nni_mqttv5_msg_encode_pubrel ::
    "allocator \<Rightarrow> mqtt_nng_msg \<Rightarrow> mqtt_msg \<Rightarrow> (int \<times> mqtt_nng_msg \<times> mqtt_msg) option" where
  "nni_mqttv5_msg_encode_pubrel al m d =
     (case nni_mqtt_msg_encode_fixed_header al (nni_msg_clear m) ((set_bit_1 d)\<lparr>remaining_length := 2\<rparr>) of
        None \<Rightarrow> None
      | Some (_, m, d) \<Rightarrow>
          (let m = nni_mqtt_msg_append_u16 al m (ack_packet_id d) in
           case encode_props al m (ack_props d) CMD_PUBREL of
             None \<Rightarrow> None
           | Some (_, m) \<Rightarrow> finish_header al m d))"

text \<open>PUBCOMP, PINGREQ and PINGRESP are left empty.\<close>

definition nni_mqttv5_msg_encode_pubcomp ::
    "mqtt_nng_msg \<Rightarrow> mqtt_msg \<Rightarrow> (int \<times> mqtt_nng_msg \<times> mqtt_msg) option" where
  "nni_mqttv5_msg_encode_pubcomp m d = Some (0, m, d)"

definition nni_mqttv5_msg_encode_unsubscribe ::
    "allocator \<Rightarrow> mqtt_nng_msg \<Rightarrow> mqtt_msg \<Rightarrow> (int \<times> mqtt_nng_msg \<times> mqtt_msg) option" where
  "nni_mqttv5_msg_encode_unsubscribe al m d =
     (let m = nni_mqtt_msg_append_u16 al (nni_msg_clear m) (sub_packet_id d) in
      case encode_props al m (sub_props d) CMD_UNSUBSCRIBE of
        None \<Rightarrow> None
      | Some (_, m) \<Rightarrow> finish_header al (put_un_topics al m (un_topics d)) (set_bit_1 d))"

definition nni_mqttv5_msg_encode_unsuback ::
    "allocator \<Rightarrow> mqtt_nng_msg \<Rightarrow> mqtt_msg \<Rightarrow> (int \<times> mqtt_nng_msg \<times> mqtt_msg) option" where
  "nni_mqttv5_msg_encode_unsuback al m d =
     (let m = nni_mqtt_msg_append_u16 al (nni_msg_clear m) (sub_packet_id d) in
      case encode_props al m (sub_props d) CMD_UNSUBACK of
        None \<Rightarrow> None
      | Some (_, m) \<Rightarrow> finish_header al (append_codes al m (ret_codes d)) d)"

definition nni_mqttv5_msg_encode_base ::
    "mqtt_nng_msg \<Rightarrow> mqtt_msg \<Rightarrow> (int \<times> mqtt_nng_msg \<times> mqtt_msg) option" where
  "nni_mqttv5_msg_encode_base m d = Some (0, m, d)"

definition header_only ::
    "allocator \<Rightarrow> mqtt_nng_msg \<Rightarrow> mqtt_msg \<Rightarrow> (int \<times> mqtt_nng_msg \<times> mqtt_msg) option" where
  "header_only al m d = map_option (\<lambda>(_, m, d). (MQTT_SUCCESS, m, d)) (nni_mqtt_msg_encode_fixed_header al m d)"

definition nni_mqttv5_msg_encode_disconnect ::
    "allocator \<Rightarrow> mqtt_nng_msg \<Rightarrow> mqtt_msg \<Rightarrow> (int \<times> mqtt_nng_msg \<times> mqtt_msg) option" where
  "nni_mqttv5_msg_encode_disconnect al m d =
     (let m = nni_msg_clear m in
      if reason_code d = 0 \<and> disc_props d = P_null then header_only al m (d\<lparr>remaining_length := 0\<rparr>)
      else
        (case encode_props al (nni_mqtt_msg_append_u8 al m (reason_code d)) (disc_props d) CMD_DISCONNECT of
           None \<Rightarrow> None
         | Some (_, m) \<Rightarrow> finish_header al m d))"

text \<open>Without properties the announced length is two although one byte was written.\<close>

definition nni_mqttv5_msg_encode_auth ::
    "allocator \<Rightarrow> mqtt_nng_msg \<Rightarrow> mqtt_msg \<Rightarrow> (int \<times> mqtt_nng_msg \<times> mqtt_msg) option" where
  "nni_mqttv5_msg_encode_auth al m d =
     (let m = nni_mqtt_msg_append_u8 al (nni_msg_clear m) (reason_code d) in
      if disc_props d = P_null then header_only al m (d\<lparr>remaining_length := 2\<rparr>)
      else
        (case encode_props al m (disc_props d) CMD_AUTH_V5 of
           None \<Rightarrow> None
         | Some (_, m) \<Rightarrow> finish_header al m d))"

section \<open>Decoders\<close>

definition props_of :: "property list option \<Rightarrow> props_ptr" where
  "props_of list = (case list of None \<Rightarrow> P_null | Some ps \<Rightarrow> P_list ps)"

text \<open>
  Reading the properties of the body \<open>body\<close> when \<open>b\<close> is left of it: \<open>put\<close> stores the list, \<open>k\<close> goes on with
  the list and the rest.
\<close>

definition rd_props ::
    "bool \<Rightarrow> allocator \<Rightarrow> bytes \<Rightarrow> bytes \<Rightarrow> mqtt_msg \<Rightarrow> (props_ptr \<Rightarrow> mqtt_msg \<Rightarrow> mqtt_msg) \<Rightarrow>
     (property list option \<Rightarrow> bytes \<Rightarrow> mqtt_msg \<Rightarrow> (int \<times> mqtt_msg) option) \<Rightarrow> (int \<times> mqtt_msg) option" where
  "rd_props st al body b d put k =
     (case decode_buf_properties st al body (length body) (length body - length b) True of
        None \<Rightarrow> None
      | Some (list, pos, prop_len) \<Rightarrow>
          (let d = put (props_of list) d in
           if prop_len = LEN_ERROR then Some (MQTT_ERR_PROTOCOL, d) else k list (drop pos body) d))"

text \<open>A check whose reason code is the result unless it is success.\<close>

definition chk :: "nat option \<Rightarrow> mqtt_msg \<Rightarrow> (int \<times> mqtt_msg) option \<Rightarrow> (int \<times> mqtt_msg) option" where
  "chk r d k = (case r of None \<Rightarrow> None | Some rc \<Rightarrow> if rc \<noteq> NNG_MQTT_SUCCESS then Some (int rc, d) else k)"

fun each_prop :: "(property \<Rightarrow> nat option) \<Rightarrow> property list \<Rightarrow> nat option" where
  "each_prop rule [] = Some NNG_MQTT_SUCCESS"
| "each_prop rule (p # ps) =
     (case rule p of
        None \<Rightarrow> None
      | Some rc \<Rightarrow> if rc \<noteq> NNG_MQTT_SUCCESS then Some rc else each_prop rule ps)"

definition flag_rule :: "nat \<Rightarrow> property \<Rightarrow> nat option" where
  "flag_rule err p =
     (case p_value p of V_u8 v \<Rightarrow> Some (if v > 1 then err else NNG_MQTT_SUCCESS) | _ \<Rightarrow> None)"

definition connect_rule :: "property \<Rightarrow> nat option" where
  "connect_rule p =
     (if p_id p \<in> {REQUEST_RESPONSE_INFORMATION, REQUEST_PROBLEM_INFORMATION} then flag_rule PROTOCOL_ERROR p
      else if p_id p \<in> {CONTENT_TYPE, SESSION_EXPIRY_INTERVAL, RECEIVE_MAXIMUM, MAXIMUM_PACKET_SIZE,
                TOPIC_ALIAS_MAXIMUM, USER_PROPERTY, AUTHENTICATION_METHOD, AUTHENTICATION_DATA}
      then Some NNG_MQTT_SUCCESS
      else Some PROTOCOL_ERROR)"

definition will_rule :: "property \<Rightarrow> nat option" where
  "will_rule p =
     (if p_id p = PAYLOAD_FORMAT_INDICATOR then flag_rule PAYLOAD_FORMAT_INVALID p
      else if p_id p \<in> {WILL_DELAY_INTERVAL, MESSAGE_EXPIRY_INTERVAL, CONTENT_TYPE, RESPONSE_TOPIC,
                CORRELATION_DATA, USER_PROPERTY}
      then Some NNG_MQTT_SUCCESS
      else Some PROTOCOL_ERROR)"

definition connack_rule :: "property \<Rightarrow> nat option" where
  "connack_rule p =
     (if p_id p \<in> {PUBLISH_MAXIMUM_QOS, WILDCARD_SUBSCRIPTION_AVAILABLE, SUBSCRIPTION_IDENTIFIER_AVAILABLE,
           SHARED_SUBSCRIPTION_AVAILABLE} then flag_rule PROTOCOL_ERROR p
      else if p_id p \<in> {RECEIVE_MAXIMUM, RETAIN_AVAILABLE, MAXIMUM_PACKET_SIZE, ASSIGNED_CLIENT_IDENTIFIER,
                TOPIC_ALIAS_MAXIMUM, REASON_STRING, USER_PROPERTY, SERVER_KEEP_ALIVE, RESPONSE_INFORMATION,
                SERVER_REFERENCE, AUTHENTICATION_METHOD, AUTHENTICATION_DATA, SESSION_EXPIRY_INTERVAL}
      then Some NNG_MQTT_SUCCESS
      else Some PROTOCOL_ERROR)"

text \<open>The checks of a list that is not null.\<close>

definition checked ::
    "mqtt_nng_msg \<Rightarrow> (property \<Rightarrow> nat option) \<Rightarrow> property list option \<Rightarrow> mqtt_msg \<Rightarrow>
     (int \<times> mqtt_msg) option \<Rightarrow> (int \<times> mqtt_msg) option" where
  "checked m rule list d k =
     (case list of
        None \<Rightarrow> k
      | Some ps \<Rightarrow> chk (check_properties list (Some m)) d (chk (each_prop rule ps) d k))"

definition nni_mqttv5_msg_decode_connect ::
    "bool \<Rightarrow> allocator \<Rightarrow> mqtt_nng_msg \<Rightarrow> mqtt_msg \<Rightarrow> (int \<times> mqtt_msg) option" where
  "nni_mqttv5_msg_decode_connect st al m d =
     (let body = nni_msg_body m in
      rd (read_str_data body) d (\<lambda>name b.
        let d = d\<lparr>vh_name := name\<rparr> in
        rd (read_byte b) d (\<lambda>version b.
          let d = d\<lparr>vh_version := version\<rparr> in
          rd (read_byte b) d (\<lambda>flags b.
            let d = d\<lparr>conn_flags := flags\<rparr> in
            rd (read_uint16 b) d (\<lambda>t b.
              let d = d\<lparr>vh_u16 := t\<rparr> in
              rd_props st al body b d (\<lambda>p d. d\<lparr>vh_props := p\<rparr>) (\<lambda>list b d.
                checked m connect_rule list d (
                  rd (read_utf8_str b) d (\<lambda>cid b.
                    let d = d\<lparr>client_id := cid\<rparr> in
                    if will_flag (conn_flags d)
                    then rd_props st al body b d (\<lambda>p d. d\<lparr>will_props := p\<rparr>) (\<lambda>list b d.
                           checked m will_rule list d (
                             rd (read_utf8_str b) d (\<lambda>topic b.
                               let d = d\<lparr>will_topic := topic\<rparr> in
                               rd (read_str_data b) d (\<lambda>s b. read_credentials b (d\<lparr>will_msg := s\<rparr>)))))
                    else read_credentials b d))))))))"

definition nni_mqttv5_msg_decode_disconnect ::
    "bool \<Rightarrow> allocator \<Rightarrow> mqtt_nng_msg \<Rightarrow> mqtt_msg \<Rightarrow> (int \<times> mqtt_msg) option" where
  "nni_mqttv5_msg_decode_disconnect st al m d =
     rd (read_byte (nni_msg_body m)) d (\<lambda>code b.
       rd_props st al (nni_msg_body m) b (d\<lparr>reason_code := code\<rparr>) (\<lambda>p d. d\<lparr>disc_props := p\<rparr>)
         (\<lambda>list b d. Some (MQTT_SUCCESS, d)))"

definition nni_mqttv5_msg_decode_auth ::
    "bool \<Rightarrow> allocator \<Rightarrow> mqtt_nng_msg \<Rightarrow> mqtt_msg \<Rightarrow> (int \<times> mqtt_msg) option" where
  "nni_mqttv5_msg_decode_auth st al m d =
     rd (read_byte (nni_msg_body m)) d (\<lambda>code b.
       rd_props st al (nni_msg_body m) b (d\<lparr>reason_code := code\<rparr>) (\<lambda>p d. d\<lparr>disc_props := p\<rparr>)
         (\<lambda>list b d. Some (MQTT_SUCCESS, d)))"

definition nni_mqttv5_msg_decode_connack ::
    "bool \<Rightarrow> allocator \<Rightarrow> mqtt_nng_msg \<Rightarrow> mqtt_msg \<Rightarrow> (int \<times> mqtt_msg) option" where
  "nni_mqttv5_msg_decode_connack st al m d =
     rd (read_byte (nni_msg_body m)) d (\<lambda>flags b.
       let d = d\<lparr>ca_flags := flags\<rparr> in
       rd (read_byte b) d (\<lambda>code b.
         rd_props st al (nni_msg_body m) b (d\<lparr>conn_return_code := code\<rparr>) (\<lambda>p d. d\<lparr>ca_props := p\<rparr>)
           (\<lambda>list b d. checked m connack_rule list d (Some (MQTT_SUCCESS, d)))))"

definition topic_entry5 :: "nat \<Rightarrow> mqtt_buf \<Rightarrow> u8 \<Rightarrow> mqtt_topic_qos" where
  "topic_entry5 i topic to =
     \<lparr>tq_topic = topic, tq_qos = to AND 0x03, tq_nolocal = drop_bit 2 to AND 0x01,
      tq_rap = drop_bit 3 to AND 0x01, tq_retain_handling = drop_bit 4 to AND 0x03\<rparr>"

definition nni_mqttv5_msg_decode_subscribe ::
    "bool \<Rightarrow> allocator \<Rightarrow> mqtt_nng_msg \<Rightarrow> mqtt_msg \<Rightarrow> (int \<times> mqtt_msg) option" where
  "nni_mqttv5_msg_decode_subscribe st al m d =
     rd (read_uint16 (nni_msg_body m)) d (\<lambda>packet_id b.
       rd_props st al (nni_msg_body m) b (d\<lparr>sub_packet_id := packet_id\<rparr>) (\<lambda>p d. d\<lparr>sub_props := p\<rparr>)
         (\<lambda>list b d. decode_topics al topic_entry5 b d))"

definition nni_mqttv5_msg_decode_suback ::
    "bool \<Rightarrow> allocator \<Rightarrow> mqtt_nng_msg \<Rightarrow> mqtt_msg \<Rightarrow> (int \<times> mqtt_msg) option" where
  "nni_mqttv5_msg_decode_suback st al m d =
     rd (read_uint16 (nni_msg_body m)) d (\<lambda>packet_id b.
       rd_props st al (nni_msg_body m) b (d\<lparr>sub_packet_id := packet_id\<rparr>) (\<lambda>p d. d\<lparr>sub_props := p\<rparr>)
         (\<lambda>list b d. decode_ret_codes al b d))"

text \<open>
  The payload of a PUBLISH is what the remaining length leaves behind the properties, which lie between
  \<open>pos1\<close> and \<open>pos\<close>. Its length is stored before it is compared with the body.
\<close>

definition publish5_payload :: "bytes \<Rightarrow> nat \<Rightarrow> nat \<Rightarrow> mqtt_msg \<Rightarrow> int \<times> mqtt_msg" where
  "publish5_payload body pos1 pos d =
     (let header_len = wrap32 (2 + (pos - pos1) + blen (vh_name d) + (if publish_qos d > 0 then 2 else 0));
          len = remaining_length d - header_len in
      if remaining_length d < header_len then (MQTT_ERR_PROTOCOL, d)
      else if pos > length body \<or> length body - pos < len
      then (MQTT_ERR_PROTOCOL, d\<lparr>pub_payload := (pub_payload d)\<lparr>blen := len\<rparr>\<rparr>)
      else (MQTT_SUCCESS, d\<lparr>pub_payload := payload_at len (drop pos body)\<rparr>))"

text \<open>
  A PUBLISH that a bridge received gets the command type of other PUBLISH packets and the check for
  them. A list that fails its check is freed, and the pointer cleared.
\<close>

definition publish5_props ::
    "bool \<Rightarrow> allocator \<Rightarrow> mqtt_nng_msg \<Rightarrow> nat \<Rightarrow> mqtt_msg \<Rightarrow> (int \<times> mqtt_nng_msg \<times> mqtt_msg) option" where
  "publish5_props st al m pos1 d =
     (let body = nni_msg_body m;
          recv = nni_msg_get_cmd_type m = CMD_PUBLISH_V5_RECV;
          changed = (if recv then nni_msg_set_cmd_type m CMD_PUBLISH_V5 else m) in
      case decode_buf_properties st al body (length body) pos1 True of
        None \<Rightarrow> None
      | Some (list, pos, prop_len) \<Rightarrow>
          (let d = d\<lparr>vh_props := props_of list\<rparr> in
           if prop_len = LEN_ERROR then Some (MQTT_ERR_PROTOCOL, m, d)
           else
             (case (if recv then check_downstream_pub_properties list else check_properties list (Some changed)) of
                None \<Rightarrow> None
              | Some rc \<Rightarrow>
                  if rc \<noteq> NNG_MQTT_SUCCESS then Some (MQTT_ERR_PROTOCOL, changed, d\<lparr>vh_props := P_null\<rparr>)
                  else (case publish5_payload body pos1 pos d of (rv, d) \<Rightarrow> Some (rv, changed, d)))))"

definition nni_mqttv5_msg_decode_publish ::
    "bool \<Rightarrow> allocator \<Rightarrow> mqtt_nng_msg \<Rightarrow> mqtt_msg \<Rightarrow> (int \<times> mqtt_nng_msg \<times> mqtt_msg) option" where
  "nni_mqttv5_msg_decode_publish st al m d =
     (let body = nni_msg_body m in
      case read_utf8_str body of
        Inl _ \<Rightarrow> Some (MQTT_ERR_PROTOCOL, m, d)
      | Inr (topic, b) \<Rightarrow>
          (let d = d\<lparr>vh_name := topic\<rparr> in
           if publish_qos d > 0
           then
             (case read_uint16 b of
                Inl _ \<Rightarrow> Some (MQTT_ERR_PROTOCOL, m, d)
              | Inr (packet_id, b) \<Rightarrow>
                  publish5_props st al m (length body - length b) (d\<lparr>vh_u16 := packet_id\<rparr>))
           else publish5_props st al m (length body - length b) d))"

text \<open>
  The acknowledgements of a PUBLISH: errors of the readers are passed on, the properties are not copied,
  and a list that fails its check is freed.
\<close>

definition ack5_props :: "bool \<Rightarrow> allocator \<Rightarrow> mqtt_nng_msg \<Rightarrow> nat \<Rightarrow> mqtt_msg \<Rightarrow> (int \<times> mqtt_msg) option" where
  "ack5_props st al m pos d =
     (case decode_properties st al m pos False of
        None \<Rightarrow> None
      | Some (list, _, prop_len) \<Rightarrow>
          (let d = d\<lparr>ack_props := props_of list\<rparr> in
           if prop_len = LEN_ERROR then Some (int PROTOCOL_ERROR, d)
           else
             (case check_properties list (Some m) of
                None \<Rightarrow> None
              | Some rc \<Rightarrow>
                  if rc \<noteq> NNG_MQTT_SUCCESS then Some (int PROTOCOL_ERROR, d\<lparr>ack_props := P_null\<rparr>)
                  else Some (MQTT_SUCCESS, d))))"

definition decode_ack5 :: "bool \<Rightarrow> allocator \<Rightarrow> mqtt_nng_msg \<Rightarrow> mqtt_msg \<Rightarrow> (int \<times> mqtt_msg) option" where
  "decode_ack5 st al m d =
     (let body = nni_msg_body m in
      case read_uint16 body of
        Inl e \<Rightarrow> Some (e, d)
      | Inr (packet_id, b) \<Rightarrow>
          (let d = d\<lparr>ack_packet_id := packet_id\<rparr> in
           if length body \<le> 2 then Some (MQTT_SUCCESS, d\<lparr>ack_code := 0, ack_props := P_null\<rparr>)
           else
             (case read_byte b of
                Inl e \<Rightarrow> Some (e, d)
              | Inr (code, b) \<Rightarrow>
                  (let d = d\<lparr>ack_code := code\<rparr> in
                   if b = [] then Some (MQTT_SUCCESS, d\<lparr>ack_props := P_null\<rparr>)
                   else ack5_props st al m (length body - length b) d))))"

definition nni_mqttv5_msg_decode_puback ::
    "bool \<Rightarrow> allocator \<Rightarrow> mqtt_nng_msg \<Rightarrow> mqtt_msg \<Rightarrow> (int \<times> mqtt_msg) option" where
  "nni_mqttv5_msg_decode_puback st al m d = decode_ack5 st al m d"

definition nni_mqttv5_msg_decode_pubrec ::
    "bool \<Rightarrow> allocator \<Rightarrow> mqtt_nng_msg \<Rightarrow> mqtt_msg \<Rightarrow> (int \<times> mqtt_msg) option" where
  "nni_mqttv5_msg_decode_pubrec st al m d = decode_ack5 st al m d"

definition nni_mqttv5_msg_decode_pubrel ::
    "bool \<Rightarrow> allocator \<Rightarrow> mqtt_nng_msg \<Rightarrow> mqtt_msg \<Rightarrow> (int \<times> mqtt_msg) option" where
  "nni_mqttv5_msg_decode_pubrel st al m d = decode_ack5 st al m d"

definition nni_mqttv5_msg_decode_pubcomp ::
    "bool \<Rightarrow> allocator \<Rightarrow> mqtt_nng_msg \<Rightarrow> mqtt_msg \<Rightarrow> (int \<times> mqtt_msg) option" where
  "nni_mqttv5_msg_decode_pubcomp st al m d = decode_ack5 st al m d"

definition nni_mqttv5_msg_decode_unsubscribe ::
    "bool \<Rightarrow> allocator \<Rightarrow> mqtt_nng_msg \<Rightarrow> mqtt_msg \<Rightarrow> (int \<times> mqtt_msg) option" where
  "nni_mqttv5_msg_decode_unsubscribe st al m d =
     (if \<not> flags_are_2 d then Some (MQTT_ERR_PROTOCOL, d)
      else
        rd (read_uint16 (nni_msg_body m)) d (\<lambda>packet_id b.
          rd_props st al (nni_msg_body m) b (d\<lparr>sub_packet_id := packet_id\<rparr>) (\<lambda>p d. d\<lparr>sub_props := p\<rparr>)
            (\<lambda>list b d. decode_un_topics al b d)))"

text \<open>
  The identifier is stored through the member for UNSUBSCRIBE, which has the same layout. The error exit
  of the loop, which keeps the array, is never taken, since there are as many bytes as codes.
\<close>

definition nni_mqttv5_msg_decode_unsuback ::
    "bool \<Rightarrow> allocator \<Rightarrow> mqtt_nng_msg \<Rightarrow> mqtt_msg \<Rightarrow> (int \<times> mqtt_msg) option" where
  "nni_mqttv5_msg_decode_unsuback st al m d =
     rd (read_uint16 (nni_msg_body m)) d (\<lambda>packet_id b.
       rd_props st al (nni_msg_body m) b (d\<lparr>sub_packet_id := packet_id\<rparr>) (\<lambda>p d. d\<lparr>sub_props := p\<rparr>)
         (\<lambda>list b d. decode_ret_codes al b d))"

definition nni_mqttv5_msg_decode_base :: "mqtt_nng_msg \<Rightarrow> mqtt_msg \<Rightarrow> (int \<times> mqtt_msg) option" where
  "nni_mqttv5_msg_decode_base m d = Some (0, d)"

section \<open>Selection and validation\<close>

definition codec_v5_encoders :: "allocator \<Rightarrow> u32 \<Rightarrow> (u8 \<times> encoder) list" where
  "codec_v5_encoders al rnd =
     [(NNG_MQTT_CONNECT, nni_mqttv5_msg_encode_connect al rnd),
      (NNG_MQTT_CONNACK, nni_mqttv5_msg_encode_connack al),
      (NNG_MQTT_PUBLISH, nni_mqttv5_msg_encode_publish al),
      (NNG_MQTT_PUBACK, nni_mqttv5_msg_encode_puback al),
      (NNG_MQTT_PUBREC, nni_mqttv5_msg_encode_pubrec al),
      (NNG_MQTT_PUBREL, nni_mqttv5_msg_encode_pubrel al),
      (NNG_MQTT_PUBCOMP, nni_mqttv5_msg_encode_pubcomp),
      (NNG_MQTT_SUBSCRIBE, nni_mqttv5_msg_encode_subscribe al),
      (NNG_MQTT_SUBACK, nni_mqttv5_msg_encode_suback al),
      (NNG_MQTT_UNSUBSCRIBE, nni_mqttv5_msg_encode_unsubscribe al),
      (NNG_MQTT_UNSUBACK, nni_mqttv5_msg_encode_unsuback al),
      (NNG_MQTT_PINGREQ, nni_mqttv5_msg_encode_base),
      (NNG_MQTT_PINGRESP, nni_mqttv5_msg_encode_base),
      (NNG_MQTT_DISCONNECT, nni_mqttv5_msg_encode_disconnect al),
      (NNG_MQTT_AUTH, nni_mqttv5_msg_encode_auth al)]"

text \<open>A decoder that leaves the message as it is.\<close>

definition keeps :: "decoder \<Rightarrow> mqtt_nng_msg \<Rightarrow> mqtt_msg \<Rightarrow> (int \<times> mqtt_nng_msg \<times> mqtt_msg) option" where
  "keeps dec m d = map_option (\<lambda>(rv, d). (rv, m, d)) (dec m d)"

definition codec_v5_decoders :: "bool \<Rightarrow> allocator \<Rightarrow> (u8 \<times> encoder) list" where
  "codec_v5_decoders st al =
     [(NNG_MQTT_CONNECT, keeps (nni_mqttv5_msg_decode_connect st al)),
      (NNG_MQTT_CONNACK, keeps (nni_mqttv5_msg_decode_connack st al)),
      (NNG_MQTT_PUBLISH, nni_mqttv5_msg_decode_publish st al),
      (NNG_MQTT_PUBACK, keeps (nni_mqttv5_msg_decode_puback st al)),
      (NNG_MQTT_PUBREC, keeps (nni_mqttv5_msg_decode_pubrec st al)),
      (NNG_MQTT_PUBREL, keeps (nni_mqttv5_msg_decode_pubrel st al)),
      (NNG_MQTT_PUBCOMP, keeps (nni_mqttv5_msg_decode_pubcomp st al)),
      (NNG_MQTT_SUBSCRIBE, keeps (nni_mqttv5_msg_decode_subscribe st al)),
      (NNG_MQTT_SUBACK, keeps (nni_mqttv5_msg_decode_suback st al)),
      (NNG_MQTT_UNSUBSCRIBE, keeps (nni_mqttv5_msg_decode_unsubscribe st al)),
      (NNG_MQTT_UNSUBACK, keeps (nni_mqttv5_msg_decode_unsuback st al)),
      (NNG_MQTT_PINGREQ, keeps nni_mqttv5_msg_decode_base),
      (NNG_MQTT_PINGRESP, keeps nni_mqttv5_msg_decode_base),
      (NNG_MQTT_DISCONNECT, keeps (nni_mqttv5_msg_decode_disconnect st al)),
      (NNG_MQTT_AUTH, keeps (nni_mqttv5_msg_decode_auth st al))]"

definition nni_mqttv5_msg_encode :: "allocator \<Rightarrow> u32 \<Rightarrow> mqtt_nng_msg \<Rightarrow> (int \<times> mqtt_nng_msg) option" where
  "nni_mqttv5_msg_encode al rnd m = encode_with (codec_v5_encoders al rnd) m"

definition nni_mqttv5_msg_decode :: "bool \<Rightarrow> allocator \<Rightarrow> mqtt_nng_msg \<Rightarrow> (int \<times> mqtt_nng_msg) option" where
  "nni_mqttv5_msg_decode st al m =
     (case nni_mqtt_msg_decode_fixed_header m of
        None \<Rightarrow> None
      | Some (ret, m) \<Rightarrow>
          if ret \<noteq> MQTT_SUCCESS then Some (ret, m)
          else
            (case m_proto_data m of
               None \<Rightarrow> None
             | Some d \<Rightarrow>
                 (case map_of (codec_v5_decoders st al) (packet_type d) of
                    None \<Rightarrow> Some (MQTT_ERR_PROTOCOL, m)
                  | Some dec \<Rightarrow>
                      (let d = started False d in
                       if \<not> is_decoded d
                       then
                         (case mqtt_msg_content_free d of
                            None \<Rightarrow> None
                          | Some d \<Rightarrow>
                              map_option (\<lambda>(rv, m, d). (rv, m\<lparr>m_proto_data := Some d\<rparr>))
                                (dec m (d\<lparr>is_decoded := True\<rparr>)))
                       else Some (MQTT_SUCCESS, m\<lparr>m_proto_data := Some d\<rparr>)))))"

text \<open>\<^verbatim>\<open>memcpy\<close> over the whole body of a message.\<close>

definition fill_body :: "'p nng_msg \<Rightarrow> bytes \<Rightarrow> 'p nng_msg option" where
  "fill_body m data =
     (if data = [] then Some m
      else
        (case ch_ptr (m_body m) of
           None \<Rightarrow> None
         | Some p \<Rightarrow> Some (m\<lparr>m_body := (m_body m)\<lparr>ch_buf := memcpy_at (ch_buf (m_body m)) p data\<rparr>\<rparr>)))"

text \<open>The decoding of the check message, and its release, which frees the decoded content.\<close>

definition validate_check ::
    "bool \<Rightarrow> allocator \<Rightarrow> (nat \<Rightarrow> mqtt_topic_qos) \<Rightarrow> mqtt_nng_msg \<Rightarrow> u8 \<Rightarrow> int option" where
  "validate_check st al junk check_msg mqtt_version =
     (case (if mqtt_version = MQTT_PROTOCOL_VERSION_v5 then nni_mqttv5_msg_decode st al check_msg
            else nni_mqtt_msg_decode al junk check_msg) of
        None \<Rightarrow> None
      | Some (rv, m) \<Rightarrow> map_option (\<lambda>_. rv) (nni_mqtt_msg_free (m_proto_data m)))"

definition nni_mqtt_msg_packet_validate ::
    "bool \<Rightarrow> allocator \<Rightarrow> (nat \<Rightarrow> mqtt_topic_qos) \<Rightarrow> mqtt_msg proto_msg_ops \<Rightarrow> bytes option \<Rightarrow> nat \<Rightarrow> nat \<Rightarrow> u8 \<Rightarrow>
     int option" where
  "nni_mqtt_msg_packet_validate st al junk ops buf buf_len header_len mqtt_version =
     (case buf of
        None \<Rightarrow> Some MQTT_ERR_PROTOCOL
      | Some bs \<Rightarrow>
          if buf_len < header_len then Some MQTT_ERR_PROTOCOL
          else if length bs < buf_len then None
          else
            (case nni_mqtt_msg_alloc st st al ops (buf_len - header_len) of
               None \<Rightarrow> None
             | Some (rv, cm) \<Rightarrow>
                 if rv \<noteq> 0 then Some MQTT_ERR_NOMEM
                 else
                   (case cm of
                      None \<Rightarrow> None
                    | Some m \<Rightarrow>
                        (case fill_body (snd (nni_msg_header_append m bs header_len))
                                (bslice header_len (buf_len - header_len) bs) of
                           None \<Rightarrow> None
                         | Some m \<Rightarrow> validate_check st al junk m mqtt_version))))"

definition nni_mqtt_msg_validate ::
    "bool \<Rightarrow> allocator \<Rightarrow> (nat \<Rightarrow> mqtt_topic_qos) \<Rightarrow> mqtt_msg proto_msg_ops \<Rightarrow> mqtt_nng_msg \<Rightarrow> u8 \<Rightarrow> int option" where
  "nni_mqtt_msg_validate st al junk ops msg mqtt_version =
     (case nni_mqtt_msg_alloc st st al ops (nni_msg_len msg) of
        None \<Rightarrow> None
      | Some (rv, cm) \<Rightarrow>
          if rv \<noteq> 0 then Some MQTT_ERR_NOMEM
          else
            (case cm of
               None \<Rightarrow> None
             | Some m \<Rightarrow>
                 (case fill_body (snd (nni_msg_header_append m (nni_msg_header msg) (m_header_len msg)))
                         (nni_msg_body msg) of
                    None \<Rightarrow> None
                  | Some m \<Rightarrow> validate_check st al junk m mqtt_version)))"

section \<open>Acknowledgements of the broker\<close>

text \<open>
  The packet identifier and the reason code are output parameters, passed as their old values; the
  result is the return code, the two values and the property list.
\<close>

definition nni_mqtt_pubres_decode ::
    "bool \<Rightarrow> allocator \<Rightarrow> 'p nng_msg \<Rightarrow> u16 \<Rightarrow> u8 \<Rightarrow> u8 \<Rightarrow> (int \<times> u16 \<times> u8 \<times> property list option) option" where
  "nni_mqtt_pubres_decode st al msg packet_id reason proto_version =
     (let body = nni_msg_body msg in
      case read_uint16 body of
        Inl e \<Rightarrow> Some (e, packet_id, reason, None)
      | Inr (packet_id, b) \<Rightarrow>
          if length body = 2 \<or> proto_version \<noteq> MQTT_PROTOCOL_VERSION_v5 then Some (MQTT_SUCCESS, packet_id, reason, None)
          else
            (case read_byte b of
               Inl e \<Rightarrow> Some (e, packet_id, reason, None)
             | Inr (reason, b) \<Rightarrow>
                 if b = [] then Some (MQTT_SUCCESS, packet_id, reason, None)
                 else
                   (case decode_properties st al msg (length body - length b) False of
                      None \<Rightarrow> None
                    | Some (prop, pos, prop_len) \<Rightarrow>
                        if prop_len = LEN_ERROR then Some (int PROTOCOL_ERROR, packet_id, reason, prop)
                        else
                          (case check_properties prop (Some msg) of
                             None \<Rightarrow> None
                           | Some rc \<Rightarrow>
                               if rc \<noteq> NNG_MQTT_SUCCESS then Some (int PROTOCOL_ERROR, packet_id, reason, None)
                               else Some (MQTT_SUCCESS, packet_id, reason, prop)))))"

text \<open>The length goes into four bytes on the stack; five bytes overrun them.\<close>

definition nni_mqtt_pubres_header_encode :: "'p nng_msg \<Rightarrow> u8 \<Rightarrow> (int \<times> 'p nng_msg) option" where
  "nni_mqtt_pubres_header_encode msg cmd =
     (case write_variable_length_value (wrap32 (nni_msg_len msg)) of
        (n, var_len) \<Rightarrow>
          if length var_len > 4 then None
          else
            (let cmd = (if cmd = CMD_PUBREL then cmd OR 0x02 else cmd);
                 m = snd (nni_msg_header_append msg [cmd] 1) in
             Some (0, snd (nni_msg_header_append m var_len (nat n)))))"

text \<open>The two bytes from \<^verbatim>\<open>nni_zalloc\<close> are written without a check.\<close>

definition nni_mqtt_msgack_encode ::
    "allocator \<Rightarrow> 'p nng_msg \<Rightarrow> u16 \<Rightarrow> u8 \<Rightarrow> property list option \<Rightarrow> u8 \<Rightarrow> (int \<times> 'p nng_msg) option" where
  "nni_mqtt_msgack_encode al msg packet_id reason prop proto_version =
     (if \<not> al 2 then None
      else
        (let m = snd (nni_msg_append al (nni_msg_clear msg) (Some (NNI_PUT16 packet_id)) 2) in
         if proto_version = MQTT_PROTOCOL_VERSION_v5 then
           (if reason = 0 \<and> prop = None then Some (MQTT_SUCCESS, m)
            else
              (let m = snd (nni_msg_append al m (Some [reason]) 1) in
               map_option (\<lambda>(_, m). (MQTT_SUCCESS, m)) (encode_properties al m prop 0)))
         else Some (MQTT_SUCCESS, m)))"

text \<open>
  The counter is an atomic 32-bit integer, taken at its value when the exchange succeeds; no other thread
  moves it before the test that follows. The result is the identifier and the new value of the counter.
\<close>

definition mqtt_get_next_packet_id :: "32 word \<Rightarrow> u16 \<times> 32 word" where
  "mqtt_get_next_packet_id counter =
     (let next = counter + 1 in
      (ucast counter, if next AND 0xFFFF = 0 then 1 else next))"

text \<open>
  The properties of a PUBLISH get the expiry interval of the packet. \<open>sta\<close> says whether missing protocol
  data can be allocated, with the functions \<open>ops\<close>; a list that was freed is followed.
\<close>

definition set_expiry :: "bool \<Rightarrow> u32 \<Rightarrow> property list \<Rightarrow> property list option" where
  "set_expiry st v ps =
     (if list_ex (\<lambda>p. p_id p = MESSAGE_EXPIRY_INTERVAL) ps then
        (let pre = takeWhile (\<lambda>p. p_id p \<noteq> MESSAGE_EXPIRY_INTERVAL) ps;
             rest = drop (length pre) ps in
         Some (pre @ (hd rest)\<lparr>p_value := V_u32 v\<rparr> # tl rest))
      else
        (case property_set_value_u32 st MESSAGE_EXPIRY_INTERVAL v of
           None \<Rightarrow> None
         | Some p \<Rightarrow> property_append (Some ps) p))"

definition decode_pub_msg_expiry_property ::
    "bool \<Rightarrow> bool \<Rightarrow> mqtt_msg proto_msg_ops \<Rightarrow> mqtt_nng_msg \<Rightarrow> mqtt_nng_msg option" where
  "decode_pub_msg_expiry_property sta st ops msg =
     (case fast_parse_msg_expiry_val (Some msg) of
        None \<Rightarrow> None
      | Some None \<Rightarrow> Some msg
      | Some (Some v) \<Rightarrow>
          (let m = (if m_proto_data msg = None then snd (nni_mqtt_msg_proto_data_alloc sta ops msg) else msg) in
           case m_proto_data m of
             None \<Rightarrow> Some m
           | Some d \<Rightarrow>
               (let start = (case vh_props d of P_null \<Rightarrow> if st then Some (Some []) else Some None
                             | P_freed \<Rightarrow> None | P_list ps \<Rightarrow> Some (Some ps)) in
                case start of
                  None \<Rightarrow> None
                | Some None \<Rightarrow> Some m
                | Some (Some ps) \<Rightarrow>
                    (case set_expiry st v ps of
                       None \<Rightarrow> Some (m\<lparr>m_proto_data := Some (d\<lparr>vh_props := P_list ps\<rparr>)\<rparr>)
                     | Some qs \<Rightarrow>
                         Some (m\<lparr>m_proto_data := Some ((set_packet_type NNG_MQTT_PUBLISH
                           (d\<lparr>vh_props := P_list qs\<rparr>))\<lparr>initialized := True\<rparr>)\<rparr>)))))"

end
