(* ===== verification/MqttValid.thy ===== *)
theory MqttValid
  imports MqttCodec5
begin

text \<open>
  Decoding is safe on every input: the decoders of both protocol versions return a result for all bytes,
  without leaving the packet or an array, and leave property lists that can be freed. This makes
  \<^verbatim>\<open>nni_mqtt_msg_packet_validate\<close> and \<^verbatim>\<open>nni_mqtt_msg_validate\<close> total. The collection \<open>safe\<close> has one rule for
  every step of a decoder.
\<close>

section \<open>Steps of decoders\<close>

named_theorems safe \<open>steps of decoders that neither crash nor leave dangling properties\<close>

definition undangling :: "mqtt_msg \<Rightarrow> bool" where
  "undangling d \<longleftrightarrow>
     P_freed \<notin> {vh_props d, ca_props d, ack_props d, sub_props d, disc_props d, will_props d}"

definition fine :: "(int \<times> mqtt_msg) option \<Rightarrow> bool" where
  "fine r \<longleftrightarrow> (\<exists>rv d. r = Some (rv, d) \<and> undangling d)"

definition typed :: "property list option \<Rightarrow> bool" where
  "typed list \<longleftrightarrow> (\<forall>ps. list = Some ps \<longrightarrow> (\<forall>p \<in> set ps. prop_ok p))"

lemma typed_None [simp, safe]: "typed None"
  by (simp add: typed_def)

lemma fine_Some [simp]: "fine (Some (rv, d)) = undangling d"
  by (simp add: fine_def)

lemma undangling_simps [simp]:
  "undangling (d\<lparr>vh_name := a\<rparr>) = undangling d" "undangling (d\<lparr>vh_version := b\<rparr>) = undangling d"
  "undangling (d\<lparr>conn_flags := b\<rparr>) = undangling d" "undangling (d\<lparr>vh_u16 := w\<rparr>) = undangling d"
  "undangling (d\<lparr>client_id := a\<rparr>) = undangling d" "undangling (d\<lparr>will_topic := a\<rparr>) = undangling d"
  "undangling (d\<lparr>will_msg := a\<rparr>) = undangling d" "undangling (d\<lparr>user_name := a\<rparr>) = undangling d"
  "undangling (d\<lparr>password := a\<rparr>) = undangling d" "undangling (d\<lparr>ca_flags := b\<rparr>) = undangling d"
  "undangling (d\<lparr>conn_return_code := b\<rparr>) = undangling d" "undangling (d\<lparr>ack_packet_id := w\<rparr>) = undangling d"
  "undangling (d\<lparr>ack_code := b\<rparr>) = undangling d" "undangling (d\<lparr>sub_packet_id := w\<rparr>) = undangling d"
  "undangling (d\<lparr>reason_code := b\<rparr>) = undangling d" "undangling (d\<lparr>pub_payload := a\<rparr>) = undangling d"
  "undangling (d\<lparr>topics := ts\<rparr>) = undangling d" "undangling (d\<lparr>un_topics := us\<rparr>) = undangling d"
  "undangling (d\<lparr>ret_codes := cs\<rparr>) = undangling d" "undangling (d\<lparr>is_decoded := q\<rparr>) = undangling d"
  "undangling (d\<lparr>is_copied := q\<rparr>) = undangling d" "undangling (d\<lparr>fh_common := b\<rparr>) = undangling d"
  "undangling (d\<lparr>remaining_length := n\<rparr>) = undangling d" "undangling (d\<lparr>used_bytes := n\<rparr>) = undangling d"
  "undangling (started q d) = undangling d"
  by (simp_all add: undangling_def started_def)

lemma undangling_props [simp]:
  assumes "undangling d" and "p \<noteq> P_freed"
  shows "undangling (d\<lparr>vh_props := p\<rparr>)" "undangling (d\<lparr>ca_props := p\<rparr>)" "undangling (d\<lparr>ack_props := p\<rparr>)"
    "undangling (d\<lparr>sub_props := p\<rparr>)" "undangling (d\<lparr>disc_props := p\<rparr>)" "undangling (d\<lparr>will_props := p\<rparr>)"
  using assms by (auto simp: undangling_def)

lemma props_of_live [simp]: "props_of list \<noteq> P_freed"
  by (simp add: props_of_def split: option.split)

lemma fine_rd [safe]:
  "undangling d \<Longrightarrow> (\<And>x b. r = Inr (x, b) \<Longrightarrow> fine (k x b)) \<Longrightarrow> fine (rd r d k)"
  by (auto simp: rd_def split: sum.split)

lemma fine_if [safe]: "(c \<Longrightarrow> fine x) \<Longrightarrow> (\<not> c \<Longrightarrow> fine y) \<Longrightarrow> fine (if c then x else y)"
  by simp

lemma fine_rd_props [safe]:
  assumes "st" and "mem_ok al" and "\<And>p. p \<noteq> P_freed \<Longrightarrow> undangling (put p d)"
    and "\<And>list b. typed list \<Longrightarrow> fine (k list b (put (props_of list) d))"
  shows "fine (rd_props st al body b d put k)"
proof -
  obtain list pos n where "decode_buf_properties st al body (length body) (length body - length b) True =
      Some (list, pos, n)" "typed list"
    using decode_buf_total [OF assms(1,2) order_refl, of body "length body - length b" True]
    by (auto simp: typed_def)
  then show ?thesis
    using assms(3,4) by (simp add: rd_props_def Let_def)
qed

lemma check_loop_some: "\<forall>p \<in> set ps. rule p \<noteq> None \<Longrightarrow> check_loop rule seen ps \<noteq> None"
  by (induction ps arbitrary: seen) (auto simp: Let_def split: option.splits)

lemma each_prop_some: "\<forall>p \<in> set ps. rule p \<noteq> None \<Longrightarrow> each_prop rule ps \<noteq> None"
  by (induction ps) (auto split: option.splits)

lemma check_properties_some: "typed list \<Longrightarrow> check_properties list msg \<noteq> None"
  by (cases list) (auto simp del: not_None_eq simp: check_properties_def typed_def Let_def
      intro!: check_loop_some rule_typed(3) split: option.split)

lemma check_downstream_some: "typed list \<Longrightarrow> check_downstream_pub_properties list \<noteq> None"
  by (cases list) (auto simp del: not_None_eq simp: check_downstream_pub_properties_def typed_def
      intro!: check_loop_some rule_typed(2))

lemma decoder_rules_some:
  assumes "prop_ok p"
  shows "connect_rule p \<noteq> None" "will_rule p \<noteq> None" "connack_rule p \<noteq> None"
  using prop_ok_value [OF assms] by (auto simp: connect_rule_def will_rule_def connack_rule_def flag_rule_def)

lemma fine_checked [safe]:
  assumes "typed list" and "\<And>p. prop_ok p \<Longrightarrow> rule p \<noteq> None" and "undangling d" and "fine k"
  shows "fine (checked m rule list d k)"
proof (cases list)
  case (Some ps)
  then obtain x y where "check_properties list (Some m) = Some x" "each_prop rule ps = Some y"
    using check_properties_some [OF assms(1)] each_prop_some [of ps rule] assms(1,2) by (fastforce simp: typed_def)
  then show ?thesis
    using Some assms(3,4) by (simp add: checked_def chk_def)
qed (simp add: checked_def assms(4))

lemma fine_read_credentials [safe]: "undangling d \<Longrightarrow> fine (read_credentials b d)"
  by (simp add: read_credentials_def Let_def safe)

text \<open>The second loop over the topics stays inside the array that the first one sized.\<close>

lemma count_topics_stepE:
  assumes "count_topics extra b = Some n" and "b \<noteq> []"
  obtains l r k where "read_uint16 b = Inr (l, r)" and "count_topics extra (drop (unat l + extra) r) = Some k"
    and "n = Suc k"
  using assms by (subst (asm) count_topics.simps) (auto split: sum.splits)

lemma read_utf8_str_rest:
  "read_uint16 b = Inr (l, r) \<Longrightarrow> read_utf8_str b = Inr (t, r') \<Longrightarrow> r' = drop (unat l) r"
  by (auto simp: read_utf8_str_def word_gt_0 split: if_splits)

lemma read_byte_rest: "read_byte b = Inr (c, r) \<Longrightarrow> r = drop 1 b"
  by (auto elim: read_byte.elims)

lemma read_topics_fits:
  "count_topics 1 b = Some k \<Longrightarrow> i + k \<le> n \<Longrightarrow> read_topics entry n i b acc \<noteq> None"
proof (induction entry n i b acc arbitrary: k rule: read_topics.induct)
  case (1 entry n i b acc)
  show ?case
  proof (cases "b = []")
    case False
    obtain l r k' where s: "read_uint16 b = Inr (l, r)" "count_topics 1 (drop (unat l + 1) r) = Some k'"
        "k = Suc k'"
      using "1.prems"(1) False by (rule count_topics_stepE)
    have i: "\<not> n \<le> i" "i + 1 + k' \<le> n" using "1.prems"(2) s(3) by auto
    have "read_topics entry n (i + 1) r2 (acc @ [entry i t c]) \<noteq> None"
      if "read_utf8_str b = Inr (t, r1)" "read_byte r1 = Inr (c, r2)" for t r1 c r2
    proof -
      have "r2 = drop (unat l + 1) r"
        using read_byte_rest [OF that(2)] read_utf8_str_rest [OF s(1) that(1)] by simp
      then show ?thesis
        using "1.IH" [OF False i(1) that(1) refl that(2) refl, of k'] s(2) i(2) by simp
    qed
    then show ?thesis
      using False i(1) by (subst read_topics.simps) (auto simp del: not_None_eq split: sum.split)
  qed (simp add: read_topics.simps)
qed

lemma read_un_topics_fits:
  "count_topics 0 b = Some k \<Longrightarrow> i + k \<le> n \<Longrightarrow> read_un_topics n i b acc \<noteq> None"
proof (induction n i b acc arbitrary: k rule: read_un_topics.induct)
  case (1 n i b acc)
  show ?case
  proof (cases "b = []")
    case False
    obtain l r k' where s: "read_uint16 b = Inr (l, r)" "count_topics 0 (drop (unat l + 0) r) = Some k'"
        "k = Suc k'"
      using "1.prems"(1) False by (rule count_topics_stepE)
    have i: "\<not> n \<le> i" "i + 1 + k' \<le> n" using "1.prems"(2) s(3) by auto
    have "read_un_topics n (i + 1) r1 (acc @ [t]) \<noteq> None" if "read_utf8_str b = Inr (t, r1)" for t r1
      using "1.IH" [OF False i(1) that refl, of k'] s(2) i(2) read_utf8_str_rest [OF s(1) that] by simp
    then show ?thesis
      using False i(1) by (subst read_un_topics.simps) (auto simp del: not_None_eq split: sum.split)
  qed (simp add: read_un_topics.simps)
qed

lemma fine_decode_topics [safe]:
  assumes "mem_ok al" and "topics d = []" and "undangling d"
  shows "fine (decode_topics al entry b d)"
proof (cases "count_topics 1 b")
  case (Some n)
  then obtain x where "read_topics entry n 0 b [] = Some x"
    using read_topics_fits [of b n 0 n entry "[]"] by auto
  then show ?thesis
    using Some assms by (cases x) (simp_all add: decode_topics_def mem_ok_def)
qed (simp add: decode_topics_def assms)

lemma fine_decode_un_topics [safe]:
  assumes "mem_ok al" and "un_topics d = []" and "undangling d"
  shows "fine (decode_un_topics al b d)"
proof (cases "count_topics 0 b")
  case (Some n)
  then obtain x where "read_un_topics n 0 b [] = Some x"
    using read_un_topics_fits [of b n 0 n "[]"] by auto
  then show ?thesis
    using Some assms by (cases x) (simp_all add: decode_un_topics_def mem_ok_def)
qed (simp add: decode_un_topics_def assms)

lemma fine_decode_ret_codes [safe]: "mem_ok al \<Longrightarrow> undangling d \<Longrightarrow> fine (decode_ret_codes al b d)"
  by (auto simp: decode_ret_codes_def mem_ok_def Let_def split: option.split)


lemma fine_decode_ack [safe]: "undangling d \<Longrightarrow> fine (decode_ack m d)"
  by (auto simp: decode_ack_def split: sum.split)

lemma fine_decode_unsuback [safe]: "undangling d \<Longrightarrow> fine (nni_mqtt_msg_decode_unsuback m d)"
  by (auto simp: nni_mqtt_msg_decode_unsuback_def split: sum.split)

lemma decode_props_typed:
  assumes "st" and "mem_ok al" and "msg_wf m"
  obtains list q n where "decode_properties st al m pos cp = Some (list, q, n)" and "typed list"
  using decode_buf_total [OF assms(1,2), of "nni_msg_len m" "nni_msg_body m" pos cp] assms(3)
  by (auto simp: typed_def decode_properties_def)

lemma fine_ack5_props [safe]:
  assumes "st" and "mem_ok al" and "msg_wf m" and "undangling d"
  shows "fine (ack5_props st al m pos d)"
proof -
  obtain list q n where l: "decode_properties st al m pos False = Some (list, q, n)" "typed list"
    by (rule decode_props_typed [OF assms(1-3)])
  obtain rc where "check_properties list (Some m) = Some rc"
    using check_properties_some [OF l(2)] by blast
  then show ?thesis
    using l(1) assms(4) by (simp add: ack5_props_def Let_def)
qed

lemma fine_decode_ack5 [safe]:
  "st \<Longrightarrow> mem_ok al \<Longrightarrow> msg_wf m \<Longrightarrow> undangling d \<Longrightarrow> fine (decode_ack5 st al m d)"
  using fine_ack5_props by (auto simp: decode_ack5_def Let_def split: sum.split)

text \<open>A decoder can be run on every message when nothing dangles and the arrays are empty.\<close>

definition safe_decoder :: "decoder \<Rightarrow> bool" where
  "safe_decoder dec \<longleftrightarrow>
     (\<forall>m d. msg_wf m \<longrightarrow> undangling d \<longrightarrow> topics d = [] \<longrightarrow> un_topics d = [] \<longrightarrow> fine (dec m d))"

lemma safe_decoderI:
  "(\<And>m d. msg_wf m \<Longrightarrow> undangling d \<Longrightarrow> topics d = [] \<Longrightarrow> un_topics d = [] \<Longrightarrow> fine (dec m d)) \<Longrightarrow>
   safe_decoder dec"
  by (simp add: safe_decoder_def)

lemma safe_v3:
  assumes "mem_ok al" and "(t, dec) \<in> set (codec_decoders al junk)"
  shows "safe_decoder dec"
proof -
  have "list_all (\<lambda>(t, dec). safe_decoder dec) (codec_decoders al junk)"
    unfolding codec_decoders_def list.pred_inject prod.case
    by (intro conjI TrueI safe_decoderI;
        simp add: nni_mqtt_msg_decode_connect_def nni_mqtt_msg_decode_connack_def
          nni_mqtt_msg_decode_publish_def nni_mqtt_msg_decode_puback_def nni_mqtt_msg_decode_pubrec_def
          nni_mqtt_msg_decode_pubrel_def nni_mqtt_msg_decode_pubcomp_def nni_mqtt_msg_decode_subscribe_def
          nni_mqtt_msg_decode_suback_def nni_mqtt_msg_decode_unsubscribe_def nni_mqtt_msg_decode_base_def
          read_packet_id_def Let_def safe assms(1))
  then show ?thesis
    using assms(2) by (auto simp: list_all_iff)
qed

lemma safe_v5:
  assumes "st" and "mem_ok al"
  shows "safe_decoder (nni_mqttv5_msg_decode_connect st al)" "safe_decoder (nni_mqttv5_msg_decode_connack st al)"
    "safe_decoder (nni_mqttv5_msg_decode_subscribe st al)" "safe_decoder (nni_mqttv5_msg_decode_suback st al)"
    "safe_decoder (nni_mqttv5_msg_decode_unsubscribe st al)" "safe_decoder (nni_mqttv5_msg_decode_unsuback st al)"
    "safe_decoder (nni_mqttv5_msg_decode_disconnect st al)" "safe_decoder (nni_mqttv5_msg_decode_auth st al)"
    "safe_decoder (nni_mqttv5_msg_decode_puback st al)" "safe_decoder (nni_mqttv5_msg_decode_pubrec st al)"
    "safe_decoder (nni_mqttv5_msg_decode_pubrel st al)" "safe_decoder (nni_mqttv5_msg_decode_pubcomp st al)"
    "safe_decoder nni_mqttv5_msg_decode_base"
  using assms
  by (intro safe_decoderI;
      simp add: nni_mqttv5_msg_decode_connect_def nni_mqttv5_msg_decode_connack_def
        nni_mqttv5_msg_decode_subscribe_def nni_mqttv5_msg_decode_suback_def
        nni_mqttv5_msg_decode_unsubscribe_def nni_mqttv5_msg_decode_unsuback_def
        nni_mqttv5_msg_decode_disconnect_def nni_mqttv5_msg_decode_auth_def
        nni_mqttv5_msg_decode_puback_def nni_mqttv5_msg_decode_pubrec_def
        nni_mqttv5_msg_decode_pubrel_def nni_mqttv5_msg_decode_pubcomp_def
        nni_mqttv5_msg_decode_base_def Let_def safe decoder_rules_some)+


definition fine3 :: "(int \<times> mqtt_nng_msg \<times> mqtt_msg) option \<Rightarrow> bool" where
  "fine3 r \<longleftrightarrow> (\<exists>rv m d. r = Some (rv, m, d) \<and> undangling d)"

lemma fine3_simps [simp]: "fine3 (Some (rv, m, d)) = undangling d" "fine3 (keeps dec m d) = fine (dec m d)"
  by (auto simp: fine3_def fine_def keeps_def)

lemma fine3_if: "(c \<Longrightarrow> fine3 x) \<Longrightarrow> (\<not> c \<Longrightarrow> fine3 y) \<Longrightarrow> fine3 (if c then x else y)"
  by simp

lemma undangling_payload: "undangling d \<Longrightarrow> undangling (snd (publish5_payload body pos1 pos d))"
  by (simp add: publish5_payload_def Let_def)

lemma fine3_publish5_props:
  assumes "st" and "mem_ok al" and "undangling d"
  shows "fine3 (publish5_props st al m pos d)"
proof -
  let ?body = "nni_msg_body m"
  let ?recv = "nni_msg_get_cmd_type m = CMD_PUBLISH_V5_RECV"
  obtain list q n where l: "decode_buf_properties st al ?body (length ?body) pos True = Some (list, q, n)"
      "typed list"
    using decode_buf_total [OF assms(1,2) order_refl, of ?body pos True] by (auto simp: typed_def)
  obtain rc rc' where "check_properties list (Some m) = Some rc" "check_downstream_pub_properties list = Some rc'"
    using check_properties_some [OF l(2)] check_downstream_some [OF l(2)] by blast
  moreover have "undangling (snd (publish5_payload ?body pos q (d\<lparr>vh_props := props_of list\<rparr>)))"
    using assms(3) by (intro undangling_payload) simp
  ultimately show ?thesis
    using l(1) assms(3) by (simp add: publish5_props_def Let_def split_beta)
qed

lemma safe_publish5:
  "st \<Longrightarrow> mem_ok al \<Longrightarrow> undangling d \<Longrightarrow> fine3 (nni_mqttv5_msg_decode_publish st al m d)"
  by (auto simp: nni_mqttv5_msg_decode_publish_def Let_def fine3_publish5_props split: sum.split)

text \<open>Releasing the content needs only that nothing dangles.\<close>

lemma property_free_live: "p \<noteq> P_freed \<Longrightarrow> \<exists>q. property_free p = Some q"
  by (cases p) (auto simp: property_free_def)

lemma content_free_some:
  assumes "undangling d"
  shows "mqtt_msg_content_free d \<noteq> None"
proof -
  obtain a b c e f g where "property_free (vh_props d) = Some a" "property_free (ca_props d) = Some b"
      "property_free (ack_props d) = Some c" "property_free (sub_props d) = Some e"
      "property_free (disc_props d) = Some f" "property_free (will_props d) = Some g"
    using assms property_free_live unfolding undangling_def by (metis insertCI)
  then show ?thesis
    by (simp add: mqtt_msg_content_free_def Let_def destory_connect_def destory_publish_def
        destory_subscribe_def destory_suback_def destory_unsubscribe_def destory_unsuback_def)
qed

definition no_content :: "mqtt_msg \<Rightarrow> bool" where
  "no_content d \<longleftrightarrow>
     {vh_props d, ca_props d, ack_props d, sub_props d, disc_props d, will_props d} = {P_null} \<and>
     topics d = [] \<and> un_topics d = []"

lemma no_contentD:
  assumes "no_content d"
  shows "undangling d" "topics d = []" "un_topics d = []"
  using assms by (auto simp: no_content_def undangling_def)

lemma content_free_empty:
  assumes "no_content d"
  shows "\<exists>e. mqtt_msg_content_free d = Some e \<and> no_content e \<and> is_decoded e = is_decoded d"
proof -
  have "vh_props d = P_null" "ca_props d = P_null" "ack_props d = P_null" "sub_props d = P_null"
      "disc_props d = P_null" "will_props d = P_null" "topics d = []" "un_topics d = []"
    using assms by (auto simp: no_content_def)
  then show ?thesis
    by (simp add: mqtt_msg_content_free_def property_free_def no_content_def Let_def destory_connect_def
        destory_publish_def destory_subscribe_def destory_suback_def destory_unsubscribe_def destory_unsuback_def)
qed


section \<open>Decoding and validation\<close>

lemma no_content_simps [simp]:
  "no_content (d\<lparr>fh_common := b\<rparr>) = no_content d" "no_content (d\<lparr>remaining_length := n\<rparr>) = no_content d"
  "no_content (d\<lparr>used_bytes := n\<rparr>) = no_content d" "no_content (d\<lparr>is_decoded := q\<rparr>) = no_content d"
  "no_content (started q d) = no_content d" "is_decoded (started q d) = is_decoded d"
  by (simp_all add: no_content_def started_def)

lemma decode_header_cases:
  assumes "m_proto_data m = Some d" and "no_content d" and "\<not> is_decoded d"
  obtains ret e where "nni_mqtt_msg_decode_fixed_header m = Some (ret, m\<lparr>m_proto_data := Some e\<rparr>)"
    and "no_content e" and "\<not> is_decoded e"
proof (cases "m_header_len m < 2")
  case True
  have "m\<lparr>m_proto_data := Some d\<rparr> = m" using assms(1) by simp
  then show ?thesis
    using that [of MQTT_ERR_PROTOCOL d] True assms by (simp add: nni_mqtt_msg_decode_fixed_header_def)
next
  case False
  then show ?thesis
    using that assms
    by (cases "mqtt_get_remaining_length (m_header_buf m) (m_header_len m)")
      (auto simp: nni_mqtt_msg_decode_fixed_header_def Let_def)
qed

text \<open>The outcome of decoding: a result, and content that can be released.\<close>

definition decoded :: "(int \<times> mqtt_nng_msg) option \<Rightarrow> bool" where
  "decoded r \<longleftrightarrow> (\<exists>rv m d. r = Some (rv, m) \<and> m_proto_data m = Some d \<and> undangling d)"

lemma decoded_Some [simp]:
  "decoded (Some (rv, m\<lparr>m_proto_data := Some d\<rparr>)) = undangling d"
  "m_proto_data m = Some d \<Longrightarrow> decoded (Some (rv, m)) = undangling d"
  by (simp_all add: decoded_def)

lemma decoded_fine:
  "fine r \<Longrightarrow> decoded (map_option (\<lambda>(rv, d). (rv, m\<lparr>m_proto_data := Some d\<rparr>)) r)"
  "fine3 r' \<Longrightarrow> decoded (map_option (\<lambda>(rv, m, d). (rv, m\<lparr>m_proto_data := Some d\<rparr>)) r')"
  by (auto simp: fine_def fine3_def)

lemma msg_wf_proto [simp]: "msg_wf (m\<lparr>m_proto_data := x\<rparr>) = msg_wf m"
  by (simp add: msg_wf_def)

lemma decode_v3_safe:
  assumes "mem_ok al" and "msg_wf m" and "m_proto_data m = Some d" and "no_content d" and "\<not> is_decoded d"
  shows "decoded (nni_mqtt_msg_decode al junk m)"
proof -
  obtain ret e where e: "nni_mqtt_msg_decode_fixed_header m = Some (ret, m\<lparr>m_proto_data := Some e\<rparr>)"
      "no_content e" "\<not> is_decoded e"
    by (rule decode_header_cases [OF assms(3-5)])
  obtain f where f: "mqtt_msg_content_free e = Some f" "no_content f" "\<not> is_decoded f"
    using content_free_empty [OF e(2)] e(3) by auto
  let ?m = "m\<lparr>m_proto_data := Some e\<rparr>" and ?f = "(started False f)\<lparr>is_decoded := True\<rparr>"
  have "fine (dec ?m ?f)" if "map_of (codec_decoders al junk) t = Some dec" for t dec
    using safe_v3 [OF assms(1) map_of_SomeD [OF that]] assms(2) no_contentD [of ?f] f(2)
    by (simp add: safe_decoder_def)
  then show ?thesis
    using e f no_contentD(1) [OF e(2)]
    by (auto simp: nni_mqtt_msg_decode_def Let_def intro: decoded_fine split: option.split)
qed

lemma decode_v5_safe:
  assumes "st" and "mem_ok al" and "msg_wf m" and "m_proto_data m = Some d" and "no_content d"
    and "\<not> is_decoded d"
  shows "decoded (nni_mqttv5_msg_decode st al m)"
proof -
  obtain ret e where e: "nni_mqtt_msg_decode_fixed_header m = Some (ret, m\<lparr>m_proto_data := Some e\<rparr>)"
      "no_content e" "\<not> is_decoded e"
    by (rule decode_header_cases [OF assms(4-6)])
  obtain f where f: "mqtt_msg_content_free (started False e) = Some f" "no_content f" "\<not> is_decoded f"
    using content_free_empty [of "started False e"] e(2,3) by auto
  let ?m = "m\<lparr>m_proto_data := Some e\<rparr>" and ?f = "f\<lparr>is_decoded := True\<rparr>"
  have s: "undangling ?f" "topics ?f = []" "un_topics ?f = []" "msg_wf ?m"
    using no_contentD [of ?f] f(2) assms(3) by simp_all
  have "list_all (\<lambda>(t, dec). fine3 (dec ?m ?f)) (codec_v5_decoders st al)"
    using safe_v5 [OF assms(1,2)] safe_publish5 [OF assms(1,2) s(1)] s
    by (simp add: codec_v5_decoders_def safe_decoder_def)
  then have "fine3 (dec ?m ?f)" if "map_of (codec_v5_decoders st al) t = Some dec" for t dec
    using map_of_SomeD [OF that] by (auto simp: list_all_iff)
  then show ?thesis
    using e f no_contentD(1) [OF e(2)]
    by (auto simp: nni_mqttv5_msg_decode_def Let_def intro: decoded_fine split: option.split)
qed

lemma validate_check_some:
  assumes "st" and "mem_ok al" and "msg_wf m" and "m_proto_data m = Some d" and "no_content d"
    and "\<not> is_decoded d"
  shows "validate_check st al junk m v \<noteq> None"
proof -
  have "decoded (if v = MQTT_PROTOCOL_VERSION_v5 then nni_mqttv5_msg_decode st al m
      else nni_mqtt_msg_decode al junk m)"
    using decode_v3_safe [OF assms(2-6)] decode_v5_safe [OF assms] by simp
  then obtain rv m' e where "(if v = MQTT_PROTOCOL_VERSION_v5 then nni_mqttv5_msg_decode st al m
      else nni_mqtt_msg_decode al junk m) = Some (rv, m')" "m_proto_data m' = Some e" "undangling e"
    unfolding decoded_def by blast
  then show ?thesis
    using content_free_some [of e] by (simp add: validate_check_def nni_mqtt_msg_free_def)
qed

text \<open>The check message before it is filled.\<close>

definition check_ready :: "mqtt_nng_msg \<Rightarrow> bool" where
  "check_ready m \<longleftrightarrow> msg_wf m \<and> (\<exists>d. m_proto_data m = Some d \<and> no_content d \<and> \<not> is_decoded d)"

lemma no_content_new: "no_content ((nni_proto_data_init zero_mqtt)\<lparr>initialized := False\<rparr>)"
    "\<not> is_decoded ((nni_proto_data_init zero_mqtt)\<lparr>initialized := False\<rparr>)"
  by (simp_all add: no_content_def nni_proto_data_init_def zero_mqtt_def)

lemma mqtt_msg_alloc_cases:
  assumes "st"
  obtains rv where "nni_mqtt_msg_alloc st st al ops sz = Some (rv, None)" and "rv \<noteq> 0"
  | m where "nni_mqtt_msg_alloc st st al ops sz = Some (0, Some m)" and "check_ready m"
      and "nni_msg_len m = sz" and "nni_msg_header m = []"
proof (cases "nni_msg_alloc st al sz :: (int \<times> mqtt_nng_msg option) option")
  case None
  then show ?thesis using nni_msg_alloc_returns by blast
next
  case (Some x)
  show ?thesis
  proof (cases "snd x")
    case None
    then have "nni_msg_alloc st al sz = Some (fst x, None :: mqtt_nng_msg option)"
      using Some by (cases x) simp
    moreover from this have "fst x \<noteq> 0"
      by (auto simp: nni_msg_alloc_eq Let_def split: if_splits)
    ultimately show ?thesis
      using that(1) by (simp add: nni_mqtt_msg_alloc_def)
  next
    case (Some m)
    then have a: "nni_msg_alloc st al sz = Some (fst x, Some m)"
      using \<open>nni_msg_alloc st al sz = Some x\<close> by (cases x) simp
    have "fst x = 0" using a by (auto simp: nni_msg_alloc_eq Let_def split: if_splits)
    then show ?thesis
      using that(2) a nni_msg_alloc_some [OF a] assms no_content_new
      by (simp add: nni_mqtt_msg_alloc_def nni_mqtt_msg_proto_data_alloc_def Let_def check_ready_def
          nni_msg_set_proto_data_def nni_msg_len_def nni_msg_header_def msg_wf_def)
  qed
qed

lemma fill_body_ok:
  assumes "check_ready m" and "length data = nni_msg_len m"
  shows "\<exists>m'. fill_body m data = Some m' \<and> check_ready m' \<and> nni_msg_body m' = data \<and>
    nni_msg_header m' = nni_msg_header m \<and> m_proto_data m' = m_proto_data m"
proof -
  have w: "chunk_wf (m_body m)" using assms(1) by (simp add: check_ready_def msg_wf_def)
  show ?thesis
  proof (cases "data = []")
    case True
    then show ?thesis
      using assms w by (simp add: fill_body_def nni_msg_len_def nni_msg_body_def chunk_data_empty)
  next
    case False
    then obtain p where "ch_ptr (m_body m) = Some p" "p + length data \<le> ch_cap (m_body m)"
      using w assms(2) by (auto simp: chunk_wf_def nni_msg_len_def split: option.splits)
    then show ?thesis
      using assms w False
      by (auto simp: fill_body_def check_ready_def msg_wf_def chunk_wf_def nni_msg_body_def chunk_data_def
          nni_msg_len_def nni_msg_header_def bslice_def ch_off_def memcpy_at_def)
  qed
qed

lemma header_append_ready:
  assumes "check_ready m" and "len \<le> length h"
  shows "check_ready (snd (nni_msg_header_append m h len))"
    "nni_msg_len (snd (nni_msg_header_append m h len)) = nni_msg_len m"
  using assms by (auto simp: nni_msg_header_append_def check_ready_def msg_wf_def nni_msg_len_def)

lemma check_ready_validates:
  "st \<Longrightarrow> mem_ok al \<Longrightarrow> check_ready m \<Longrightarrow> \<exists>rv. validate_check st al junk m v = Some rv"
  using validate_check_some [of st al m _ junk v] by (auto simp: check_ready_def)


definition some_ops :: "mqtt_msg proto_msg_ops" where
  "some_ops = \<lparr>has_msg_free = True, msg_dup = (\<lambda>x. (0, x))\<rparr>"

definition zero_topic :: mqtt_topic_qos where
  "zero_topic = \<lparr>tq_topic = buf0, tq_qos = 0, tq_nolocal = 0, tq_rap = 0, tq_retain_handling = 0\<rparr>"


text \<open>Validating a message is validating its bytes: \<^verbatim>\<open>nni_mqtt_msg_validate\<close> gives for every well-formed
  message what \<^verbatim>\<open>nni_mqtt_msg_packet_validate\<close> gives for its header followed by its body.\<close>

theorem msg_validate_is_packet_validate:
  assumes "msg_wf msg"
  shows "nni_mqtt_msg_validate st al junk ops msg version =
    nni_mqtt_msg_packet_validate st al junk ops (Some (nni_msg_header msg @ nni_msg_body msg))
      (nni_msg_header_len msg + nni_msg_len msg) (nni_msg_header_len msg) version"
proof -
  let ?h = "nni_msg_header msg" and ?b = "nni_msg_body msg"
  have l: "length ?h = nni_msg_header_len msg" "length ?b = nni_msg_len msg" using assms by simp_all
  have "nni_msg_header_append m (?h @ ?b) (length ?h) = nni_msg_header_append m ?h (length ?h)"
    for m :: mqtt_nng_msg
    by (simp add: nni_msg_header_append_def)
  moreover have "bslice (length ?h) (length ?b) (?h @ ?b) = ?b"
    by (simp add: bslice_def)
  moreover have "m_header_len msg = length ?h" using l(1) by (simp add: nni_msg_header_len_def)
  ultimately show ?thesis
    unfolding nni_mqtt_msg_validate_def nni_mqtt_msg_packet_validate_def l [symmetric]
    by (auto split: option.split)
qed

text \<open>A message without a body, for examples.\<close>

definition bare_msg :: "mqtt_msg option \<Rightarrow> bytes \<Rightarrow> mqtt_nng_msg" where
  "bare_msg p h = snd (nni_msg_header_append (zero_msg\<lparr>m_proto_data := p\<rparr>) h (length h))"

lemma holds_bare: "length h \<le> NNI_HEADER_SIZE \<Longrightarrow> holds (bare_msg p h) h [] \<and> m_proto_data (bare_msg p h) = p"
  by (simp add: bare_msg_def holds_def nni_msg_header_append_def msg_wf_def nni_msg_header_def nni_msg_body_def
      zero_msg_def memcpy_at_def)

theorem msg_validate_is_packet_validate_witness:
  "msg_wf (bare_msg None [0xC0, 0x00]) \<and>
   nni_mqtt_msg_validate True (\<lambda>_. True) (\<lambda>_. zero_topic) some_ops (bare_msg None [0xC0, 0x00]) 4 =
     nni_mqtt_msg_packet_validate True (\<lambda>_. True) (\<lambda>_. zero_topic) some_ops (Some [0xC0, 0x00]) 2 2 4"
proof -
  have h: "msg_wf (bare_msg None [0xC0, 0x00])" "nni_msg_header (bare_msg None [0xC0, 0x00]) = [0xC0, 0x00]"
      "nni_msg_body (bare_msg None [0xC0, 0x00]) = []"
    using holds_bare [of "[0xC0, 0x00]" None] by (simp_all add: holds_def)
  have "nni_msg_header_len (bare_msg None [0xC0, 0x00]) = 2" "nni_msg_len (bare_msg None [0xC0, 0x00]) = 0"
    using length_nni_msg_header [OF h(1)] length_nni_msg_body [OF h(1)] h(2,3) by simp_all
  then show ?thesis
    using msg_validate_is_packet_validate [OF h(1), of True "\<lambda>_. True" "\<lambda>_. zero_topic" some_ops 4] h by simp
qed

section \<open>Dangling properties\<close>

text \<open>The decoder of an MQTT 3.1.1 PUBLISH does not look at the properties.\<close>

lemma decode_publish_keeps:
  "\<exists>rv e. nni_mqtt_msg_decode_publish m d = Some (rv, e) \<and> vh_props e = vh_props d \<and> fh_common e = fh_common d"
  by (auto simp: nni_mqtt_msg_decode_publish_def rd_def read_packet_id_def Let_def publish_qos_def split: sum.split)

lemma content_free_publish:
  "packet_type d = NNG_MQTT_PUBLISH \<Longrightarrow> mqtt_msg_content_free d =
     map_option (\<lambda>p. (if is_copied d then destory_publish d else d)\<lparr>vh_props := p, is_copied := False\<rparr>)
       (property_free (vh_props d))"
  by (cases "property_free (vh_props d)")
    (simp_all add: mqtt_msg_content_free_def destory_publish_def Let_def)

text \<open>C35: \<^verbatim>\<open>nni_mqtt_msg_decode\<close> frees the old content without clearing the pointers to it. When a PUBLISH
  carries properties, decoding it as MQTT 3.1.1 returns, with success or an error, and leaves a
  pointer to the freed list: releasing the message afterwards frees the list a second time.\<close>

theorem v3_decode_leaves_dangling_properties:
  assumes "holds m (f # write_var_loop 0 n) b" and "n \<le> MQTT_MAX_MSG_LEN" and "m_proto_data m = Some d"
    and "drop_bit 4 f = NNG_MQTT_PUBLISH" and "vh_props d = P_list ps"
  shows "\<exists>rv m'. nni_mqtt_msg_decode al junk m = Some (rv, m') \<and> nni_mqtt_msg_free (m_proto_data m') = None"
proof -
  let ?e = "d\<lparr>fh_common := f, remaining_length := n, used_bytes := length (write_var_loop 0 n)\<rparr>"
  have h: "nni_mqtt_msg_decode_fixed_header m = Some (0, m\<lparr>m_proto_data := Some ?e\<rparr>)"
    by (rule decode_header_ok [OF assms(1-3)])
  have freed: "nni_mqtt_msg_free (Some x) = None" if "fh_common x = f" "vh_props x = P_freed" for x
    using that assms(4)
    by (simp add: nni_mqtt_msg_free_def content_free_publish packet_type_def property_free_def)
  obtain g where g: "mqtt_msg_content_free ?e = Some g" "vh_props g = P_freed" "fh_common g = f"
    using assms(4,5)
    by (simp add: content_free_publish packet_type_def property_free_def destory_publish_def)
  have t: "map_of (codec_decoders al junk) (packet_type ?e) = Some nni_mqtt_msg_decode_publish"
    using assms(4) by (simp add: codec_decoders_def packet_type_def)
  let ?m = "m\<lparr>m_proto_data := Some ?e\<rparr>" and ?g = "(started False g)\<lparr>is_decoded := True\<rparr>"
  have s: "vh_props (started False g) = P_freed" "fh_common (started False g) = f"
    using g(2,3) by (simp_all add: started_def)
  obtain rv x where x: "nni_mqtt_msg_decode_publish ?m ?g = Some (rv, x)" "vh_props x = P_freed" "fh_common x = f"
    using decode_publish_keeps [of ?m ?g] s by auto
  show ?thesis
    using h g(1) t x freed [of x] freed [of "started False g"] s
    by (simp add: nni_mqtt_msg_decode_def Let_def)
qed
theorem v3_decode_leaves_dangling_properties_witness:
  "holds (bare_msg (Some (zero_mqtt\<lparr>vh_props := P_list some_props\<rparr>)) [0x30, 0x00]) (0x30 # write_var_loop 0 0) [] \<and>
   (\<exists>rv m'. nni_mqtt_msg_decode (\<lambda>_. True) (\<lambda>_. zero_topic)
      (bare_msg (Some (zero_mqtt\<lparr>vh_props := P_list some_props\<rparr>)) [0x30, 0x00]) = Some (rv, m') \<and>
      nni_mqtt_msg_free (m_proto_data m') = None)"
proof -
  let ?p = "Some (zero_mqtt\<lparr>vh_props := P_list some_props\<rparr>)"
  have "write_var_loop 0 0 = [0]" by (simp add: write_var_0)
  then have "holds (bare_msg ?p [0x30, 0x00]) (0x30 # write_var_loop 0 0) []" "m_proto_data (bare_msg ?p [0x30, 0x00]) = ?p"
    using holds_bare [of "[0x30, 0x00]" ?p] by simp_all
  then show ?thesis
    using v3_decode_leaves_dangling_properties [where m = "bare_msg ?p [0x30, 0x00]" and f = "0x30" and n = 0
        and d = "zero_mqtt\<lparr>vh_props := P_list some_props\<rparr>" and ps = some_props and al = "\<lambda>_. True"
        and junk = "\<lambda>_. zero_topic"]
    by simp
qed

end
