(* ===== verification/MqttRound5.thy ===== *)
theory MqttRound5
  imports MqttValid
begin

text \<open>
  Decoding undoes encoding for MQTT 5: the bytes of property lists and of every packet, the contracts of
  the encoders and decoders as interpretations of \<open>packet_codec\<close>, and the table of the packets for which
  the round trip holds. The packets that the codec cannot read back are at the end.
\<close>

section \<open>Properties on the wire\<close>

fun props_list :: "props_ptr \<Rightarrow> property list" where
  "props_list (P_list ps) = ps"
| "props_list _ = []"

definition wire_props :: "u8 \<Rightarrow> props_ptr \<Rightarrow> property list" where
  "wire_props cmd p = sent_props cmd (props_list p)"

definition props_bytes :: "u8 \<Rightarrow> props_ptr \<Rightarrow> bytes" where
  "props_bytes cmd p = (let e = props_enc (wire_props cmd p) in write_var_loop 0 (length e) @ e)"

text \<open>A list that can be encoded.\<close>

definition sendable :: "u8 \<Rightarrow> props_ptr \<Rightarrow> bool" where
  "sendable cmd p \<longleftrightarrow> p \<noteq> P_freed \<and> list_all prop_ok (props_list p) \<and>
     length (props_enc (props_list p)) + 6 \<le> MQTT_MAX_MSG_LEN \<and>
     (cmd = CMD_PUBLISH \<longrightarrow> aliases (props_list p) \<le> 1)"

text \<open>What the decoder makes of it: copies, and a null pointer for an empty list.\<close>

definition wire_list :: "u8 \<Rightarrow> props_ptr \<Rightarrow> property list option" where
  "wire_list cmd p = (if wire_props cmd p = [] then None else Some (map (as_copy True) (wire_props cmd p)))"

definition got_props :: "u8 \<Rightarrow> props_ptr \<Rightarrow> props_ptr" where
  "got_props cmd p = props_of (wire_list cmd p)"

lemma encode_properties_null: "encode_properties al m None cmd = encode_properties al m (Some []) cmd"
  by (simp add: encode_properties_def get_properties_len_def property_get_value_def Let_def split: prod.split)

lemma sendable_list: "sendable cmd p \<Longrightarrow> encode_props al m p cmd = encode_properties al m (Some (props_list p)) cmd"
  by (cases p) (simp_all add: encode_props_def encode_properties_null sendable_def)

lemma holds_props:
  assumes "mem_ok al" and "sendable cmd p" and "holds m h b"
  obtains m' where "encode_props al m p cmd = Some (0, m')" and "holds m' h (b @ props_bytes cmd p)"
proof -
  have wf: "msg_wf m" using assms(3) by (simp add: holds_def)
  obtain m' where m': "encode_properties al m (Some (props_list p)) cmd = Some (0, m')"
      "grown m m' (write_var_loop 0 (length (props_enc (wire_props cmd p))) @ props_enc (wire_props cmd p))"
    using encode_properties_ok [OF assms(1) wf, of "props_list p" cmd] assms(2)
    by (auto simp: sendable_def list_all_iff wire_props_def)
  show ?thesis
    using that [of m'] m'(1) grown_fields [OF m'(2)] assms(3) sendable_list [OF assms(2)]
    by (simp add: holds_def props_bytes_def Let_def)
qed

lemma wire_props_ok: "sendable cmd p \<Longrightarrow> \<forall>q \<in> set (wire_props cmd p). prop_ok q"
  unfolding wire_props_def by (rule sent_props_ok) (simp add: sendable_def list_all_iff)

lemma wire_props_length:
  "sendable cmd p \<Longrightarrow> length (props_enc (wire_props cmd p)) \<le> MQTT_MAX_MSG_LEN"
  using length_props_filter [of "encoded cmd" "props_list p"]
  by (auto simp: sendable_def wire_props_def sent_props_def flag_prop_def prop_enc_def)

lemma decode_wire_props:
  assumes "st" and "mem_ok al" and "sendable cmd p" and "body = pre @ props_bytes cmd p @ post"
  shows "decode_buf_properties st al body (length body) (length pre) True =
    Some (wire_list cmd p, length pre + length (props_bytes cmd p), length (props_enc (wire_props cmd p)))"
  using decode_buf_properties_ok [OF assms(1,2), of "map (as_copy True) (wire_props cmd p)" True
      "length (props_enc (wire_props cmd p))" body pre post] wire_props_ok [OF assms(3)] wire_props_length [OF assms(3)] assms(4)
  by (simp add: props_bytes_def wire_list_def Let_def)

lemma rd_props_ok:
  assumes "st" and "mem_ok al" and "sendable cmd p" and "body = pre @ props_bytes cmd p @ post"
    and "b = props_bytes cmd p @ post"
  shows "rd_props st al body b d put k = k (wire_list cmd p) post (put (got_props cmd p) d)"
proof -
  have "length body - length b = length pre" using assms(4,5) by simp
  moreover have "length (props_enc (wire_props cmd p)) \<noteq> LEN_ERROR"
    using wire_props_length [OF assms(3)] by simp
  ultimately show ?thesis
    using decode_wire_props [OF assms(1-4)] assms(4)
    by (simp add: rd_props_def got_props_def Let_def)
qed

lemma props_bytes_null: "cmd \<noteq> CMD_CONNACK \<Longrightarrow> props_bytes cmd P_null = [0]"
  by (simp add: props_bytes_def wire_props_def sent_props_def write_var_0)

lemma finish_header_ok:
  assumes "mem_ok al" and "holds m h (bdy d)" and "length (bdy d) \<le> MQTT_MAX_MSG_LEN"
  obtains m' where "finish_header al m d = Some (0, m', sized bdy d)"
    and "holds m' (fh_common d # write_var_loop 0 (length (bdy d))) (bdy d)"
proof -
  have n: "wrap32 (nni_msg_len m) = length (bdy d)"
    using holds_len [OF assms(2)] assms(3) by simp
  obtain m' where "nni_mqtt_msg_encode_fixed_header al m (d\<lparr>remaining_length := length (bdy d)\<rparr>) =
      Some (0, m', sized bdy d)" "holds m' (fh_common d # write_var_loop 0 (length (bdy d))) (bdy d)"
    by (rule fixed_header_sized [where bdy = bdy and d = d, OF assms(1,2) refl assms(3)])
  then show ?thesis
    using that [of m'] by (simp add: finish_header_def n)
qed

lemma sized_props [simp]:
  "vh_props (sized bdy d) = vh_props d" "ca_props (sized bdy d) = ca_props d" "ack_props (sized bdy d) = ack_props d"
  "sub_props (sized bdy d) = sub_props d" "disc_props (sized bdy d) = disc_props d"
  "will_props (sized bdy d) = will_props d" "reason_code (sized bdy d) = reason_code d"
  "ack_code (sized bdy d) = ack_code d"
  by (simp_all add: sized_def)


section \<open>Checks on the wire\<close>

lemma and_F0: "(f :: u8) AND 0xF0 = push_bit 4 (drop_bit 4 f)"
proof -
  have m: "(0xF0 :: u8) = push_bit 4 (mask 4)" by (simp add: mask_eq_exp_minus_1)
  show ?thesis
    unfolding m by (rule bit_word_eqI) (auto simp: bit_and_iff bit_push_bit_iff bit_drop_bit_eq bit_mask_iff)
qed

lemma holds_type:
  assumes "holds m (f # v) b"
  shows "nni_msg_get_type m = f AND 0xF0"
proof -
  let ?b = "m_header_buf m"
  have wf: "length ?b = NNI_HEADER_SIZE" using assms by (simp add: holds_def msg_wf_def)
  have "?b ! 0 = f"
    using assms by (cases ?b; cases "m_header_len m") (auto simp: holds_def nni_msg_header_def)
  moreover have "NNI_PUT32 (NNI_GET32 ?b 0) @ drop 4 ?b = ?b"
    by (rule PUT32_front) (simp add: wf)
  ultimately have "hd (NNI_PUT32 (NNI_GET32 ?b 0)) = f"
    by (metis NNI_PUT32_def hd_append2 hd_conv_nth list.discI append_is_Nil_conv)
  then show ?thesis by (simp add: nni_msg_get_type_def NNI_PUT32_def)
qed

text \<open>
  The properties that the checks of a decoder let pass; they depend only on the packet type unless there
  is a topic alias.
\<close>

definition accepted :: "u8 \<Rightarrow> (property \<Rightarrow> nat option) \<Rightarrow> property list \<Rightarrow> bool" where
  "accepted t rule ps \<longleftrightarrow>
     check_loop (check_rule (Some (zero_msg :: mqtt_nng_msg)) t) [] ps = Some NNG_MQTT_SUCCESS \<and>
     each_prop rule ps = Some NNG_MQTT_SUCCESS \<and> list_all (\<lambda>p. p_id p \<noteq> TOPIC_ALIAS) ps"

lemma check_rule_other:
  "p_id p \<noteq> TOPIC_ALIAS \<Longrightarrow> check_rule (Some m) t (as_copy cp p) = check_rule (Some (zero_msg :: mqtt_nng_msg)) t p"
  by (simp add: check_rule_def)

lemma check_loop_map:
  "list_all (\<lambda>p. p_id (f p) = p_id p \<and> rule (f p) = rule' p) ps \<Longrightarrow>
   check_loop rule seen (map f ps) = check_loop rule' seen ps"
  by (induction ps arbitrary: seen) (simp_all add: Let_def split: option.split)

lemma each_prop_map:
  "list_all (\<lambda>p. rule (f p) = rule p) ps \<Longrightarrow> each_prop rule (map f ps) = each_prop rule ps"
  by (induction ps) (simp_all split: option.split)

lemma decoder_rules_copy:
  "connect_rule (as_copy cp p) = connect_rule p" "will_rule (as_copy cp p) = will_rule p"
  "connack_rule (as_copy cp p) = connack_rule p" "downstream_rule (as_copy cp p) = downstream_rule p"
  by (simp_all add: connect_rule_def will_rule_def connack_rule_def flag_rule_def downstream_rule_def)

lemma accepted_check:
  assumes "accepted t rule (wire_props cmd p)" and "nni_msg_get_type m = t" and "t \<noteq> 0"
  shows "check_properties (wire_list cmd p) (Some m) = Some NNG_MQTT_SUCCESS"
proof -
  have "check_loop (check_rule (Some m) t) [] (map (as_copy True) (wire_props cmd p)) =
      check_loop (check_rule (Some (zero_msg :: mqtt_nng_msg)) t) [] (wire_props cmd p)"
    using assms(1) by (intro check_loop_map) (auto simp: accepted_def list_all_iff check_rule_other)
  then show ?thesis
    using assms by (simp add: check_properties_def wire_list_def accepted_def Let_def)
qed

lemma checked_ok:
  assumes "accepted t rule (wire_props cmd p)" and "\<And>q. rule (as_copy True q) = rule q"
    and "nni_msg_get_type m = t" and "t \<noteq> 0"
  shows "checked m rule (wire_list cmd p) d k = k"
proof -
  have "each_prop rule (map (as_copy True) (wire_props cmd p)) = Some NNG_MQTT_SUCCESS"
    using assms(1) each_prop_map [of rule "as_copy True"] assms(2) by (simp add: accepted_def list_all_iff)
  then show ?thesis
    using accepted_check [OF assms(1,3,4)]
    by (cases "wire_props cmd p = []") (simp_all add: checked_def chk_def wire_list_def)
qed


text \<open>The start of most packets.\<close>

lemma u16_props:
  assumes "mem_ok al" and "msg_wf m" and "sendable cmd p"
  obtains m' where "encode_props al (nni_mqtt_msg_append_u16 al (nni_msg_clear m) w) p cmd = Some (0, m')"
    and "holds m' (nni_msg_header m) (NNI_PUT16 w @ props_bytes cmd p)"
proof -
  have h: "holds (nni_mqtt_msg_append_u16 al (nni_msg_clear m) w) (nni_msg_header m) ([] @ NNI_PUT16 w)"
    by (intro holds_u16 assms(1) holds_start [OF assms(2)])
  show ?thesis
    by (rule holds_props [OF assms(1,3) h]) (use that in simp)
qed

section \<open>Packets\<close>

subsection \<open>Subscriptions\<close>

definition subscribe5_body :: "mqtt_msg \<Rightarrow> bytes" where
  "subscribe5_body d = NNI_PUT16 (sub_packet_id d) @ props_bytes CMD_SUBSCRIBE (sub_props d) @
     topics_enc topic_options (topics d)"

text \<open>The options of a topic are in their ranges.\<close>

definition options_ok :: "mqtt_topic_qos \<Rightarrow> bool" where
  "options_ok t \<longleftrightarrow> tq_qos t < 4 \<and> tq_nolocal t < 2 \<and> tq_rap t < 2 \<and> tq_retain_handling t < 4"

definition subscribe5_ok :: "mqtt_msg \<Rightarrow> bool" where
  "subscribe5_ok d \<longleftrightarrow> topics_ok (topics d) \<and> list_all options_ok (topics d) \<and> sendable CMD_SUBSCRIBE (sub_props d)"

lemma word_of_unat: "unat (x :: u8) = n \<Longrightarrow> x = of_nat n"
  by auto

lemma word_less_cases:
  "(x :: u8) < 2 \<Longrightarrow> x = 0 \<or> x = 1" "(x :: u8) < 4 \<Longrightarrow> x = 0 \<or> x = 1 \<or> x = 2 \<or> x = 3"
proof -
  have "unat x < 2 \<Longrightarrow> unat x = 0 \<or> unat x = 1" "unat x < 4 \<Longrightarrow> unat x = 0 \<or> unat x = 1 \<or> unat x = 2 \<or> unat x = 3"
    by linarith+
  then show "x < 2 \<Longrightarrow> x = 0 \<or> x = 1" "x < 4 \<Longrightarrow> x = 0 \<or> x = 1 \<or> x = 2 \<or> x = 3"
    using word_of_unat [of x 0] word_of_unat [of x 1] word_of_unat [of x 2] word_of_unat [of x 3]
    by (simp_all add: word_less_nat_alt) blast+
qed

lemma topic_entry5_options: "options_ok t \<Longrightarrow> topic_entry5 i (tq_topic t) (topic_options t) = t"
  using word_less_cases(2) [of "tq_qos t"] word_less_cases(1) [of "tq_nolocal t"] word_less_cases(1) [of "tq_rap t"]
    word_less_cases(2) [of "tq_retain_handling t"]
  by (cases t) (auto simp: options_ok_def topic_entry5_def topic_options_def)

lemma numbered_options: "list_all options_ok ts \<Longrightarrow> numbered topic_entry5 topic_options ts = ts"
  by (auto simp: numbered_def list_all_iff topic_entry5_options intro!: nth_equalityI)

lemma holds_topics5:
  "mem_ok al \<Longrightarrow> topics_ok ts \<Longrightarrow> holds m h b \<Longrightarrow> holds (put_topics5 al m ts) h (b @ topics_enc topic_options ts)"
proof (induction ts arbitrary: m b)
  case (Cons t ts)
  have "holds (nni_mqtt_msg_append_u8 al (nni_mqtt_msg_append_byte_str al m (tq_topic t)) (topic_options t)) h
      ((b @ str_enc (tq_topic t)) @ [topic_options t])"
    using Cons.prems by (intro holds_u8 holds_str) simp_all
  then show ?case using Cons.IH Cons.prems(1,2) by fastforce
qed simp

lemma set_bit_1_props [simp]: "sub_props (set_bit_1 d) = sub_props d" "ack_props (set_bit_1 d) = ack_props d"
  by (simp_all add: set_bit_1_def)

interpretation subscribe5: packet_codec subscribe5_ok "\<lambda>_. set_bit_1" subscribe5_body
  "\<lambda>s g. g\<lparr>sub_packet_id := sub_packet_id s, sub_props := got_props CMD_SUBSCRIBE (sub_props s), topics := topics s\<rparr>"
  nni_mqttv5_msg_encode_subscribe "nni_mqttv5_msg_decode_subscribe True"
proof (rule packet_codecI, goal_cases)
  case (1 al m d)
  let ?d = "set_bit_1 d"
  have ok: "topics_ok (topics d)" "sendable CMD_SUBSCRIBE (sub_props d)" using 1(3) by (simp_all add: subscribe5_ok_def)
  obtain m1 where m1: "encode_props al (nni_mqtt_msg_append_u16 al (nni_msg_clear m) (sub_packet_id d))
      (sub_props d) CMD_SUBSCRIBE = Some (0, m1)"
      "holds m1 (nni_msg_header m) (NNI_PUT16 (sub_packet_id d) @ props_bytes CMD_SUBSCRIBE (sub_props d))"
    by (rule u16_props [OF 1(1,2) ok(2)])
  have "holds (put_topics5 al m1 (topics d)) (nni_msg_header m) (subscribe5_body ?d)"
    using holds_topics5 [OF 1(1) ok(1) m1(2)] by (simp add: subscribe5_body_def)
  then obtain m' where "finish_header al (put_topics5 al m1 (topics d)) ?d = Some (0, m', sized subscribe5_body ?d)"
      "holds m' (fh_common ?d # write_var_loop 0 (length (subscribe5_body ?d))) (subscribe5_body ?d)"
    by (rule finish_header_ok [where bdy = subscribe5_body and d = ?d, OF 1(1) _ 1(4)])
  then show ?case
    using m1(1) by (simp add: nni_mqttv5_msg_encode_subscribe_def)
next
  case (3 al d m g)
  have ok: "topics_ok (topics d)" "list_all options_ok (topics d)" "sendable CMD_SUBSCRIBE (sub_props d)"
    using 3(2) by (simp_all add: subscribe5_ok_def)
  let ?g = "g\<lparr>sub_packet_id := sub_packet_id d, sub_props := got_props CMD_SUBSCRIBE (sub_props d)\<rparr>"
  have b: "nni_msg_body m = NNI_PUT16 (sub_packet_id d) @ props_bytes CMD_SUBSCRIBE (sub_props d) @
      topics_enc topic_options (topics d)"
    using 3(4) by (simp add: subscribe5_body_def)
  have "decode_topics al topic_entry5 (topics_enc topic_options (topics d)) ?g = Some (0, ?g\<lparr>topics := topics d\<rparr>)"
    using decode_topics_ok [OF 3(1) ok(1), of ?g topic_entry5 topic_options] numbered_options [OF ok(2)] 3(5)
    by (simp add: received_def numbered_def)
  then show ?case
    using rd_props_ok [OF TrueI 3(1) ok(3) b refl]
    by (simp add: nni_mqttv5_msg_decode_subscribe_def b)
qed (simp add: subscribe5_body_def)


definition unsubscribe5_body :: "mqtt_msg \<Rightarrow> bytes" where
  "unsubscribe5_body d = NNI_PUT16 (sub_packet_id d) @ props_bytes CMD_UNSUBSCRIBE (sub_props d) @
     un_topics_enc (un_topics d)"

definition unsubscribe5_ok :: "mqtt_msg \<Rightarrow> bool" where
  "unsubscribe5_ok d \<longleftrightarrow> no_flags d \<and> list_all str_ok (un_topics d) \<and> sendable CMD_UNSUBSCRIBE (sub_props d)"

interpretation unsubscribe5: packet_codec unsubscribe5_ok "\<lambda>_. set_bit_1" unsubscribe5_body
  "\<lambda>s g. g\<lparr>sub_packet_id := sub_packet_id s, sub_props := got_props CMD_UNSUBSCRIBE (sub_props s),
     un_topics := un_topics s\<rparr>"
  nni_mqttv5_msg_encode_unsubscribe "nni_mqttv5_msg_decode_unsubscribe True"
proof (rule packet_codecI, goal_cases)
  case (1 al m d)
  let ?d = "set_bit_1 d"
  have ok: "list_all str_ok (un_topics d)" "sendable CMD_UNSUBSCRIBE (sub_props d)"
    using 1(3) by (simp_all add: unsubscribe5_ok_def)
  obtain m1 where m1: "encode_props al (nni_mqtt_msg_append_u16 al (nni_msg_clear m) (sub_packet_id d))
      (sub_props d) CMD_UNSUBSCRIBE = Some (0, m1)"
      "holds m1 (nni_msg_header m) (NNI_PUT16 (sub_packet_id d) @ props_bytes CMD_UNSUBSCRIBE (sub_props d))"
    by (rule u16_props [OF 1(1,2) ok(2)])
  have "holds (put_un_topics al m1 (un_topics d)) (nni_msg_header m) (unsubscribe5_body ?d)"
    using holds_un_topics [OF 1(1) ok(1) m1(2)] by (simp add: unsubscribe5_body_def)
  then obtain m' where "finish_header al (put_un_topics al m1 (un_topics d)) ?d = Some (0, m', sized unsubscribe5_body ?d)"
      "holds m' (fh_common ?d # write_var_loop 0 (length (unsubscribe5_body ?d))) (unsubscribe5_body ?d)"
    by (rule finish_header_ok [where bdy = unsubscribe5_body and d = ?d, OF 1(1) _ 1(4)])
  then show ?case
    using m1(1) by (simp add: nni_mqttv5_msg_encode_unsubscribe_def)
next
  case (3 al d m g)
  have ok: "no_flags d" "list_all str_ok (un_topics d)" "sendable CMD_UNSUBSCRIBE (sub_props d)"
    using 3(2) by (simp_all add: unsubscribe5_ok_def)
  let ?g = "g\<lparr>sub_packet_id := sub_packet_id d, sub_props := got_props CMD_UNSUBSCRIBE (sub_props d)\<rparr>"
  have b: "nni_msg_body m = NNI_PUT16 (sub_packet_id d) @ props_bytes CMD_UNSUBSCRIBE (sub_props d) @
      un_topics_enc (un_topics d)"
    using 3(4) by (simp add: unsubscribe5_body_def)
  have "decode_un_topics al (un_topics_enc (un_topics d)) ?g = Some (0, ?g\<lparr>un_topics := un_topics d\<rparr>)"
    using decode_un_topics_ok [OF 3(1) ok(2), of ?g] 3(5) by (simp add: received_def)
  then show ?case
    using rd_props_ok [OF TrueI 3(1) ok(3) b refl] flags_set [OF ok(1) 3(5)]
    by (simp add: nni_mqttv5_msg_decode_unsubscribe_def b)
qed (simp add: unsubscribe5_body_def)

definition unsuback5_body :: "mqtt_msg \<Rightarrow> bytes" where
  "unsuback5_body d = NNI_PUT16 (sub_packet_id d) @ props_bytes CMD_UNSUBACK (sub_props d) @ ret_codes d"

interpretation unsuback5: packet_codec "\<lambda>d. sendable CMD_UNSUBACK (sub_props d)" "\<lambda>_ d. d" unsuback5_body
  "\<lambda>s g. g\<lparr>sub_packet_id := sub_packet_id s, sub_props := got_props CMD_UNSUBACK (sub_props s), ret_codes := ret_codes s\<rparr>"
  nni_mqttv5_msg_encode_unsuback "nni_mqttv5_msg_decode_unsuback True"
proof (rule packet_codecI, goal_cases)
  case (1 al m d)
  obtain m1 where m1: "encode_props al (nni_mqtt_msg_append_u16 al (nni_msg_clear m) (sub_packet_id d))
      (sub_props d) CMD_UNSUBACK = Some (0, m1)"
      "holds m1 (nni_msg_header m) (NNI_PUT16 (sub_packet_id d) @ props_bytes CMD_UNSUBACK (sub_props d))"
    by (rule u16_props [OF 1(1-3)])
  have "holds (append_codes al m1 (ret_codes d)) (nni_msg_header m) (unsuback5_body d)"
    using holds_put [OF 1(1) m1(2), of "ret_codes d"]
    by (simp add: unsuback5_body_def append_codes_def msg_put_def)
  then obtain m' where "finish_header al (append_codes al m1 (ret_codes d)) d = Some (0, m', sized unsuback5_body d)"
      "holds m' (fh_common d # write_var_loop 0 (length (unsuback5_body d))) (unsuback5_body d)"
    by (rule finish_header_ok [where bdy = unsuback5_body and d = d, OF 1(1) _ 1(4)])
  then show ?case
    using m1(1) by (simp add: nni_mqttv5_msg_encode_unsuback_def)
next
  case (3 al d m g)
  let ?g = "g\<lparr>sub_packet_id := sub_packet_id d, sub_props := got_props CMD_UNSUBACK (sub_props d)\<rparr>"
  have b: "nni_msg_body m = NNI_PUT16 (sub_packet_id d) @ props_bytes CMD_UNSUBACK (sub_props d) @ ret_codes d"
    using 3(4) by (simp add: unsuback5_body_def)
  have "decode_ret_codes al (ret_codes d) ?g = Some (0, ?g\<lparr>ret_codes := ret_codes d\<rparr>)"
    by (rule decode_ret_codes_ok [OF 3(1)]) (use 3(3) in \<open>simp add: unsuback5_body_def\<close>)
  then show ?case
    using rd_props_ok [OF TrueI 3(1,2) b refl] by (simp add: nni_mqttv5_msg_decode_unsuback_def b)
qed (simp add: unsuback5_body_def)

subsection \<open>DISCONNECT and AUTH\<close>

definition reason_body :: "u8 \<Rightarrow> mqtt_msg \<Rightarrow> bytes" where
  "reason_body cmd d = [reason_code d] @ props_bytes cmd (disc_props d)"

abbreviation reason_got :: "u8 \<Rightarrow> mqtt_msg \<Rightarrow> mqtt_msg \<Rightarrow> mqtt_msg" where
  "reason_got cmd s g \<equiv> g\<lparr>reason_code := reason_code s, disc_props := got_props cmd (disc_props s)\<rparr>"

lemma encode_reason_ok:
  assumes "mem_ok al" and "msg_wf m" and "sendable cmd (disc_props d)"
    and "length (reason_body cmd d) \<le> MQTT_MAX_MSG_LEN"
  shows "\<exists>m1 m'. encode_props al (nni_mqtt_msg_append_u8 al (nni_msg_clear m) (reason_code d)) (disc_props d) cmd =
      Some (0, m1) \<and> finish_header al m1 d = Some (0, m', sized (reason_body cmd) d) \<and>
    holds m' (fh_common d # write_var_loop 0 (length (reason_body cmd d))) (reason_body cmd d)"
proof -
  have h: "holds (nni_mqtt_msg_append_u8 al (nni_msg_clear m) (reason_code d)) (nni_msg_header m) ([] @ [reason_code d])"
    by (intro holds_u8 assms(1) holds_start [OF assms(2)])
  obtain m1 where m1: "encode_props al (nni_mqtt_msg_append_u8 al (nni_msg_clear m) (reason_code d)) (disc_props d) cmd =
      Some (0, m1)" "holds m1 (nni_msg_header m) (([] @ [reason_code d]) @ props_bytes cmd (disc_props d))"
    by (rule holds_props [OF assms(1,3) h])
  then have "holds m1 (nni_msg_header m) (reason_body cmd d)" by (simp add: reason_body_def)
  then obtain m' where "finish_header al m1 d = Some (0, m', sized (reason_body cmd) d)"
      "holds m' (fh_common d # write_var_loop 0 (length (reason_body cmd d))) (reason_body cmd d)"
    by (rule finish_header_ok [where bdy = "reason_body cmd" and d = d, OF assms(1) _ assms(4)])
  then show ?thesis using m1(1) by blast
qed

lemma decode_reason_ok:
  assumes "mem_ok al" and "sendable cmd (disc_props d)" and "nni_msg_body m = reason_body cmd d"
  shows "rd (read_byte (nni_msg_body m)) g (\<lambda>code b. rd_props True al (nni_msg_body m) b (g\<lparr>reason_code := code\<rparr>)
      (\<lambda>p d. d\<lparr>disc_props := p\<rparr>) (\<lambda>list b d. Some (MQTT_SUCCESS, d))) = Some (0, reason_got cmd d g)"
proof -
  have b: "nni_msg_body m = [reason_code d] @ props_bytes cmd (disc_props d) @ []"
    using assms(3) by (simp add: reason_body_def)
  show ?thesis
    using rd_props_ok [OF TrueI assms(1,2) b refl] by (simp add: b)
qed

definition disconnect5_ok :: "mqtt_msg \<Rightarrow> bool" where
  "disconnect5_ok d \<longleftrightarrow> (reason_code d \<noteq> 0 \<or> disc_props d \<noteq> P_null) \<and> sendable CMD_DISCONNECT (disc_props d)"

interpretation disconnect5: packet_codec disconnect5_ok "\<lambda>_ d. d"
  "reason_body CMD_DISCONNECT" "reason_got CMD_DISCONNECT" nni_mqttv5_msg_encode_disconnect
  "nni_mqttv5_msg_decode_disconnect True"
proof (rule packet_codecI, goal_cases)
  case (1 al m d)
  then show ?case
    using encode_reason_ok [of al m CMD_DISCONNECT d] by (auto simp: nni_mqttv5_msg_encode_disconnect_def disconnect5_ok_def Let_def)
next
  case (3 al d m g)
  then show ?case
    using decode_reason_ok [of al CMD_DISCONNECT d m g] by (simp add: nni_mqttv5_msg_decode_disconnect_def disconnect5_ok_def)
qed (simp add: reason_body_def)

interpretation auth5: packet_codec
  "\<lambda>d. disc_props d \<noteq> P_null \<and> sendable CMD_AUTH_V5 (disc_props d)" "\<lambda>_ d. d"
  "reason_body CMD_AUTH_V5" "reason_got CMD_AUTH_V5" nni_mqttv5_msg_encode_auth "nni_mqttv5_msg_decode_auth True"
proof (rule packet_codecI, goal_cases)
  case (1 al m d)
  then show ?case
    using encode_reason_ok [of al m CMD_AUTH_V5 d] by (auto simp: nni_mqttv5_msg_encode_auth_def Let_def)
next
  case (3 al d m g)
  then show ?case
    using decode_reason_ok [of al CMD_AUTH_V5 d m g] by (simp add: nni_mqttv5_msg_decode_auth_def)
qed (simp add: reason_body_def)

subsection \<open>CONNACK\<close>

definition connack5_body :: "mqtt_msg \<Rightarrow> bytes" where
  "connack5_body d = [ca_flags d, conn_return_code d] @ props_bytes CMD_CONNACK (ca_props d)"

definition connack5_ok :: "mqtt_msg \<Rightarrow> bool" where
  "connack5_ok d \<longleftrightarrow> packet_type d = NNG_MQTT_CONNACK \<and> sendable CMD_CONNACK (ca_props d) \<and>
     accepted CMD_CONNACK connack_rule (wire_props CMD_CONNACK (ca_props d))"

lemma type_byte:
  assumes "holds m (fh_common d # v) b"
  shows "nni_msg_get_type m = push_bit 4 (packet_type d)"
  using holds_type [OF assms] by (simp add: and_F0 packet_type_def)

interpretation connack5: packet_codec connack5_ok "\<lambda>_ d. d" connack5_body
  "\<lambda>s g. g\<lparr>ca_flags := ca_flags s, conn_return_code := conn_return_code s, ca_props := got_props CMD_CONNACK (ca_props s)\<rparr>"
  nni_mqttv5_msg_encode_connack "nni_mqttv5_msg_decode_connack True"
proof (unfold_locales, goal_cases)
  case (1 al m d)
  let ?m1 = "nni_mqtt_msg_append_u8 al (nni_mqtt_msg_append_u8 al (nni_msg_clear m) (ca_flags d)) (conn_return_code d)"
  have ok: "sendable CMD_CONNACK (ca_props d)" using 1(3) by (simp add: connack5_ok_def)
  have h: "holds ?m1 (nni_msg_header m) (([] @ [ca_flags d]) @ [conn_return_code d])"
    by (intro holds_u8 1(1) holds_start [OF 1(2)])
  obtain m2 where m2: "encode_props al ?m1 (ca_props d) CMD_CONNACK = Some (0, m2)"
      "holds m2 (nni_msg_header m) ((([] @ [ca_flags d]) @ [conn_return_code d]) @ props_bytes CMD_CONNACK (ca_props d))"
    by (rule holds_props [OF 1(1) ok h])
  then have b: "holds m2 (nni_msg_header m) (connack5_body d)" by (simp add: connack5_body_def)
  then obtain m' where m': "finish_header al m2 d = Some (0, m', sized connack5_body d)"
      "holds m' (fh_common d # write_var_loop 0 (length (connack5_body d))) (connack5_body d)"
    by (rule finish_header_ok [where bdy = connack5_body and d = d, OF 1(1) _ 1(4)])
  have "wrap32 (nni_msg_len m2) = length (connack5_body d)"
    using holds_len [OF b] 1(4) by simp
  moreover have "finish_header al m2 (d\<lparr>remaining_length := n\<rparr>) = finish_header al m2 d" for n
    by (simp add: finish_header_def)
  ultimately show ?case
    using m2(1) m' 1(4) by (simp add: nni_mqttv5_msg_encode_connack_def Let_def)
next
  case (3 al d m g)
  have ok: "packet_type d = NNG_MQTT_CONNACK" "sendable CMD_CONNACK (ca_props d)"
      "accepted CMD_CONNACK connack_rule (wire_props CMD_CONNACK (ca_props d))"
    using 3(2) by (simp_all add: connack5_ok_def)
  have b: "nni_msg_body m = [ca_flags d, conn_return_code d] @ props_bytes CMD_CONNACK (ca_props d) @ []"
    using 3(4) by (simp add: holds_def connack5_body_def)
  have "nni_msg_get_type m = CMD_CONNACK" using type_byte [OF 3(4)] ok(1) by simp
  then show ?case
    using rd_props_ok [OF TrueI 3(1) ok(2) b refl] checked_ok [OF ok(3) decoder_rules_copy(3)]
    by (simp add: nni_mqttv5_msg_decode_connack_def b Let_def)
qed (simp add: connack5_body_def)

subsection \<open>Acknowledgements without properties\<close>

definition ack5_body :: "mqtt_msg \<Rightarrow> bytes" where
  "ack5_body d = NNI_PUT16 (ack_packet_id d) @ [0]"

abbreviation ack5_got :: "mqtt_msg \<Rightarrow> mqtt_msg \<Rightarrow> mqtt_msg" where
  "ack5_got s g \<equiv> g\<lparr>ack_packet_id := ack_packet_id s, ack_code := 0, ack_props := P_null\<rparr>"

lemma ack5_body_simps [simp]:
  "length (ack5_body d) = 3" "ack5_body (sized bdy d) = ack5_body d" "ack5_body (set_bit_1 d) = ack5_body d"
  "ack5_body (d\<lparr>remaining_length := n\<rparr>) = ack5_body d" "ack5_body (d\<lparr>used_bytes := n\<rparr>) = ack5_body d"
  by (simp_all add: ack5_body_def)

lemma sendable_null: "sendable cmd P_null"
  by (simp add: sendable_def aliases_def)

lemma decode_ack5_ok:
  assumes "nni_msg_body m = ack5_body d"
  shows "decode_ack5 True al m g = Some (0, ack5_got d g)"
  using u16_codec.dec_enc [of "ack_packet_id d" "[0]"] assms
  by (simp add: decode_ack5_def ack5_body_def)

lemma encode_ack5_ok:
  assumes "mem_ok al" and "holds m h []" and "ack_props d = P_null" and "cmd \<noteq> CMD_CONNACK"
  shows "\<exists>m1 m'. encode_props al (nni_mqtt_msg_append_u16 al m (ack_packet_id d)) (ack_props d) cmd = Some (0, m1) \<and>
    finish_header al m1 d = Some (0, m', sized ack5_body d) \<and>
    holds m' (fh_common d # write_var_loop 0 (length (ack5_body d))) (ack5_body d)"
proof -
  have h: "holds (nni_mqtt_msg_append_u16 al m (ack_packet_id d)) h ([] @ NNI_PUT16 (ack_packet_id d))"
    by (intro holds_u16 assms(1,2))
  obtain m1 where m1: "encode_props al (nni_mqtt_msg_append_u16 al m (ack_packet_id d)) P_null cmd = Some (0, m1)"
      "holds m1 h (([] @ NNI_PUT16 (ack_packet_id d)) @ props_bytes cmd P_null)"
    by (rule holds_props [OF assms(1) sendable_null h])
  then have "holds m1 h (ack5_body d)" by (simp add: ack5_body_def props_bytes_null assms(4))
  then obtain m' where "finish_header al m1 d = Some (0, m', sized ack5_body d)"
      "holds m' (fh_common d # write_var_loop 0 (length (ack5_body d))) (ack5_body d)"
    by (rule finish_header_ok [where bdy = ack5_body and d = d, OF assms(1)]) simp
  then show ?thesis using m1(1) assms(3) by simp
qed

interpretation puback5: packet_codec "\<lambda>d. ack_props d = P_null" "\<lambda>_ d. d" ack5_body ack5_got
  nni_mqttv5_msg_encode_puback "nni_mqttv5_msg_decode_puback True"
proof (rule packet_codecI, goal_cases)
  case (1 al m d)
  then show ?case
    using encode_ack5_ok [OF 1(1) holds_start [OF 1(2)] 1(3), of CMD_PUBACK]
    by (auto simp: nni_mqttv5_msg_encode_puback_def)
qed (simp_all add: nni_mqttv5_msg_decode_puback_def decode_ack5_ok)

text \<open>The first of the two fixed headers leaves no trace.\<close>

lemma encode_ack5_twice:
  assumes "mem_ok al" and "msg_wf m" and "ack_props d = P_null" and "cmd \<noteq> CMD_CONNACK"
  shows "\<exists>m0 e m1 m'. nni_mqtt_msg_encode_fixed_header al (nni_msg_clear m) (d\<lparr>remaining_length := 2\<rparr>) = Some (0, m0, e) \<and>
    encode_props al (nni_mqtt_msg_append_u16 al m0 (ack_packet_id e)) (ack_props e) cmd = Some (0, m1) \<and>
    finish_header al m1 e = Some (0, m', sized ack5_body d) \<and>
    holds m' (fh_common d # write_var_loop 0 (length (ack5_body d))) (ack5_body d)"
proof -
  let ?e = "d\<lparr>remaining_length := 2, used_bytes := length (write_var_loop 0 2)\<rparr>"
  obtain m0 where m0: "nni_mqtt_msg_encode_fixed_header al (nni_msg_clear m) (d\<lparr>remaining_length := 2\<rparr>) = Some (0, m0, ?e)"
      "holds m0 (fh_common d # write_var_loop 0 2) []"
    using fixed_header_ok [OF assms(1) holds_start [OF assms(2)], of "d\<lparr>remaining_length := 2\<rparr>"] by auto
  have "sized ack5_body ?e = sized ack5_body d" by (simp add: sized_def)
  then show ?thesis
    using m0(1) encode_ack5_ok [OF assms(1) m0(2), of ?e cmd] assms(3,4) by auto
qed

interpretation pubrec5: packet_codec "\<lambda>d. ack_props d = P_null" "\<lambda>_ d. d" ack5_body ack5_got
  nni_mqttv5_msg_encode_pubrec "nni_mqttv5_msg_decode_pubrec True"
proof (rule packet_codecI, goal_cases)
  case (1 al m d)
  then show ?case
    using encode_ack5_twice [OF 1(1-3), of CMD_PUBREC] by (auto simp: nni_mqttv5_msg_encode_pubrec_def)
qed (simp_all add: nni_mqttv5_msg_decode_pubrec_def decode_ack5_ok)

interpretation pubrel5: packet_codec "\<lambda>d. ack_props d = P_null" "\<lambda>_. set_bit_1" ack5_body ack5_got
  nni_mqttv5_msg_encode_pubrel "nni_mqttv5_msg_decode_pubrel True"
proof (rule packet_codecI, goal_cases)
  case (1 al m d)
  then show ?case
    using encode_ack5_twice [OF 1(1,2), of "set_bit_1 d" CMD_PUBREL] by (auto simp: nni_mqttv5_msg_encode_pubrel_def)
qed (simp_all add: nni_mqttv5_msg_decode_pubrel_def decode_ack5_ok)

subsection \<open>PUBLISH\<close>

definition publish5_body :: "mqtt_msg \<Rightarrow> bytes" where
  "publish5_body d = str_enc (vh_name d) @ (if publish_qos d > 0 then NNI_PUT16 (vh_u16 d) else []) @
     props_bytes CMD_PUBLISH (vh_props d) @ str_bytes (pub_payload d)"

text \<open>The properties pass the check for received packets and the one of a bridge.\<close>

definition publish5_ok :: "mqtt_msg \<Rightarrow> bool" where
  "publish5_ok d \<longleftrightarrow> packet_type d = NNG_MQTT_PUBLISH \<and> str_ok (vh_name d) \<and> pay_ok (pub_payload d) \<and>
     sendable CMD_PUBLISH (vh_props d) \<and>
     accepted CMD_PUBLISH (\<lambda>_. Some NNG_MQTT_SUCCESS) (wire_props CMD_PUBLISH (vh_props d)) \<and>
     check_loop downstream_rule [] (wire_props CMD_PUBLISH (vh_props d)) = Some NNG_MQTT_SUCCESS"

definition publish5_got :: "mqtt_msg \<Rightarrow> mqtt_msg \<Rightarrow> mqtt_msg" where
  "publish5_got s g = (publish_got s g)\<lparr>vh_props := got_props CMD_PUBLISH (vh_props s)\<rparr>"

text \<open>A decoder that may change the message, as one that gives only the data.\<close>

definition plain_dec :: "encoder \<Rightarrow> decoder" where
  "plain_dec dec m d = map_option (\<lambda>(rv, m, d). (rv, d)) (dec m d)"

lemma downstream_wire:
  "check_loop downstream_rule [] (wire_props cmd p) = Some NNG_MQTT_SUCCESS \<Longrightarrow>
   check_downstream_pub_properties (wire_list cmd p) = Some NNG_MQTT_SUCCESS"
  using check_loop_map [of "as_copy True" downstream_rule downstream_rule "wire_props cmd p" "[]"]
  by (simp add: check_downstream_pub_properties_def wire_list_def decoder_rules_copy list_all_iff)

lemma publish5_payload_ok:
  assumes "str_ok (vh_name d)" and "pay_ok (pub_payload d)" and "length (publish5_body d) \<le> MQTT_MAX_MSG_LEN"
    and "pos1 = 2 + blen (vh_name d) + (if publish_qos d > 0 then 2 else 0)"
    and "pos = pos1 + length (props_bytes CMD_PUBLISH (vh_props d))"
    and "vh_name g = vh_name d" and "publish_qos g = publish_qos d" and "remaining_length g = length (publish5_body d)"
  shows "publish5_payload (publish5_body d) pos1 pos g = (0, g\<lparr>pub_payload := pub_payload d\<rparr>)"
proof -
  have l: "length (publish5_body d) = pos + blen (pub_payload d)"
    using assms(1,2,4,5) by (simp add: publish5_body_def pay_bytes)
  have "drop pos (publish5_body d) = str_bytes (pub_payload d)"
    using assms(1,2,4,5) by (simp add: publish5_body_def)
  moreover have "wrap32 (2 + (pos - pos1) + blen (vh_name g) + (if publish_qos g > 0 then 2 else 0)) = pos"
    using assms(3-7) l by simp
  ultimately show ?thesis
    using l assms(8) payload_at_self [OF assms(2)] by (simp add: publish5_payload_def Let_def)
qed

lemma publish5_props_ok:
  assumes "mem_ok al" and "publish5_ok d" and "length (publish5_body d) \<le> MQTT_MAX_MSG_LEN"
    and "nni_msg_body m = publish5_body d" and "nni_msg_get_type m = CMD_PUBLISH"
    and "pos1 = 2 + blen (vh_name d) + (if publish_qos d > 0 then 2 else 0)"
    and "vh_name g = vh_name d" and "publish_qos g = publish_qos d" and "remaining_length g = length (publish5_body d)"
  shows "plain_dec (\<lambda>m. publish5_props True al m pos1) m g =
    Some (0, g\<lparr>vh_props := got_props CMD_PUBLISH (vh_props d), pub_payload := pub_payload d\<rparr>)"
proof -
  let ?p = "vh_props d"
  let ?pre = "str_enc (vh_name d) @ (if publish_qos d > 0 then NNI_PUT16 (vh_u16 d) else [])"
  have ok: "str_ok (vh_name d)" "pay_ok (pub_payload d)" "sendable CMD_PUBLISH ?p"
      "accepted CMD_PUBLISH (\<lambda>_. Some NNG_MQTT_SUCCESS) (wire_props CMD_PUBLISH ?p)"
      "check_loop downstream_rule [] (wire_props CMD_PUBLISH ?p) = Some NNG_MQTT_SUCCESS"
    using assms(2) by (simp_all add: publish5_ok_def)
  have pre: "length ?pre = pos1" using ok(1) assms(6) by simp
  have b: "publish5_body d = ?pre @ props_bytes CMD_PUBLISH ?p @ str_bytes (pub_payload d)"
    by (simp add: publish5_body_def)
  note dec = decode_wire_props [OF TrueI assms(1) ok(3) b, unfolded pre]
  have n: "length (props_enc (wire_props CMD_PUBLISH ?p)) \<noteq> LEN_ERROR"
    using wire_props_length [OF ok(3)] by simp
  have pay: "publish5_payload (publish5_body d) pos1 (pos1 + length (props_bytes CMD_PUBLISH ?p))
      (g\<lparr>vh_props := got_props CMD_PUBLISH ?p\<rparr>) =
      (0, g\<lparr>vh_props := got_props CMD_PUBLISH ?p, pub_payload := pub_payload d\<rparr>)"
    by (rule publish5_payload_ok [OF ok(1,2) assms(3,6) refl]) (use assms(7-9) in \<open>simp_all add: publish_qos_def\<close>)
  show ?thesis
    using dec n pay accepted_check [OF ok(4) assms(5)] downstream_wire [OF ok(5)]
    by (simp add: plain_dec_def publish5_props_def assms(4) got_props_def Let_def)
qed

interpretation publish5: packet_codec publish5_ok "\<lambda>_ d. d" publish5_body publish5_got
  nni_mqttv5_msg_encode_publish "\<lambda>al. plain_dec (nni_mqttv5_msg_decode_publish True al)"
proof (unfold_locales, goal_cases)
  case (1 al m d)
  let ?c = "nni_msg_header_clear (nni_msg_clear m)"
  let ?m1 = "nni_mqtt_msg_append_byte_str al ?c (vh_name d)"
  let ?m2 = "if publish_qos d > 0 then nni_mqtt_msg_append_u16 al ?m1 (vh_u16 d) else ?m1"
  have ok: "str_ok (vh_name d)" "pay_ok (pub_payload d)" "sendable CMD_PUBLISH (vh_props d)"
    using 1(3) by (simp_all add: publish5_ok_def)
  have h: "holds ?m1 [] ([] @ str_enc (vh_name d))"
    by (intro holds_str 1(1) ok(1) holds_header_clear [OF holds_start [OF 1(2)]])
  then have "holds ?m2 [] (str_enc (vh_name d) @ (if publish_qos d > 0 then NNI_PUT16 (vh_u16 d) else []))"
    using holds_u16 [OF 1(1) h, of "vh_u16 d"] by simp
  then obtain m3 where m3: "encode_props al ?m2 (vh_props d) CMD_PUBLISH = Some (0, m3)"
      "holds m3 [] ((str_enc (vh_name d) @ (if publish_qos d > 0 then NNI_PUT16 (vh_u16 d) else [])) @
        props_bytes CMD_PUBLISH (vh_props d))"
    by (rule holds_props [OF 1(1) ok(3)])
  obtain m4 where m4: "(if blen (pub_payload d) > 0
        then nni_msg_append al m3 (bbuf (pub_payload d)) (blen (pub_payload d)) else (0, m3)) = (0, m4)"
      "holds m4 [] (publish5_body d)"
    by (rule append_payload [OF 1(1) m3(2) ok(2)]) (simp add: publish5_body_def)
  have n: "wrap32 (nni_msg_len m4) = length (publish5_body d)"
    using holds_len [OF m4(2)] 1(4) by simp
  obtain m' where "nni_mqtt_msg_encode_fixed_header al m4 (d\<lparr>remaining_length := length (publish5_body d)\<rparr>) =
      Some (0, m', sized publish5_body d)"
      "holds m' (fh_common d # write_var_loop 0 (length (publish5_body d))) (publish5_body d)"
    by (rule fixed_header_sized [where bdy = publish5_body and d = d, OF 1(1) m4(2) refl 1(4)])
  then show ?case
    using n by (simp only: nni_mqttv5_msg_encode_publish_def Let_def m3(1) option.case prod.case m4(1)) simp
next
  case (3 al d m g)
  have ok: "packet_type d = NNG_MQTT_PUBLISH" "str_ok (vh_name d)" using 3(2) by (simp_all add: publish5_ok_def)
  have t: "nni_msg_get_type m = CMD_PUBLISH" using type_byte [OF 3(4)] ok(1) by simp
  have b: "nni_msg_body m = publish5_body d" using 3(4) by (simp add: holds_def)
  have g: "publish_qos g = publish_qos d" "remaining_length g = length (publish5_body d)"
    using 3(5) by (simp_all add: received_def publish_qos_def)
  let ?g = "if publish_qos d > 0 then g\<lparr>vh_name := vh_name d, vh_u16 := vh_u16 d\<rparr> else g\<lparr>vh_name := vh_name d\<rparr>"
  have four: "Suc (Suc (Suc (Suc n))) = 4 + n" for n by simp
  have "plain_dec (nni_mqttv5_msg_decode_publish True al) m g =
      plain_dec (\<lambda>m. publish5_props True al m (2 + blen (vh_name d) + (if publish_qos d > 0 then 2 else 0))) m ?g"
    using b g(1) str_codec.dec_enc [OF ok(2)] u16_codec.dec_enc [of "vh_u16 d"] ok(2)
    by (simp add: plain_dec_def nni_mqttv5_msg_decode_publish_def publish5_body_def Let_def four)
  then show ?case
    using publish5_props_ok [OF 3(1-3) b t refl, of ?g] g
    by (simp add: publish5_got_def publish_got_def)
qed (simp add: publish5_body_def)

subsection \<open>CONNECT\<close>

definition will_part :: "mqtt_msg \<Rightarrow> bytes" where
  "will_part d = (if will_flag (conn_flags d)
     then props_bytes CMD_CONNECT (will_props d) @ str_enc (will_topic d) @ str_enc (will_msg d) else [])"

definition connect5_body :: "mqtt_msg \<Rightarrow> bytes" where
  "connect5_body d =
     str_enc (vh_name d) @ [vh_version d, conn_flags d] @ NNI_PUT16 (vh_u16 d) @
     props_bytes CMD_CONNECT (vh_props d) @ str_enc (client_id d) @ will_part d @
     opt_enc (user_name d) @ opt_enc (password d)"

definition connect5_ok :: "mqtt_msg \<Rightarrow> bool" where
  "connect5_ok d \<longleftrightarrow> packet_type d = NNG_MQTT_CONNECT \<and> connect_ok d \<and>
     sendable CMD_CONNECT (vh_props d) \<and> accepted CMD_CONNECT connect_rule (wire_props CMD_CONNECT (vh_props d)) \<and>
     sendable CMD_CONNECT (will_props d) \<and> accepted CMD_CONNECT will_rule (wire_props CMD_CONNECT (will_props d))"

definition connect5_got :: "mqtt_msg \<Rightarrow> mqtt_msg \<Rightarrow> mqtt_msg" where
  "connect5_got s g = (connect_got s g)\<lparr>vh_props := got_props CMD_CONNECT (vh_props s),
     will_props := (if will_flag (conn_flags s) then got_props CMD_CONNECT (will_props s) else will_props g)\<rparr>"

lemma connect5_end_ok:
  assumes "mem_ok al" and "str_ok (user_name e)" and "str_ok (password e)" and "flags_match (conn_flags e) e"
    and "holds m h b" and "bdy e = b @ opt_enc (user_name e) @ opt_enc (password e)"
    and "length (bdy e) \<le> MQTT_MAX_MSG_LEN"
  shows "\<exists>m'. connect5_end al e m = Some (0, m', sized bdy e) \<and>
    holds m' (fh_common e # write_var_loop 0 (length (bdy e))) (bdy e)"
proof -
  let ?xs = "[(username_flag (conn_flags e), user_name e), (password_flag (conn_flags e), password e)]"
  have "list_all (\<lambda>(f, s). str_ok s \<and> f = (0 < blen s)) ?xs"
    using assms(2-4) by (simp add: flags_match_def)
  from put_optional_ok [OF assms(1) this assms(5)] obtain m1 where m1: "put_optional al m ?xs = (0, m1)"
      "holds m1 h (bdy e)"
    using assms(6) by auto
  obtain m' where m': "finish_header al m1 e = Some (0, m', sized bdy e)"
      "holds m' (fh_common e # write_var_loop 0 (length (bdy e))) (bdy e)"
    by (rule finish_header_ok [where bdy = bdy and d = e, OF assms(1) m1(2) assms(7)])
  have "wrap32 (nni_msg_len m1) = length (bdy e)" using holds_len [OF m1(2)] assms(7) by simp
  moreover have "finish_header al m1 (e\<lparr>remaining_length := n\<rparr>) = finish_header al m1 e" for n
    by (simp add: finish_header_def)
  ultimately show ?thesis
    using m1(1) m' assms(7) by (simp add: connect5_end_def enc_step_def Let_def del: put_optional.simps)
qed

lemma connect5_will_ok:
  assumes "mem_ok al" and "list_all str_ok [will_topic e, will_msg e, user_name e, password e]"
    and "flags_match (conn_flags e) e" and "sendable CMD_CONNECT (will_props e)"
    and "holds m h b" and "bdy e = b @ will_part e @ opt_enc (user_name e) @ opt_enc (password e)"
    and "length (bdy e) \<le> MQTT_MAX_MSG_LEN"
  shows "\<exists>m'. connect5_will al e m = Some (0, m', sized bdy e) \<and>
    holds m' (fh_common e # write_var_loop 0 (length (bdy e))) (bdy e)"
proof (cases "will_flag (conn_flags e)")
  case True
  obtain m1 where m1: "encode_props al m (will_props e) CMD_CONNECT = Some (0, m1)"
      "holds m1 h (b @ props_bytes CMD_CONNECT (will_props e))"
    by (rule holds_props [OF assms(1,4,5)])
  let ?m2 = "nni_mqtt_msg_append_byte_str al (nni_mqtt_msg_append_byte_str al m1 (will_topic e)) (will_msg e)"
  have h: "holds ?m2 h (((b @ props_bytes CMD_CONNECT (will_props e)) @ str_enc (will_topic e)) @ str_enc (will_msg e))"
    using assms(2) by (intro holds_str assms(1) m1(2)) simp_all
  have "0 < blen (will_topic e)" "0 < blen (will_msg e)"
    using True assms(3) unfolding flags_match_def by blast+
  then show ?thesis
    using connect5_end_ok [OF assms(1) _ _ assms(3) h, of bdy] assms(2,6,7) m1(1) True
    by (simp add: connect5_will_def enc_step_def will_part_def)
next
  case False
  then show ?thesis
    using connect5_end_ok [OF assms(1) _ _ assms(3,5), of bdy] assms(2,6,7)
    by (simp add: connect5_will_def will_part_def)
qed

lemma encode_connect5_eq:
  "nni_mqttv5_msg_encode_connect al rnd m d =
     (let e = connect_out 5 rnd al d in
      enc_step (encode_props al (nni_mqtt_msg_append_u16 al (nni_mqtt_msg_append_u8 al (nni_mqtt_msg_append_u8 al
        (nni_mqtt_msg_append_byte_str al (nni_msg_clear m) (vh_name e)) (vh_version e)) (conn_flags e)) (vh_u16 e))
        (vh_props e) CMD_CONNECT) e
        (\<lambda>m. connect5_will al e (nni_mqtt_msg_append_byte_str al m (client_id e))))"
  by (simp add: nni_mqttv5_msg_encode_connect_def connect_out_def Let_def)

lemma connect_out_flags: "flags_match (connect_flags d) d \<Longrightarrow> flags_match (conn_flags (connect_out v rnd al d)) (connect_out v rnd al d)"
  unfolding flags_match_def connect_out_simps by assumption

interpretation connect5: packet_codec connect5_ok "connect_out 5 rnd" connect5_body connect5_got
  "\<lambda>al. nni_mqttv5_msg_encode_connect al rnd" "nni_mqttv5_msg_decode_connect True" for rnd
proof (unfold_locales, goal_cases)
  case (1 al m d)
  let ?o = "connect_out 5 rnd al d"
  have cok: "connect_ok d" "sendable CMD_CONNECT (vh_props ?o)" "sendable CMD_CONNECT (will_props ?o)"
    using 1(3) by (simp_all add: connect5_ok_def)
  have ok: "str_ok (vh_name ?o)" "str_ok (client_id ?o)"
    using connect_defaults_ok [OF 1(1) cok(1)] by simp_all
  let ?m1 = "nni_mqtt_msg_append_u16 al (nni_mqtt_msg_append_u8 al (nni_mqtt_msg_append_u8 al
      (nni_mqtt_msg_append_byte_str al (nni_msg_clear m) (vh_name ?o)) (vh_version ?o)) (conn_flags ?o)) (vh_u16 ?o)"
  let ?b1 = "(((([] @ str_enc (vh_name ?o)) @ [vh_version ?o]) @ [conn_flags ?o]) @ NNI_PUT16 (vh_u16 ?o))"
  have h1: "holds ?m1 (nni_msg_header m) ?b1"
    by (intro holds_str holds_u16 holds_u8 1(1) ok holds_start [OF 1(2)])
  obtain m2 where m2: "encode_props al ?m1 (vh_props ?o) CMD_CONNECT = Some (0, m2)"
      "holds m2 (nni_msg_header m) (?b1 @ props_bytes CMD_CONNECT (vh_props ?o))"
    by (rule holds_props [OF 1(1) cok(2) h1])
  let ?m3 = "nni_mqtt_msg_append_byte_str al m2 (client_id ?o)"
  have h3: "holds ?m3 (nni_msg_header m) ((?b1 @ props_bytes CMD_CONNECT (vh_props ?o)) @ str_enc (client_id ?o))"
    by (intro holds_str 1(1) ok(2) m2(2))
  have "connect5_body ?o = ((?b1 @ props_bytes CMD_CONNECT (vh_props ?o)) @ str_enc (client_id ?o)) @ will_part ?o @
      opt_enc (user_name ?o) @ opt_enc (password ?o)"
    by (simp add: connect5_body_def)
  moreover have "list_all str_ok [will_topic ?o, will_msg ?o, user_name ?o, password ?o]"
    "flags_match (conn_flags ?o) ?o"
    using cok(1) by (simp_all add: connect_ok_def connect_out_flags del: connect_out_simps(5))
  ultimately show ?case
    using connect5_will_ok [OF 1(1) _ _ cok(3) h3, of connect5_body] 1(4) m2(1)
    by (simp only: encode_connect5_eq Let_def enc_step_def option.case prod.case) simp
next
  case (3 al d m g)
  let ?o = "connect_out 5 rnd al d" and ?f = "connect_flags d"
  let ?creds = "opt_enc (user_name d) @ opt_enc (password d)"
  have cok: "packet_type d = NNG_MQTT_CONNECT" "connect_ok d"
      "sendable CMD_CONNECT (vh_props d)" "accepted CMD_CONNECT connect_rule (wire_props CMD_CONNECT (vh_props d))"
      "sendable CMD_CONNECT (will_props d)" "accepted CMD_CONNECT will_rule (wire_props CMD_CONNECT (will_props d))"
    using 3(2) by (simp_all add: connect5_ok_def)
  have ok: "str_ok (vh_name ?o)" "str_ok (client_id ?o)"
    using connect_defaults_ok [OF 3(1) cok(2)] by simp_all
  have okd: "str_ok (will_topic d)" "str_ok (will_msg d)" "str_ok (user_name d)" "str_ok (password d)"
      "flags_match ?f d"
    using cok(2) by (simp_all add: connect_ok_def)
  have w: "will_flag ?f \<longleftrightarrow> 0 < blen (will_topic d)" "will_flag ?f \<longleftrightarrow> 0 < blen (will_msg d)"
    using okd(5) unfolding flags_match_def by blast+
  have t: "nni_msg_get_type m = CMD_CONNECT" using type_byte [OF 3(4)] cok(1) by (simp add: packet_type_def)
  note checks = checked_ok [OF cok(4) decoder_rules_copy(1) t] checked_ok [OF cok(6) decoder_rules_copy(2) t]
  let ?pre = "str_enc (vh_name ?o) @ [vh_version ?o, ?f] @ NNI_PUT16 (vh_u16 ?o)"
  have b: "nni_msg_body m = ?pre @ props_bytes CMD_CONNECT (vh_props d) @ str_enc (client_id ?o) @ will_part ?o @ ?creds"
    using 3(4) by (simp add: holds_def connect5_body_def)
  note rd1 = rd_props_ok [OF TrueI 3(1) cok(3) b refl]
  show ?case
  proof (cases "will_flag ?f")
    case True
    have b2: "nni_msg_body m = (?pre @ props_bytes CMD_CONNECT (vh_props d) @ str_enc (client_id ?o)) @
        props_bytes CMD_CONNECT (will_props d) @ str_enc (will_topic d) @ str_enc (will_msg d) @ ?creds"
      using b True by (simp add: will_part_def)
    show ?thesis
      using True rd1 rd_props_ok [OF TrueI 3(1) cok(5) b2 refl] checks b2 ok okd w
        read_credentials_ok [OF _ okd(3,4)]
      by (simp add: nni_mqttv5_msg_decode_connect_def connect5_got_def connect_got_def or_else_def Let_def will_part_def)
  next
    case False
    then show ?thesis
      using rd1 checks b ok okd w read_credentials_ok [OF _ okd(3,4)]
      by (simp add: nni_mqttv5_msg_decode_connect_def connect5_got_def connect_got_def or_else_def Let_def will_part_def)
  qed
qed (simp_all add: connect5_body_def will_part_def)

section \<open>The codec as a whole\<close>

definition v5_spec :: "u32 \<Rightarrow> (u8 \<times> packet_spec) list" where
  "v5_spec rnd =
     [(NNG_MQTT_CONNECT, \<lparr>s_ok = connect5_ok, s_out = connect_out 5 rnd, s_body = connect5_body, s_got = connect5_got\<rparr>),
      (NNG_MQTT_CONNACK, \<lparr>s_ok = connack5_ok, s_out = \<lambda>_ d. d, s_body = connack5_body,
         s_got = \<lambda>s g. g\<lparr>ca_flags := ca_flags s, conn_return_code := conn_return_code s,
           ca_props := got_props CMD_CONNACK (ca_props s)\<rparr>\<rparr>),
      (NNG_MQTT_PUBLISH, \<lparr>s_ok = publish5_ok, s_out = \<lambda>_ d. d, s_body = publish5_body, s_got = publish5_got\<rparr>),
      (NNG_MQTT_PUBACK, \<lparr>s_ok = \<lambda>d. ack_props d = P_null, s_out = \<lambda>_ d. d, s_body = ack5_body, s_got = ack5_got\<rparr>),
      (NNG_MQTT_PUBREC, \<lparr>s_ok = \<lambda>d. ack_props d = P_null, s_out = \<lambda>_ d. d, s_body = ack5_body, s_got = ack5_got\<rparr>),
      (NNG_MQTT_PUBREL, \<lparr>s_ok = \<lambda>d. ack_props d = P_null, s_out = \<lambda>_. set_bit_1, s_body = ack5_body, s_got = ack5_got\<rparr>),
      (NNG_MQTT_SUBSCRIBE, \<lparr>s_ok = subscribe5_ok, s_out = \<lambda>_. set_bit_1, s_body = subscribe5_body,
         s_got = \<lambda>s g. g\<lparr>sub_packet_id := sub_packet_id s, sub_props := got_props CMD_SUBSCRIBE (sub_props s),
           topics := topics s\<rparr>\<rparr>),
      (NNG_MQTT_UNSUBSCRIBE, \<lparr>s_ok = unsubscribe5_ok, s_out = \<lambda>_. set_bit_1, s_body = unsubscribe5_body,
         s_got = \<lambda>s g. g\<lparr>sub_packet_id := sub_packet_id s, sub_props := got_props CMD_UNSUBSCRIBE (sub_props s),
           un_topics := un_topics s\<rparr>\<rparr>),
      (NNG_MQTT_UNSUBACK, \<lparr>s_ok = \<lambda>d. sendable CMD_UNSUBACK (sub_props d), s_out = \<lambda>_ d. d, s_body = unsuback5_body,
         s_got = \<lambda>s g. g\<lparr>sub_packet_id := sub_packet_id s, sub_props := got_props CMD_UNSUBACK (sub_props s),
           ret_codes := ret_codes s\<rparr>\<rparr>),
      (NNG_MQTT_DISCONNECT,
         \<lparr>s_ok = disconnect5_ok, s_out = \<lambda>_ d. d, s_body = reason_body CMD_DISCONNECT, s_got = reason_got CMD_DISCONNECT\<rparr>),
      (NNG_MQTT_AUTH, \<lparr>s_ok = \<lambda>d. disc_props d \<noteq> P_null \<and> sendable CMD_AUTH_V5 (disc_props d), s_out = \<lambda>_ d. d,
         s_body = reason_body CMD_AUTH_V5, s_got = reason_got CMD_AUTH_V5\<rparr>)]"

definition plain_decoders :: "allocator \<Rightarrow> (u8 \<times> decoder) list" where
  "plain_decoders al = map (\<lambda>(t, dec). (t, plain_dec dec)) (codec_v5_decoders True al)"

lemma plain_keeps [simp]: "plain_dec (keeps dec) = dec"
proof -
  have "plain_dec (keeps dec) m d = dec m d" for m d
    by (cases "dec m d") (auto simp: plain_dec_def keeps_def)
  then show ?thesis by blast
qed

lemma v5_implemented:
  "(t, p) \<in> set (v5_spec rnd) \<Longrightarrow> implemented (\<lambda>al. codec_v5_encoders al rnd) plain_decoders t p"
  unfolding v5_spec_def list.set insert_iff prod.inject empty_iff
  by (elim disjE conjE FalseE; hypsubst; rule implementedI)
    (simp_all add: codec_v5_encoders_def plain_decoders_def codec_v5_decoders_def connect5.packet_codec_axioms
      connack5.packet_codec_axioms publish5.packet_codec_axioms puback5.packet_codec_axioms
      pubrec5.packet_codec_axioms pubrel5.packet_codec_axioms subscribe5.packet_codec_axioms
      unsubscribe5.packet_codec_axioms unsuback5.packet_codec_axioms disconnect5.packet_codec_axioms
      auth5.packet_codec_axioms)

lemma packet_type_out5:
  "(t, p) \<in> set (v5_spec rnd) \<Longrightarrow> packet_type (s_out p al d) = packet_type d"
  by (auto simp: v5_spec_def) (simp add: packet_type_def)

lemma plain_decoders_of:
  assumes "map_of (plain_decoders al) t = Some dec"
  obtains dec3 where "map_of (codec_v5_decoders True al) t = Some dec3" and "dec = plain_dec dec3"
  using assms unfolding plain_decoders_def map_of_map by auto

lemma decode5_ok:
  assumes "holds m (fh_common s # write_var_loop 0 (remaining_length s)) b" "m_proto_data m = Some fresh"
    "remaining_length s \<le> MQTT_MAX_MSG_LEN" "used_bytes s = length (write_var_loop 0 (remaining_length s))"
    "map_of (plain_decoders al) (packet_type s) = Some dec"
    "\<And>m2. holds m2 (fh_common s # write_var_loop 0 (remaining_length s)) b \<Longrightarrow>
       \<exists>rv r. dec m2 (blank s) = Some (rv, r) \<and> Q rv r"
  shows "\<exists>rv m3 r. nni_mqttv5_msg_decode True al m = Some (rv, m3) \<and> m_proto_data m3 = Some r \<and> Q rv r"
proof -
  let ?d = "fresh\<lparr>fh_common := fh_common s, remaining_length := remaining_length s, used_bytes := used_bytes s\<rparr>"
  let ?m = "m\<lparr>m_proto_data := Some ?d\<rparr>"
  obtain dec3 where d3: "map_of (codec_v5_decoders True al) (packet_type s) = Some dec3" "dec = plain_dec dec3"
    by (rule plain_decoders_of [OF assms(5)])
  have "nni_mqtt_msg_decode_fixed_header m = Some (0, ?m)"
    using decode_header_ok [OF assms(1,3,2)] assms(4) by simp
  moreover have "mqtt_msg_content_free (started False ?d) = Some (started False ?d)"
    by (simp add: started_def mqtt_msg_content_free_def property_free_def fresh_def nni_proto_data_init_def zero_mqtt_def
        destory_suback_def destory_unsuback_def)
  moreover have "(started False ?d)\<lparr>is_decoded := True\<rparr> = blank s" "\<not> is_decoded (started False ?d)"
    by (simp_all add: started_def blank_def fresh_def nni_proto_data_init_def zero_mqtt_def)
  moreover have "packet_type ?d = packet_type s" by (simp add: packet_type_def)
  moreover obtain rv m3 r where "dec3 ?m (blank s) = Some (rv, m3, r)" "Q rv r"
    using assms(6) [of ?m] holds_proto [OF assms(1)] d3(2) by (auto simp: plain_dec_def)
  ultimately show ?thesis
    using d3(1) by (simp add: nni_mqttv5_msg_decode_def Let_def)
qed



definition some_publish :: mqtt_msg where
  "some_publish = fresh\<lparr>fh_common := 0x30, vh_name := some_topic, vh_props := P_list some_props\<rparr>"

lemma some_publish_ok: "publish5_ok (begun some_publish)"
  by (simp add: publish5_ok_def some_publish_def begun_def started_def fresh_def nni_proto_data_init_def zero_mqtt_def
      packet_type_def pay_ok_def sendable_def accepted_def wire_props_def sent_props_def encoded_def some_props_def
      prop_ok_def p_type_def property_get_value_type_def str_ok_def prop_enc_def str_enc_def str_bytes_def aliases_def
      check_rule_def downstream_rule_def repeatable_def Let_def some_topic_def buf0_def)



section \<open>What the codec cannot read back\<close>

text \<open>What decoding makes of an encoded packet, for a statement \<open>Q\<close> about the result and the data.\<close>

definition reads_back :: "allocator \<Rightarrow> u32 \<Rightarrow> mqtt_nng_msg \<Rightarrow> (int \<Rightarrow> mqtt_msg \<Rightarrow> bool) \<Rightarrow> bool" where
  "reads_back al rnd m Q \<longleftrightarrow>
     (\<exists>m'. nni_mqttv5_msg_encode al rnd m = Some (0, m') \<and>
       (\<forall>m2. msg_wf m2 \<and> nni_msg_header m2 = nni_msg_header m' \<and> nni_msg_body m2 = nni_msg_body m' \<and>
          m_proto_data m2 = Some fresh \<longrightarrow>
          (\<exists>rv m3 r. nni_mqttv5_msg_decode True al m2 = Some (rv, m3) \<and> m_proto_data m3 = Some r \<and> Q rv r)))"

lemma reads_backI:
  assumes "msg_wf m" and "m_proto_data m = Some d"
    and "map_of (codec_v5_encoders al rnd) (packet_type d) = Some enc"
    and "\<And>m0. msg_wf m0 \<Longrightarrow> \<exists>m'. enc m0 (begun d) = Some (0, m', s) \<and>
      holds m' (fh_common s # write_var_loop 0 (remaining_length s)) b"
    and "remaining_length s \<le> MQTT_MAX_MSG_LEN" and "used_bytes s = length (write_var_loop 0 (remaining_length s))"
    and "packet_type s = packet_type d" and "map_of (plain_decoders al) (packet_type d) = Some dec"
    and "\<And>m2. holds m2 (fh_common s # write_var_loop 0 (remaining_length s)) b \<Longrightarrow>
      \<exists>rv r. dec m2 (blank s) = Some (rv, r) \<and> Q rv r"
  shows "reads_back al rnd m Q"
proof -
  let ?m = "nni_msg_header_clear (nni_msg_clear m)"
  have "msg_wf ?m" using holds_header_clear [OF holds_start [OF assms(1)]] by (simp add: holds_def)
  then obtain m' where m': "enc ?m (begun d) = Some (0, m', s)"
      "holds m' (fh_common s # write_var_loop 0 (remaining_length s)) b"
    using assms(4) by blast
  have "m_proto_data ?m = Some d"
    using assms(2) by (simp add: nni_msg_header_clear_def nni_msg_clear_def)
  then have e: "nni_mqttv5_msg_encode al rnd m = Some (0, m'\<lparr>m_proto_data := Some s\<rparr>)"
    using m'(1) assms(3) by (simp add: nni_mqttv5_msg_encode_def encode_with_def begun_def)
  have h: "holds (m'\<lparr>m_proto_data := Some s\<rparr>) (fh_common s # write_var_loop 0 (remaining_length s)) b"
    by (rule holds_proto [OF m'(2)])
  have "map_of (plain_decoders al) (packet_type s) = Some dec" using assms(7,8) by simp
  then have "\<exists>rv m3 r. nni_mqttv5_msg_decode True al m2 = Some (rv, m3) \<and> m_proto_data m3 = Some r \<and> Q rv r"
    if "holds m2 (fh_common s # write_var_loop 0 (remaining_length s)) b" "m_proto_data m2 = Some fresh" for m2
    by (rule decode5_ok [where Q = Q and dec = dec, OF that assms(5,6) _ assms(9)])
  then show ?thesis
    using e h unfolding reads_back_def holds_def by auto
qed

lemma header_only_ok:
  assumes "mem_ok al" and "holds m h b" and "n \<le> MQTT_MAX_MSG_LEN"
  shows "\<exists>m'. header_only al m (d\<lparr>remaining_length := n\<rparr>) =
      Some (0, m', d\<lparr>remaining_length := n, used_bytes := length (write_var_loop 0 n)\<rparr>) \<and>
    holds m' (fh_common d # write_var_loop 0 n) b"
  using fixed_header_ok [OF assms(1,2), of "d\<lparr>remaining_length := n\<rparr>"] assms(3) by (auto simp: header_only_def)

text \<open>PUBCOMP and the pings are encoded as nothing at all.\<close>

lemma nothing_encoded:
  assumes "msg_wf m" and "m_proto_data m = Some d"
    and "packet_type d \<in> {NNG_MQTT_PUBCOMP, NNG_MQTT_PINGREQ, NNG_MQTT_PINGRESP}"
  shows "reads_back al rnd m (\<lambda>rv r. rv = MQTT_ERR_PROTOCOL)"
proof -
  let ?m = "(nni_msg_header_clear (nni_msg_clear m))\<lparr>m_proto_data := Some (begun d)\<rparr>"
  have h: "holds ?m [] []"
    by (rule holds_proto [OF holds_header_clear [OF holds_start [OF assms(1)]]])
  have "m_proto_data (nni_msg_header_clear (nni_msg_clear m)) = Some d"
    using assms(2) by (simp add: nni_msg_header_clear_def nni_msg_clear_def)
  then have e: "nni_mqttv5_msg_encode al rnd m = Some (0, ?m)"
    using assms(3)
    by (auto simp: nni_mqttv5_msg_encode_def encode_with_def codec_v5_encoders_def nni_mqttv5_msg_encode_pubcomp_def
        nni_mqttv5_msg_encode_base_def begun_def)
  have "nni_mqttv5_msg_decode True al m2 = Some (MQTT_ERR_PROTOCOL, m2)"
    if "msg_wf m2" "nni_msg_header m2 = []" for m2
    using length_nni_msg_header [OF that(1)] that(2)
    by (simp add: nni_mqttv5_msg_decode_def nni_mqtt_msg_decode_fixed_header_def nni_msg_header_len_def)
  then show ?thesis
    using e h unfolding reads_back_def holds_def by fastforce
qed

lemma empty_disconnect:
  assumes "mem_ok al" and "msg_wf m" and "m_proto_data m = Some d" and "packet_type d = NNG_MQTT_DISCONNECT"
    and "reason_code d = 0" and "disc_props d = P_null"
  shows "reads_back al rnd m (\<lambda>rv r. rv = MQTT_ERR_PROTOCOL)"
proof -
  let ?s = "(begun d)\<lparr>remaining_length := 0, used_bytes := length (write_var_loop 0 0)\<rparr>"
  have b: "reason_code (begun d) = 0" "disc_props (begun d) = P_null" "packet_type ?s = packet_type d"
    using assms(5,6) by (simp_all add: begun_def started_def packet_type_def)
  show ?thesis
  proof (rule reads_backI [where s = ?s and b = "[]", OF assms(2,3)])
    show "map_of (codec_v5_encoders al rnd) (packet_type d) = Some (nni_mqttv5_msg_encode_disconnect al)"
        "map_of (plain_decoders al) (packet_type d) = Some (nni_mqttv5_msg_decode_disconnect True al)"
      by (simp_all add: assms(4) codec_v5_encoders_def plain_decoders_def codec_v5_decoders_def)
    show "\<exists>m'. nni_mqttv5_msg_encode_disconnect al m0 (begun d) = Some (0, m', ?s) \<and>
        holds m' (fh_common ?s # write_var_loop 0 (remaining_length ?s)) []" if "msg_wf m0" for m0
      using header_only_ok [OF assms(1) holds_start [OF that], of 0 "begun d"] b
      by (simp add: nni_mqttv5_msg_encode_disconnect_def)
    show "\<exists>rv r. nni_mqttv5_msg_decode_disconnect True al m2 (blank ?s) = Some (rv, r) \<and> rv = MQTT_ERR_PROTOCOL"
      if "holds m2 (fh_common ?s # write_var_loop 0 (remaining_length ?s)) []" for m2
      using that by (simp add: nni_mqttv5_msg_decode_disconnect_def holds_def rd_def)
  qed (simp_all add: b(3))
qed

lemma auth_without_properties:
  assumes "mem_ok al" and "msg_wf m" and "m_proto_data m = Some d" and "packet_type d = NNG_MQTT_AUTH"
    and "disc_props d = P_null"
  shows "reads_back al rnd m (\<lambda>rv r. rv = MQTT_ERR_PROTOCOL)"
proof -
  let ?s = "(begun d)\<lparr>remaining_length := 2, used_bytes := length (write_var_loop 0 2)\<rparr>"
  have b: "reason_code (begun d) = reason_code d" "disc_props (begun d) = P_null" "packet_type ?s = packet_type d"
    using assms(5) by (simp_all add: begun_def started_def packet_type_def)
  show ?thesis
  proof (rule reads_backI [where s = ?s and b = "[reason_code d]", OF assms(2,3)])
    show "map_of (codec_v5_encoders al rnd) (packet_type d) = Some (nni_mqttv5_msg_encode_auth al)"
        "map_of (plain_decoders al) (packet_type d) = Some (nni_mqttv5_msg_decode_auth True al)"
      by (simp_all add: assms(4) codec_v5_encoders_def plain_decoders_def codec_v5_decoders_def)
    show "\<exists>m'. nni_mqttv5_msg_encode_auth al m0 (begun d) = Some (0, m', ?s) \<and>
        holds m' (fh_common ?s # write_var_loop 0 (remaining_length ?s)) [reason_code d]" if "msg_wf m0" for m0
      using header_only_ok [OF assms(1) holds_u8 [OF assms(1) holds_start [OF that], of "reason_code d"], of 2 "begun d"] b
      by (simp add: nni_mqttv5_msg_encode_auth_def)
    show "\<exists>rv r. nni_mqttv5_msg_decode_auth True al m2 (blank ?s) = Some (rv, r) \<and> rv = MQTT_ERR_PROTOCOL"
      if "holds m2 (fh_common ?s # write_var_loop 0 (remaining_length ?s)) [reason_code d]" for m2
      using that by (simp add: nni_mqttv5_msg_decode_auth_def holds_def rd_props_def decode_buf_properties_def)
  qed (simp_all add: b(3))
qed

text \<open>C36: The MQTT 5 codec refuses packets that it wrote itself. Encoding a PUBCOMP, a PINGREQ or a PINGRESP
  reports success and writes nothing; a DISCONNECT without reason and properties is written as two bytes,
  and an AUTH without properties announces a length of two for one byte. Decoding each of them is a
  protocol error.\<close>

theorem v5_packets_refused:
  assumes "mem_ok al" and "msg_wf m" and "m_proto_data m = Some d"
    and "packet_type d \<in> {NNG_MQTT_PUBCOMP, NNG_MQTT_PINGREQ, NNG_MQTT_PINGRESP} \<or>
      packet_type d = NNG_MQTT_DISCONNECT \<and> reason_code d = 0 \<and> disc_props d = P_null \<or>
      packet_type d = NNG_MQTT_AUTH \<and> disc_props d = P_null"
  shows "reads_back al rnd m (\<lambda>rv r. rv = MQTT_ERR_PROTOCOL)"
  using assms(4) nothing_encoded [OF assms(2,3)] empty_disconnect [OF assms(1-3)] auth_without_properties [OF assms(1-3)]
  by blast

theorem v5_packets_refused_witness:
  "mem_ok (\<lambda>_. True) \<and> msg_wf (some_message (fresh\<lparr>fh_common := 0xE0\<rparr>)) \<and>
   packet_type (fresh\<lparr>fh_common := 0xE0\<rparr>) = NNG_MQTT_DISCONNECT \<and>
   reads_back (\<lambda>_. True) 0 (some_message (fresh\<lparr>fh_common := 0xE0\<rparr>)) (\<lambda>rv r. rv = MQTT_ERR_PROTOCOL)"
proof -
  have "packet_type (fresh\<lparr>fh_common := 0xE0\<rparr>) = NNG_MQTT_DISCONNECT" "reason_code fresh = 0" "disc_props fresh = P_null"
    by (simp_all add: packet_type_def fresh_def nni_proto_data_init_def zero_mqtt_def)
  then show ?thesis
    using v5_packets_refused [OF _ some_message_wf, of "\<lambda>_. True" "fresh\<lparr>fh_common := 0xE0\<rparr>" 0] by (simp add: mem_ok_def)
qed

lemma PUT16_shifted: "0 # NNI_PUT16 w = NNI_PUT16 (drop_bit 8 w) @ [ucast w]"
  by (simp add: NNI_PUT16_def)

definition suback5_body :: "mqtt_msg \<Rightarrow> bytes" where
  "suback5_body d = 0 # NNI_PUT16 (sub_packet_id d) @ ret_codes d"

lemma encode_suback5:
  assumes "mem_ok al" and "msg_wf m" and "sub_props d = P_null" and "length (suback5_body d) \<le> MQTT_MAX_MSG_LEN"
  shows "\<exists>m'. nni_mqttv5_msg_encode_suback al m d = Some (0, m', sized suback5_body d) \<and>
    holds m' (fh_common d # write_var_loop 0 (length (suback5_body d))) (suback5_body d)"
proof -
  obtain m1 where m1: "encode_props al (nni_msg_clear m) P_null CMD_SUBACK = Some (0, m1)"
      "holds m1 (nni_msg_header m) ([] @ props_bytes CMD_SUBACK P_null)"
    by (rule holds_props [OF assms(1) sendable_null holds_start [OF assms(2)]])
  have "holds (append_codes al (nni_mqtt_msg_append_u16 al m1 (sub_packet_id d)) (ret_codes d)) (nni_msg_header m) (suback5_body d)"
    using holds_put [OF assms(1) holds_u16 [OF assms(1) m1(2)], of "sub_packet_id d" "ret_codes d"]
    by (simp add: suback5_body_def append_codes_def msg_put_def props_bytes_null)
  then obtain m' where "finish_header al (append_codes al (nni_mqtt_msg_append_u16 al m1 (sub_packet_id d)) (ret_codes d)) d =
      Some (0, m', sized suback5_body d)" "holds m' (fh_common d # write_var_loop 0 (length (suback5_body d))) (suback5_body d)"
    by (rule finish_header_ok [where bdy = suback5_body and d = d, OF assms(1) _ assms(4)])
  then show ?thesis
    using m1(1) assms(3) by (simp add: nni_mqttv5_msg_encode_suback_def)
qed

lemma decode_ret_codes_keeps:
  assumes "mem_ok al"
  shows "\<exists>rv r. decode_ret_codes al b d = Some (rv, r) \<and> sub_packet_id r = sub_packet_id d"
  using assms by (auto simp: decode_ret_codes_def mem_ok_def Let_def split: option.split)

lemma decode_suback5:
  assumes "mem_ok al" and "nni_msg_body m = suback5_body d"
  shows "\<exists>rv r. nni_mqttv5_msg_decode_suback True al m g = Some (rv, r) \<and> sub_packet_id r = drop_bit 8 (sub_packet_id d)"
proof -
  let ?b = "suback5_body d" and ?r = "ucast (sub_packet_id d) # ret_codes d"
  have b: "?b = NNI_PUT16 (drop_bit 8 (sub_packet_id d)) @ ?r"
    using PUT16_shifted [of "sub_packet_id d"] by (simp add: suback5_body_def)
  obtain list pos n where l: "decode_buf_properties True al ?b (length ?b) (length ?b - length ?r) True = Some (list, pos, n)"
    using decode_buf_total [OF TrueI assms(1) order_refl, of ?b "length ?b - length ?r" True] by auto
  obtain rv r where "decode_ret_codes al (drop pos ?b)
      (g\<lparr>sub_packet_id := drop_bit 8 (sub_packet_id d), sub_props := props_of list\<rparr>) = Some (rv, r)"
      "sub_packet_id r = drop_bit 8 (sub_packet_id d)"
    using decode_ret_codes_keeps [OF assms(1), of "drop pos ?b"
        "g\<lparr>sub_packet_id := drop_bit 8 (sub_packet_id d), sub_props := props_of list\<rparr>"] by auto
  then show ?thesis
    using l assms(2) u16_codec.dec_enc [of "drop_bit 8 (sub_packet_id d)" ?r]
    by (simp add: nni_mqttv5_msg_decode_suback_def rd_def rd_props_def b Let_def)
qed


definition some_suback :: mqtt_msg where
  "some_suback = fresh\<lparr>fh_common := 0x90, sub_packet_id := 7, ret_codes := [0x01]\<rparr>"


definition puback5_body :: "mqtt_msg \<Rightarrow> bytes" where
  "puback5_body d = NNI_PUT16 (ack_packet_id d) @ props_bytes CMD_PUBACK (ack_props d)"

lemma encode_puback5:
  assumes "mem_ok al" and "msg_wf m" and "sendable CMD_PUBACK (ack_props d)"
    and "length (puback5_body d) \<le> MQTT_MAX_MSG_LEN"
  shows "\<exists>m'. nni_mqttv5_msg_encode_puback al m d = Some (0, m', sized puback5_body d) \<and>
    holds m' (fh_common d # write_var_loop 0 (length (puback5_body d))) (puback5_body d)"
proof -
  obtain m1 where m1: "encode_props al (nni_mqtt_msg_append_u16 al (nni_msg_clear m) (ack_packet_id d))
      (ack_props d) CMD_PUBACK = Some (0, m1)" "holds m1 (nni_msg_header m) (puback5_body d)"
    unfolding puback5_body_def by (rule u16_props [OF assms(1-3)])
  obtain m' where "finish_header al m1 d = Some (0, m', sized puback5_body d)"
      "holds m' (fh_common d # write_var_loop 0 (length (puback5_body d))) (puback5_body d)"
    by (rule finish_header_ok [where bdy = puback5_body and d = d, OF assms(1) m1(2) assms(4)])
  then show ?thesis
    using m1(1) by (simp add: nni_mqttv5_msg_encode_puback_def)
qed

lemma ack5_props_keeps:
  assumes "st" and "mem_ok al" and "msg_wf m"
  shows "\<exists>rv r. ack5_props st al m pos d = Some (rv, r) \<and> ack_packet_id r = ack_packet_id d \<and> ack_code r = ack_code d"
proof -
  obtain list q n where l: "decode_properties st al m pos False = Some (list, q, n)" "typed list"
    by (rule decode_props_typed [OF assms])
  obtain rc where "check_properties list (Some m) = Some rc"
    using check_properties_some [OF l(2)] by blast
  then show ?thesis
    using l(1) by (simp add: ack5_props_def Let_def)
qed

lemma decode_puback5:
  assumes "mem_ok al" and "msg_wf m" and "nni_msg_body m = puback5_body d"
  shows "\<exists>rv r. nni_mqttv5_msg_decode_puback True al m g = Some (rv, r) \<and> ack_packet_id r = ack_packet_id d \<and>
    ack_code r = hd (props_bytes CMD_PUBACK (ack_props d))"
proof -
  obtain c rest where p: "props_bytes CMD_PUBACK (ack_props d) = c # rest"
    by (cases "props_bytes CMD_PUBACK (ack_props d)") (simp_all add: props_bytes_def Let_def)
  let ?g = "g\<lparr>ack_packet_id := ack_packet_id d, ack_code := c\<rparr>"
  have "\<exists>rv r. ack5_props True al m (length (nni_msg_body m) - length rest) ?g = Some (rv, r) \<and>
      ack_packet_id r = ack_packet_id d \<and> ack_code r = c"
    using ack5_props_keeps [OF TrueI assms(1,2), of "length (nni_msg_body m) - length rest" ?g] by simp
  then show ?thesis
    using u16_codec.dec_enc [of "ack_packet_id d" "c # rest"] assms(3) p
    by (simp add: nni_mqttv5_msg_decode_puback_def decode_ack5_def puback5_body_def Let_def)
qed

text \<open>C38: The MQTT 5 encoder leaves the reason code out of a PUBACK. The properties follow the packet identifier
  at once, so that decoding takes the first byte of their length for the reason code, whatever reason was
  set; without properties every reason becomes success.\<close>

theorem v5_puback_loses_reason_code:
  assumes "mem_ok al" and "msg_wf m" and "m_proto_data m = Some d" and "packet_type d = NNG_MQTT_PUBACK"
    and "sendable CMD_PUBACK (ack_props d)"
    and "2 + length (props_bytes CMD_PUBACK (ack_props d)) \<le> MQTT_MAX_MSG_LEN"
  shows "reads_back al rnd m (\<lambda>rv r. ack_packet_id r = ack_packet_id d \<and>
    ack_code r = hd (props_bytes CMD_PUBACK (ack_props d)))"
proof -
  let ?e = "begun d"
  let ?s = "sized puback5_body ?e"
  have e: "ack_packet_id ?e = ack_packet_id d" "ack_props ?e = ack_props d" "packet_type ?s = packet_type d"
    by (simp_all add: begun_def started_def packet_type_def sized_def)
  have b: "length (puback5_body ?e) \<le> MQTT_MAX_MSG_LEN" "sendable CMD_PUBACK (ack_props ?e)"
    using assms(5,6) e(2) by (simp_all add: puback5_body_def)
  show ?thesis
  proof (rule reads_backI [where s = ?s and b = "puback5_body ?e", OF assms(2,3)])
    show "map_of (codec_v5_encoders al rnd) (packet_type d) = Some (nni_mqttv5_msg_encode_puback al)"
        "map_of (plain_decoders al) (packet_type d) = Some (nni_mqttv5_msg_decode_puback True al)"
      by (simp_all add: assms(4) codec_v5_encoders_def plain_decoders_def codec_v5_decoders_def)
    show "\<exists>m'. nni_mqttv5_msg_encode_puback al m0 ?e = Some (0, m', ?s) \<and>
        holds m' (fh_common ?s # write_var_loop 0 (remaining_length ?s)) (puback5_body ?e)" if "msg_wf m0" for m0
      using encode_puback5 [OF assms(1) that b(2,1)] by (simp add: sized_def)
    show "\<exists>rv r. nni_mqttv5_msg_decode_puback True al m2 (blank ?s) = Some (rv, r) \<and>
        ack_packet_id r = ack_packet_id d \<and> ack_code r = hd (props_bytes CMD_PUBACK (ack_props d))"
      if "holds m2 (fh_common ?s # write_var_loop 0 (remaining_length ?s)) (puback5_body ?e)" for m2
      using decode_puback5 [OF assms(1), of m2 ?e] that e by (simp add: holds_def)
  qed (use b e in \<open>simp_all add: sized_def\<close>)
qed

definition some_puback :: mqtt_msg where
  "some_puback = fresh\<lparr>fh_common := 0x40, ack_packet_id := 7, ack_code := 0x87\<rparr>"

theorem v5_puback_loses_reason_code_witness:
  "mem_ok (\<lambda>_. True) \<and> msg_wf (some_message some_puback) \<and> ack_code some_puback = 0x87 \<and>
   reads_back (\<lambda>_. True) 0 (some_message some_puback) (\<lambda>rv r. ack_packet_id r = 7 \<and> ack_code r = 0)"
proof -
  have "packet_type some_puback = NNG_MQTT_PUBACK" "ack_props some_puback = P_null" "ack_packet_id some_puback = 7"
      "ack_code some_puback = 0x87"
    by (simp_all add: some_puback_def packet_type_def fresh_def nni_proto_data_init_def zero_mqtt_def)
  then show ?thesis
    using v5_puback_loses_reason_code [OF _ some_message_wf, of "\<lambda>_. True" some_puback 0]
    by (simp add: mem_ok_def sendable_null props_bytes_null)
qed

end
