(* ===== verification/MqttAck.thy ===== *)
theory MqttAck
  imports MqttRound5
begin

text \<open>
  The helpers for acknowledgements in \<^verbatim>\<open>mqtt_codec.c\<close>: the packet identifiers of a socket, with the threads
  that share its counter, and the acknowledgements that the broker writes and reads.
\<close>

section \<open>Packet identifiers\<close>

text \<open>The identifiers of successive calls by one thread.\<close>

fun packet_ids :: "nat \<Rightarrow> 32 word \<Rightarrow> u16 list" where
  "packet_ids 0 counter = []"
| "packet_ids (Suc n) counter =
     (case mqtt_get_next_packet_id counter of (packet_id, counter') \<Rightarrow> packet_id # packet_ids n counter')"

definition id_at :: "nat \<Rightarrow> nat" where
  "id_at k = k mod 65535 + 1"

lemma low_bits: "(w :: 32 word) AND 0xFFFF = take_bit 16 w"
proof -
  have "(0xFFFF :: 32 word) = mask 16" by (simp add: mask_eq_exp_minus_1)
  then show ?thesis by (simp only: take_bit_eq_mask)
qed

lemma low_bits_zero:
  assumes "n < 2 ^ 32"
  shows "take_bit 16 (of_nat n :: 32 word) = 0 \<longleftrightarrow> 65536 dvd n"
proof -
  have "unat (take_bit 16 (of_nat n :: 32 word)) = n mod 65536"
    using assms by (simp add: unsigned_take_bit_eq unsigned_of_nat take_bit_nat_eq_self) (simp add: take_bit_eq_mod)
  then show ?thesis
    by (metis unat_eq_0 dvd_eq_mod_eq_0)
qed

lemma id_at_Suc: "id_at (Suc k) = (if id_at k = 65535 then 1 else Suc (id_at k))"
  by (simp add: id_at_def mod_Suc)

lemma id_at_bounds: "1 \<le> id_at k" "id_at k \<le> 65535"
  using mod_less_divisor [of 65535 k] by (simp_all add: id_at_def)

lemma dvd_Suc_id: "65536 dvd Suc (id_at k) \<longleftrightarrow> id_at k = 65535"
proof
  assume "65536 dvd Suc (id_at k)"
  then have "65536 \<le> Suc (id_at k)" by (rule dvd_imp_le) simp
  then show "id_at k = 65535" using id_at_bounds(2) [of k] by linarith
qed simp

lemma ucast_id: "ucast (of_nat (id_at k) :: 32 word) = (of_nat (id_at k) :: u16)"
proof -
  have "id_at k < 2 ^ LENGTH(32)" using id_at_bounds(2) [of k] by simp
  then have "take_bit LENGTH(32) (id_at k) = id_at k" by (rule take_bit_nat_eq_self)
  then show ?thesis by (simp only: unsigned_of_nat)
qed

lemma next_packet_id_at:
  "mqtt_get_next_packet_id (of_nat (id_at k)) = (of_nat (id_at k), of_nat (id_at (Suc k)))"
proof -
  have n: "(of_nat (id_at k) :: 32 word) + 1 = of_nat (Suc (id_at k))" by (simp only: of_nat_Suc add.commute)
  have "Suc (id_at k) < 2 ^ 32" using id_at_bounds(2) [of k] by simp
  then have z: "(of_nat (Suc (id_at k)) :: 32 word) AND 0xFFFF = 0 \<longleftrightarrow> id_at k = 65535"
    unfolding low_bits by (simp only: low_bits_zero dvd_Suc_id)
  show ?thesis
    by (simp only: mqtt_get_next_packet_id_def Let_def n z id_at_Suc ucast_id of_nat_1 if_distrib [of of_nat])
qed

lemma packet_ids_at: "packet_ids n (of_nat (id_at k)) = map (\<lambda>i. of_nat (id_at i)) [k..<k + n]"
proof (induction n arbitrary: k)
  case (Suc n)
  have "[k..<k + Suc n] = k # [Suc k..<Suc k + n]" by (simp add: upt_conv_Cons)
  then show ?case using Suc.IH [of "Suc k"] by (simp add: next_packet_id_at)
qed simp

text \<open>C21: A single thread gets the packet identifiers of a socket in the order 1, 2, up to 65535, and then from 1
  again: the \<open>k\<close>-th identifier is \<open>k mod 65535 + 1\<close>, so that zero never occurs, and an identifier comes back
  only after all the others.\<close>

theorem packet_ids_cycle:
  "packet_ids n 1 = map (\<lambda>k. of_nat (k mod 65535 + 1)) [0..<n] \<and> 0 \<notin> set (packet_ids n 1)"
proof -
  have e: "packet_ids n 1 = map (\<lambda>k. of_nat (id_at k)) [0..<n]"
    using packet_ids_at [of n 0] by (simp add: id_at_def)
  have "(of_nat (id_at k) :: u16) \<noteq> 0" for k
  proof -
    have "unat (of_nat (id_at k) :: u16) = id_at k"
      using id_at_bounds [of k] by (simp add: unsigned_of_nat take_bit_nat_eq_self)
    then show ?thesis using id_at_bounds(1) [of k] by (metis unat_0 not_one_le_zero)
  qed
  then show ?thesis
    unfolding e by (auto simp: id_at_def)
qed


text \<open>
  The function as the threads of a program run it: every access of the counter is one step. A thread has
  read the counter, has exchanged it, is about to set it back, or has returned.
\<close>

datatype pid_pc = Idle | Loaded "32 word" | Swapped "32 word" | Resetting "32 word" | Returned u16

inductive pid_step :: "32 word \<times> (nat \<Rightarrow> pid_pc) \<Rightarrow> 32 word \<times> (nat \<Rightarrow> pid_pc) \<Rightarrow> bool" where
  get: "pc t = Idle \<Longrightarrow> pid_step (c, pc) (c, pc(t := Loaded c))"
| cas_done: "pc t = Loaded c \<Longrightarrow> pid_step (c, pc) (c + 1, pc(t := Swapped c))"
| cas_failed: "pc t = Loaded v \<Longrightarrow> c \<noteq> v \<Longrightarrow> pid_step (c, pc) (c, pc(t := Idle))"
| test_zero: "pc t = Swapped v \<Longrightarrow> c AND 0xFFFF = 0 \<Longrightarrow> pid_step (c, pc) (c, pc(t := Resetting v))"
| test_other: "pc t = Swapped v \<Longrightarrow> c AND 0xFFFF \<noteq> 0 \<Longrightarrow> pid_step (c, pc) (c, pc(t := Returned (ucast v)))"
| set_one: "pc t = Resetting v \<Longrightarrow> pid_step (c, pc) (1, pc(t := Returned (ucast v)))"

inductive_cases pid_stepE: "pid_step (c, pc) s"

text \<open>A thread that nobody interrupts computes \<^const>\<open>mqtt_get_next_packet_id\<close>.\<close>

lemma pid_alone:
  assumes "pc t = Idle"
  shows "pid_step\<^sup>*\<^sup>* (c, pc) (snd (mqtt_get_next_packet_id c), pc(t := Returned (fst (mqtt_get_next_packet_id c))))"
proof -
  have "pid_step (c, pc) (c, pc(t := Loaded c))" using assms by (rule pid_step.get)
  moreover have "pid_step (c, pc(t := Loaded c)) (c + 1, pc(t := Swapped c))"
    using pid_step.cas_done [of "pc(t := Loaded c)" t c] by simp
  ultimately have a: "pid_step\<^sup>*\<^sup>* (c, pc) (c + 1, pc(t := Swapped c))" by simp
  have z: "pid_step\<^sup>*\<^sup>* (c + 1, pc(t := Swapped c)) (1, pc(t := Returned (ucast c)))" if "(c + 1) AND 0xFFFF = 0"
    using pid_step.test_zero [of "pc(t := Swapped c)" t c "c + 1"] that
      pid_step.set_one [of "pc(t := Resetting c)" t c "c + 1"]
    by (simp add: converse_rtranclp_into_rtranclp)
  have o: "pid_step\<^sup>*\<^sup>* (c + 1, pc(t := Swapped c)) (c + 1, pc(t := Returned (ucast c)))" if "(c + 1) AND 0xFFFF \<noteq> 0"
    using pid_step.test_other [of "pc(t := Swapped c)" t c "c + 1"] that by simp
  show ?thesis
    using a z o by (auto simp: mqtt_get_next_packet_id_def Let_def intro: rtranclp_trans)
qed



section \<open>Acknowledgements\<close>

definition ack_list :: "property list option \<Rightarrow> property list" where
  "ack_list prop = (case prop of None \<Rightarrow> [] | Some ps \<Rightarrow> ps)"

text \<open>The properties of an acknowledgement of type \<open>cmd\<close> that can be sent and that the receiver accepts.\<close>

definition ack_props_ok :: "u8 \<Rightarrow> property list \<Rightarrow> bool" where
  "ack_props_ok cmd ps \<longleftrightarrow> list_all prop_ok ps \<and> length (props_enc ps) + 20 \<le> MQTT_MAX_MSG_LEN \<and>
     accepted cmd (\<lambda>_. Some NNG_MQTT_SUCCESS) ps"

definition ack_bytes :: "u16 \<Rightarrow> u8 \<Rightarrow> property list option \<Rightarrow> bytes" where
  "ack_bytes packet_id reason prop =
     NNI_PUT16 packet_id @
     (if reason = 0 \<and> prop = None then []
      else let e = props_enc (ack_list prop) in reason # write_var_loop 0 (length e) @ e)"

lemma sent_props_other: "sent_props 0 ps = ps"
  by (simp add: sent_props_def encoded_def)

lemma msgack_encode_ok:
  assumes "mem_ok al" and "msg_wf m" and "ack_props_ok cmd (ack_list prop)"
  shows "\<exists>m'. nni_mqtt_msgack_encode al m packet_id reason prop MQTT_PROTOCOL_VERSION_v5 = Some (0, m') \<and>
    holds m' (nni_msg_header m) (ack_bytes packet_id reason prop)"
proof -
  let ?m1 = "snd (nni_msg_append al (nni_msg_clear m) (Some (NNI_PUT16 packet_id)) 2)"
  let ?m2 = "snd (nni_msg_append al ?m1 (Some [reason]) 1)"
  have h1: "holds ?m1 (nni_msg_header m) ([] @ NNI_PUT16 packet_id)"
    using holds_append [OF assms(1) holds_start [OF assms(2)], of "NNI_PUT16 packet_id" 2] by auto
  have h2: "holds ?m2 (nni_msg_header m) (([] @ NNI_PUT16 packet_id) @ [reason])"
    using holds_append [OF assms(1) h1, of "[reason]" 1] by auto
  have ok: "\<forall>p \<in> set (ack_list prop). prop_ok p" "length (props_enc (ack_list prop)) + 6 \<le> MQTT_MAX_MSG_LEN"
    using assms(3) by (simp_all add: ack_props_ok_def list_all_iff)
  have "msg_wf ?m2" using h2 by (simp add: holds_def)
  from encode_properties_ok [OF assms(1) this ok, of 0 "length (props_enc (ack_list prop))"]
  obtain m3 where m3: "encode_properties al ?m2 (Some (ack_list prop)) 0 = Some (0, m3)"
      "grown ?m2 m3 (write_var_loop 0 (length (props_enc (ack_list prop))) @ props_enc (ack_list prop))"
    by (auto simp: sent_props_other)
  have "encode_properties al ?m2 prop 0 = encode_properties al ?m2 (Some (ack_list prop)) 0"
    by (cases "prop") (simp_all add: ack_list_def encode_properties_null)
  then show ?thesis
    using m3(1) grown_fields(1,6,7) [OF m3(2)] h1 h2 assms(1)
    by (cases "reason = 0 \<and> prop = None")
      (auto simp: nni_mqtt_msgack_encode_def mem_ok_def ack_bytes_def holds_def Let_def)
qed


abbreviation CMD_PUBCOMP :: u8 where "CMD_PUBCOMP \<equiv> 0x70"

definition ack_cmds :: "u8 list" where
  "ack_cmds = [CMD_PUBACK, CMD_PUBREC, CMD_PUBREL, CMD_PUBCOMP]"

lemma pubres_header_ok:
  assumes "holds m [] b" and "length b \<le> MQTT_MAX_MSG_LEN" and "cmd \<in> set ack_cmds"
  shows "\<exists>m' f. nni_mqtt_pubres_header_encode m cmd = Some (0, m') \<and>
    holds m' (f # write_var_loop 0 (length b)) b \<and> f AND 0xF0 = cmd"
proof -
  let ?f = "if cmd = CMD_PUBREL then cmd OR 0x02 else cmd"
  let ?v = "write_var_loop 0 (length b)"
  let ?m1 = "snd (nni_msg_header_append m [?f] 1)"
  let ?m2 = "snd (nni_msg_header_append ?m1 ?v (length ?v))"
  have l: "length ?v \<le> 4" by (rule length_write_var_le [OF assms(2)])
  have w: "wrap32 (nni_msg_len m) = length b" using holds_len [OF assms(1)] assms(2) by simp
  have wf: "msg_wf m" "m_header_len m = 0" "nni_msg_header m = []" "nni_msg_body m = b"
    using assms(1) length_nni_msg_header [of m] by (simp_all add: holds_def nni_msg_header_len_def)
  have 1: "msg_wf ?m1" "nni_msg_header ?m1 = [?f]" "m_body ?m1 = m_body m"
    using nni_msg_header_append_ok [of m 1 "[?f]"] wf by simp_all
  have "m_header_len ?m1 = 1"
    using 1(2) length_nni_msg_header [OF 1(1)] by (simp add: nni_msg_header_len_def)
  then have "holds ?m2 (?f # ?v) b"
    using nni_msg_header_append_ok [of ?m1 "length ?v" ?v] 1 l wf(4) by (simp add: holds_def nni_msg_body_def)
  moreover have "nni_mqtt_pubres_header_encode m cmd = Some (0, ?m2)"
    using l by (simp add: nni_mqtt_pubres_header_encode_def w write_variable_length_value_small [OF assms(2)] Let_def)
  moreover have "?f AND 0xF0 = cmd" using assms(3) by (auto simp: ack_cmds_def)
  ultimately show ?thesis by blast
qed

lemma pubres_decode_ok:
  assumes "mem_ok al" and "ack_props_ok cmd (ack_list prop)" and "cmd \<in> set ack_cmds"
    and "holds m (f # v) (ack_bytes packet_id reason prop)" and "f AND 0xF0 = cmd"
  shows "nni_mqtt_pubres_decode True al m id0 reason0 MQTT_PROTOCOL_VERSION_v5 =
    Some (0, packet_id, if reason = 0 \<and> prop = None then reason0 else reason,
      if ack_list prop = [] then None else Some (map (as_copy False) (ack_list prop)))"
proof (cases "reason = 0 \<and> prop = None")
  case True
  then show ?thesis
    using assms(4) u16_codec.dec_enc [of packet_id "[]"]
    by (simp add: nni_mqtt_pubres_decode_def holds_def ack_bytes_def ack_list_def)
next
  case False
  let ?ps = "ack_list prop" and ?e = "props_enc (ack_list prop)"
  let ?pre = "NNI_PUT16 packet_id @ [reason]"
  have ok: "\<forall>p \<in> set (map (as_copy False) ?ps). prop_ok p \<and> p_is_copy p = False" "length ?e \<le> MQTT_MAX_MSG_LEN"
      "accepted cmd (\<lambda>_. Some NNG_MQTT_SUCCESS) ?ps"
    using assms(2) by (auto simp: ack_props_ok_def list_all_iff)
  have wf: "msg_wf m" using assms(4) by (simp add: holds_def)
  have b: "nni_msg_body m = ?pre @ write_var_loop 0 (length ?e) @ props_enc (map (as_copy False) ?ps) @ []"
    using assms(4) False by (auto simp: holds_def ack_bytes_def Let_def)
  have d: "decode_properties True al m 3 False =
      Some (if ?ps = [] then None else Some (map (as_copy False) ?ps), 3 + length (write_var_loop 0 (length ?e)) + length ?e, length ?e)"
    using decode_buf_properties_ok [OF TrueI assms(1) ok(1) _ ok(2) b] arg_cong [OF b, of length] wf
    by (simp add: decode_properties_def)
  have t: "nni_msg_get_type m = cmd" "cmd \<noteq> 0"
    using holds_type [OF assms(4)] assms(3,5) by (auto simp: ack_cmds_def)
  have "check_loop (check_rule (Some m) cmd) [] (map (as_copy False) ?ps) =
      check_loop (check_rule (Some (zero_msg :: mqtt_nng_msg)) cmd) [] ?ps"
    using ok(3) by (intro check_loop_map) (auto simp: accepted_def list_all_iff check_rule_other)
  then have c: "check_properties (if ?ps = [] then None else Some (map (as_copy False) ?ps)) (Some m) = Some NNG_MQTT_SUCCESS"
    using ok(3) t by (simp add: check_properties_def accepted_def Let_def)
  show ?thesis
    using False b d c ok(2) u16_codec.dec_enc [of packet_id "reason # write_var_loop 0 (length ?e) @ ?e"]
    by (auto simp: nni_mqtt_pubres_decode_def)
qed


definition reason_prop :: property where
  "reason_prop = \<lparr>p_id = REASON_STRING, p_is_copy = False, p_value = V_str \<lparr>blen = 1, bbuf = Some [0x78]\<rparr>\<rparr>"


end
