(* ===== verification/Utf8.thy ===== *)
theory Utf8
  imports Nng_Prelude
begin

text \<open>
  The strings of the broker's parser \<^verbatim>\<open>mqtt_parser.c\<close>: the check for well-formed UTF-8.
\<close>

section \<open>The check\<close>

abbreviation ERR_SUCCESS :: int where "ERR_SUCCESS \<equiv> 0"
abbreviation ERR_INVAL :: int where "ERR_INVAL \<equiv> 3"
abbreviation ERR_MALFORMED_UTF8 :: int where "ERR_MALFORMED_UTF8 \<equiv> 18"

text \<open>The length of a sequence and the bits of its first byte, or \<^const>\<open>None\<close> for a byte that begins no sequence.\<close>

definition utf8_lead :: "u8 \<Rightarrow> (nat \<times> nat) option" where
  "utf8_lead c =
     (if c = 0 then None
      else if c \<le> 0x7f then Some (1, unat c)
      else if c AND 0xE0 = 0xC0 then (if c = 0xC0 \<or> c = 0xC1 then None else Some (2, unat (c AND 0x1F)))
      else if c AND 0xF0 = 0xE0 then Some (3, unat (c AND 0x0F))
      else if c AND 0xF8 = 0xF0 then (if c > 0xF4 then None else Some (4, unat (c AND 0x07)))
      else None)"

text \<open>The continuation bytes; the bytes are known to be there.\<close>

fun utf8_cont :: "nat \<Rightarrow> bytes \<Rightarrow> nat \<Rightarrow> (nat \<times> bytes) option" where
  "utf8_cont 0 b codepoint = Some (codepoint, b)"
| "utf8_cont (Suc n) [] codepoint = None"
| "utf8_cont (Suc n) (c # b) codepoint =
     (if c AND 0xC0 \<noteq> 0x80 then None else utf8_cont n b (push_bit 6 codepoint OR unat (c AND 0x3F)))"

definition utf8_refused :: "nat \<Rightarrow> nat \<Rightarrow> bool" where
  "utf8_refused codelen codepoint \<longleftrightarrow>
     codepoint \<ge> 0xD800 \<and> codepoint \<le> 0xDFFF \<or>
     codelen = 3 \<and> codepoint < 0x0800 \<or>
     codelen = 4 \<and> (codepoint < 0x10000 \<or> codepoint > 0x10FFFF) \<or>
     codepoint \<ge> 0xFDD0 \<and> codepoint \<le> 0xFDEF \<or>
     codepoint AND 0xFFFF = 0xFFFE \<or> codepoint AND 0xFFFF = 0xFFFF \<or>
     codepoint \<le> 0x001F \<or> codepoint \<ge> 0x007F \<and> codepoint \<le> 0x009F"

text \<open>One round of the outer loop: the bytes behind the sequence. \<open>len\<close> is the length of the whole string.\<close>

definition utf8_step :: "nat \<Rightarrow> bytes \<Rightarrow> bytes option" where
  "utf8_step len b =
     (case utf8_lead (hd b) of
        None \<Rightarrow> None
      | Some (codelen, codepoint) \<Rightarrow>
          if length b < codelen then None
          else
            (case utf8_cont (if len > 1 then codelen - 1 else 0) (tl b) codepoint of
               None \<Rightarrow> None
             | Some (codepoint, r) \<Rightarrow> if utf8_refused codelen codepoint then None else Some r))"

lemma utf8_cont_length: "utf8_cont n b c = Some (d, r) \<Longrightarrow> length r \<le> length b"
  by (induction n b c rule: utf8_cont.induct) (auto split: if_splits)

lemma utf8_step_length: "b \<noteq> [] \<Longrightarrow> utf8_step len b = Some r \<Longrightarrow> length r < length b"
  using utf8_cont_length [of _ "tl b"]
  by (fastforce simp: utf8_step_def neq_Nil_conv split: option.splits if_splits)

function utf8_loop :: "nat \<Rightarrow> bytes \<Rightarrow> int" where
  "utf8_loop len b =
     (if b = [] then ERR_SUCCESS
      else (case utf8_step len b of None \<Rightarrow> ERR_MALFORMED_UTF8 | Some r \<Rightarrow> utf8_loop len r))"
  by auto

termination
  by (relation "measure (\<lambda>(len, b). length b)") (auto dest: utf8_step_length)

declare utf8_loop.simps [simp del]

text \<open>The pointer with its length is the list of the bytes of the string.\<close>

definition utf8_check :: "bytes option \<Rightarrow> int" where
  "utf8_check str =
     (case str of
        None \<Rightarrow> ERR_INVAL
      | Some b \<Rightarrow> if length b > 65535 then ERR_INVAL else utf8_loop (length b) b)"

section \<open>The encoding it accepts\<close>

text \<open>UTF-8 as its definition has it: the bits of a code point spread over one to four bytes.\<close>

definition utf8_encode :: "nat \<Rightarrow> bytes" where
  "utf8_encode c =
     map of_nat
       (if c < 0x80 then [c]
        else if c < 0x800 then [0xC0 + c div 64, 0x80 + c mod 64]
        else if c < 0x10000 then [0xE0 + c div 4096, 0x80 + c div 64 mod 64, 0x80 + c mod 64]
        else [0xF0 + c div 262144, 0x80 + c div 4096 mod 64, 0x80 + c div 64 mod 64, 0x80 + c mod 64])"

text \<open>
  The characters of the broker: the code points of Unicode without the surrogates, the control
  characters and the code points that never are characters.
\<close>

definition mqtt_char :: "nat \<Rightarrow> bool" where
  "mqtt_char c \<longleftrightarrow>
     c \<le> 0x10FFFF \<and> c \<notin> {0xD800..0xDFFF} \<and> c \<notin> {0..0x1F} \<and> c \<notin> {0x7F..0x9F} \<and>
     c \<notin> {0xFDD0..0xFDEF} \<and> c mod 0x10000 \<notin> {0xFFFE, 0xFFFF}"



text \<open>A byte read as a number; a mask takes a field of its digits.\<close>

lemma and_field: "(n :: nat) AND push_bit k (mask j) = 2 ^ k * (n div 2 ^ k mod 2 ^ j)"
proof -
  have "n AND push_bit k (mask j) = push_bit k (take_bit j (drop_bit k n))"
    by (rule bit_eqI) (auto simp: bit_simps)
  then show ?thesis by (simp add: push_bit_eq_mult take_bit_eq_mod drop_bit_eq_div)
qed

lemma byte_field:
  "unat (c AND 0xE0) = 32 * (unat c div 32)" "unat (c AND 0xF0) = 16 * (unat c div 16)"
  "unat (c AND 0xF8) = 8 * (unat c div 8)" "unat (c AND 0xC0) = 64 * (unat c div 64)"
  "unat (c AND 0x1F) = unat c - 32 * (unat c div 32)" "unat (c AND 0x0F) = unat c - 16 * (unat c div 16)"
  "unat (c AND 0x07) = unat c - 8 * (unat c div 8)" "unat (c AND 0x3F) = unat c - 64 * (unat c div 64)" for c :: u8
proof -
  have n: "unat c < 256" using unsigned_less [of c] by simp
  show "unat (c AND 0xE0) = 32 * (unat c div 32)" "unat (c AND 0xF0) = 16 * (unat c div 16)"
    "unat (c AND 0xF8) = 8 * (unat c div 8)" "unat (c AND 0xC0) = 64 * (unat c div 64)"
    "unat (c AND 0x1F) = unat c - 32 * (unat c div 32)" "unat (c AND 0x0F) = unat c - 16 * (unat c div 16)"
    "unat (c AND 0x07) = unat c - 8 * (unat c div 8)" "unat (c AND 0x3F) = unat c - 64 * (unat c div 64)"
    using n and_field [of "unat c" 5 3] and_field [of "unat c" 4 4] and_field [of "unat c" 3 5] and_field [of "unat c" 6 2]
      and_field [of "unat c" 0 5] and_field [of "unat c" 0 4] and_field [of "unat c" 0 3] and_field [of "unat c" 0 6]
    by (simp_all add: unsigned_and_eq mask_eq_exp_minus_1 minus_mult_div_eq_mod)
qed

definition lead_at :: "nat \<Rightarrow> (nat \<times> nat) option" where
  "lead_at n =
     (if n = 0 then None
      else if n < 0x80 then Some (1, n)
      else if n < 0xC2 then None
      else if n < 0xE0 then Some (2, n - 0xC0)
      else if n < 0xF0 then Some (3, n - 0xE0)
      else if n < 0xF5 then Some (4, n - 0xF0)
      else None)"

lemma utf8_lead_at: "utf8_lead c = lead_at (unat c)"
proof -
  have n: "unat c < 256" using unsigned_less [of c] by simp
  show ?thesis
    using n
    by (auto simp: utf8_lead_def lead_at_def word_unat_eq_iff word_le_nat_alt word_less_nat_alt byte_field)
qed

definition is_cont :: "u8 \<Rightarrow> bool" where
  "is_cont c \<longleftrightarrow> 0x80 \<le> unat c \<and> unat c < 0xC0"

lemma utf8_cont_at:
  "c AND 0xC0 \<noteq> 0x80 \<longleftrightarrow> unat c < 0x80 \<or> 0xC0 \<le> unat c"
  "0x80 \<le> unat c \<Longrightarrow> unat c < 0xC0 \<Longrightarrow> unat (c AND 0x3F) = unat c - 0x80"
  for c :: u8
proof -
  show "c AND 0xC0 \<noteq> 0x80 \<longleftrightarrow> unat c < 0x80 \<or> 0xC0 \<le> unat c"
    by (auto simp: word_unat_eq_iff byte_field)
  have "unat c div 64 = 2" if "0x80 \<le> unat c" "unat c < 0xC0" using that by (intro div_nat_eqI) simp_all
  then show "0x80 \<le> unat c \<Longrightarrow> unat c < 0xC0 \<Longrightarrow> unat (c AND 0x3F) = unat c - 0x80"
    by (simp add: byte_field)
qed

lemma utf8_join: "x < 64 \<Longrightarrow> push_bit 6 c OR x = c * 64 + (x :: nat)"
proof -
  assume "x < 64"
  then have "take_bit 6 x = x" by (simp add: take_bit_nat_eq_self)
  then have "push_bit 6 c OR x = push_bit 6 c + x"
    by (subst disjunctive_add) (metis bit_push_bit_iff_nat bit_take_bit_iff not_less, simp)
  then show ?thesis by (simp add: push_bit_eq_mult)
qed


text \<open>The continuation bytes append six bits each.\<close>

fun cont_value :: "bytes \<Rightarrow> nat \<Rightarrow> nat" where
  "cont_value [] c = c"
| "cont_value (x # xs) c = cont_value xs (c * 64 + (unat x - 0x80))"

lemma utf8_cont_eq:
  "utf8_cont n b c =
     (if n \<le> length b \<and> list_all is_cont (take n b)
      then Some (cont_value (take n b) c, drop n b) else None)"
  by (induction n b c rule: utf8_cont.induct) (auto simp: utf8_cont_at utf8_join is_cont_def not_less)

lemma mod_65536: "c AND 0xFFFF = c mod 0x10000" for c :: nat
  using and_field [of c 0 16] by (simp add: mask_eq_exp_minus_1)

lemma utf8_refused_iff:
  "\<not> utf8_refused l c \<longleftrightarrow>
     c \<notin> {0xD800..0xDFFF} \<and> c \<notin> {0..0x1F} \<and> c \<notin> {0x7F..0x9F} \<and> c \<notin> {0xFDD0..0xFDEF} \<and>
     c mod 0x10000 \<notin> {0xFFFE, 0xFFFF} \<and> (l = 3 \<longrightarrow> 0x800 \<le> c) \<and> (l = 4 \<longrightarrow> 0x10000 \<le> c \<and> c \<le> 0x10FFFF)"
  by (simp add: utf8_refused_def mod_65536 not_le not_less) blast

lemma utf8_step_eq:
  assumes "length b \<le> len"
  shows "utf8_step len b =
    (case lead_at (unat (hd b)) of
       None \<Rightarrow> None
     | Some (l, c) \<Rightarrow>
         if l \<le> length b \<and> list_all is_cont (take (l - 1) (tl b)) \<and> \<not> utf8_refused l (cont_value (take (l - 1) (tl b)) c)
         then Some (drop (l - 1) (tl b)) else None)"
proof -
  have l: "(if len > 1 then l - 1 else 0) = l - 1" if "l \<le> length b" for l using that assms by auto
  have t: "l - 1 \<le> length (tl b)" if "l \<le> length b" for l using that by simp
  show ?thesis
    by (cases "lead_at (unat (hd b))") (auto simp: utf8_step_def utf8_lead_at utf8_cont_eq l t simp del: One_nat_def)
qed


lemma list_cases_length:
  "length ys = Suc 0 \<longleftrightarrow> (\<exists>a. ys = [a])" "length ys = 2 \<longleftrightarrow> (\<exists>a b. ys = [a, b])" "length ys = 3 \<longleftrightarrow> (\<exists>a b c. ys = [a, b, c])"
  by (auto simp: length_Suc_conv eval_nat_numeral)

lemma lead_at_Some:
  "lead_at n = Some (l, v) \<longleftrightarrow>
     l = 1 \<and> v = n \<and> 0 < n \<and> n < 0x80 \<or> l = 2 \<and> n = 0xC0 + v \<and> 2 \<le> v \<and> v < 32 \<or>
     l = 3 \<and> n = 0xE0 + v \<and> v < 16 \<or> l = 4 \<and> n = 0xF0 + v \<and> v < 5"
  by (auto simp: lead_at_def)

lemma is_cont_value: "is_cont y \<Longrightarrow> \<exists>k. k < 64 \<and> y = of_nat (0x80 + k) \<and> unat y = 0x80 + k"
  unfolding is_cont_def by (rule exI [of _ "unat y - 0x80"]) auto

lemma unat_byte: "n < 256 \<Longrightarrow> unat (of_nat n :: u8) = n"
  by (simp add: unsigned_of_nat take_bit_nat_eq_self)

lemma digit:
  "k < 64 \<Longrightarrow> (a * 64 + k) div 64 = a" "k < 64 \<Longrightarrow> (a * 64 + k) mod 64 = k" for a k :: nat
  by simp_all

lemma digits: "c div 4096 = c div 64 div 64" "c div 262144 = c div 64 div 64 div 64" for c :: nat
  by (simp_all add: div_mult2_eq [symmetric])

lemma utf8_encode_digits:
  "v < 0x80 \<Longrightarrow> utf8_encode v = [of_nat v]"
  "k < 64 \<Longrightarrow> 2 \<le> v \<Longrightarrow> v < 32 \<Longrightarrow> utf8_encode (v * 64 + k) = [of_nat (0xC0 + v), of_nat (0x80 + k)]"
  "j < 64 \<Longrightarrow> k < 64 \<Longrightarrow> 0x800 \<le> (v * 64 + j) * 64 + k \<Longrightarrow> v < 16 \<Longrightarrow>
     utf8_encode ((v * 64 + j) * 64 + k) = [of_nat (0xE0 + v), of_nat (0x80 + j), of_nat (0x80 + k)]"
  "i < 64 \<Longrightarrow> j < 64 \<Longrightarrow> k < 64 \<Longrightarrow> 0x10000 \<le> ((v * 64 + i) * 64 + j) * 64 + k \<Longrightarrow>
     utf8_encode (((v * 64 + i) * 64 + j) * 64 + k) =
       [of_nat (0xF0 + v), of_nat (0x80 + i), of_nat (0x80 + j), of_nat (0x80 + k)]"
proof -
  show "v < 0x80 \<Longrightarrow> utf8_encode v = [of_nat v]"
    by (simp add: utf8_encode_def)
  show "k < 64 \<Longrightarrow> 2 \<le> v \<Longrightarrow> v < 32 \<Longrightarrow> utf8_encode (v * 64 + k) = [of_nat (0xC0 + v), of_nat (0x80 + k)]"
    unfolding utf8_encode_def digit by (simp add: digit)
  assume j: "j < 64" and k: "k < 64"
  show "utf8_encode ((v * 64 + j) * 64 + k) = [of_nat (0xE0 + v), of_nat (0x80 + j), of_nat (0x80 + k)]"
    if c: "0x800 \<le> (v * 64 + j) * 64 + k" "v < 16"
  proof -
    have "(v * 64 + j) * 64 + k < 0x10000" using j k c(2) by simp
    then show ?thesis using c(1) unfolding utf8_encode_def digits digit [OF j] digit [OF k] by simp
  qed
  show "utf8_encode (((v * 64 + i) * 64 + j) * 64 + k) =
      [of_nat (0xF0 + v), of_nat (0x80 + i), of_nat (0x80 + j), of_nat (0x80 + k)]"
    if i: "i < 64" and c: "0x10000 \<le> ((v * 64 + i) * 64 + j) * 64 + k"
    using c unfolding utf8_encode_def digits digit [OF i] digit [OF j] digit [OF k] by simp
qed

lemma cont_digits:
  "is_cont y \<longleftrightarrow> (\<exists>k. k < 64 \<and> y = of_nat (0x80 + k))"
  "k < 64 \<Longrightarrow> cont_value (of_nat (0x80 + k) # ys) v = cont_value ys (v * 64 + k)"
proof -
  have u: "unat (of_nat (0x80 + k) :: u8) = 0x80 + k" if "k < 64" for k using that by (intro unat_byte) simp
  have "is_cont y" if "k < 64" "y = of_nat (0x80 + k)" for k
    unfolding is_cont_def that(2) u [OF that(1)] using that(1) by simp
  then show "is_cont y \<longleftrightarrow> (\<exists>k. k < 64 \<and> y = of_nat (0x80 + k))" using is_cont_value by blast
  show "k < 64 \<Longrightarrow> cont_value (of_nat (0x80 + k) # ys) v = cont_value ys (v * 64 + k)"
    by (simp only: cont_value.simps u diff_add_inverse)
qed

text \<open>
  The sequences that a round of the loop accepts, a first byte \<open>x\<close> and continuation bytes \<open>ys\<close>, are the
  encodings of the characters.
\<close>

definition good_seq :: "u8 \<Rightarrow> bytes \<Rightarrow> nat \<Rightarrow> bool" where
  "good_seq x ys c \<longleftrightarrow> (\<exists>l v. lead_at (unat x) = Some (l, v) \<and> length ys = l - 1 \<and> list_all is_cont ys \<and>
     c = cont_value ys v \<and> \<not> utf8_refused l c)"

lemma good_seq_encode:
  assumes "good_seq x ys c"
  shows "mqtt_char c \<and> utf8_encode c = x # ys"
proof -
  have x: "of_nat (unat x) = x" by simp
  obtain l v where s: "lead_at (unat x) = Some (l, v)" "length ys = l - 1" "list_all is_cont ys"
    "c = cont_value ys v" "\<not> utf8_refused l c" using assms by (auto simp: good_seq_def)
  consider "l = 1" "unat x = v" "v < 0x80" | "l = 2" "unat x = 0xC0 + v" "2 \<le> v" "v < 32"
    | "l = 3" "unat x = 0xE0 + v" "v < 16" | "l = 4" "unat x = 0xF0 + v"
    using s(1) by (auto simp: lead_at_Some)
  then show ?thesis
  proof cases
    case 1
    then show ?thesis using s x by (simp add: utf8_encode_digits mqtt_char_def utf8_refused_iff)
  next
    case 2
    then obtain k where k: "k < 64" "ys = [of_nat (0x80 + k)]"
      using s(2,3) by (auto simp: list_cases_length cont_digits)
    have c: "c = v * 64 + k" using s(4) k(1) by (simp only: k(2) cont_digits(2) cont_value.simps(1))
    moreover have "c < 0x800" using c 2(4) k(1) by simp
    ultimately show ?thesis
      using s(5) x utf8_encode_digits(2) [OF k(1) 2(3,4)] unfolding 2(2) k(2)
      by (simp add: mqtt_char_def utf8_refused_iff)
  next
    case 3
    then obtain j k where k: "j < 64" "k < 64" "ys = [of_nat (0x80 + j), of_nat (0x80 + k)]"
      using s(2,3) by (auto simp: list_cases_length cont_digits)
    have c: "c = (v * 64 + j) * 64 + k" using s(4) k(1,2) by (simp only: k(3) cont_digits(2) cont_value.simps(1))
    moreover have "c < 0x10000" using c 3(3) k(1,2) by simp
    moreover have "0x800 \<le> c" using s(5) 3(1) by (simp add: utf8_refused_iff)
    ultimately show ?thesis
      using s(5) x utf8_encode_digits(3) [OF k(1,2) _ 3(3)] unfolding 3(2) k(3)
      by (simp add: mqtt_char_def utf8_refused_iff)
  next
    case 4
    then obtain i j k where k: "i < 64" "j < 64" "k < 64" "ys = [of_nat (0x80 + i), of_nat (0x80 + j), of_nat (0x80 + k)]"
      using s(2,3) by (auto simp: list_cases_length cont_digits)
    have c: "c = ((v * 64 + i) * 64 + j) * 64 + k" using s(4) k(1-3) by (simp only: k(4) cont_digits(2) cont_value.simps(1))
    moreover have "0x10000 \<le> c" using s(5) 4(1) by (simp add: utf8_refused_iff)
    ultimately show ?thesis
      using s(5) x utf8_encode_digits(4) [OF k(1-3)] unfolding 4(2) k(4)
      by (simp add: mqtt_char_def utf8_refused_iff 4(1))
  qed
qed


lemma is_cont_byte: "k < 64 \<Longrightarrow> is_cont (of_nat (0x80 + k))"
  using cont_digits(1) by blast

lemma split_digit:
  obtains w k where "k < 64" "c = w * 64 + (k :: nat)"
  using div_mult_mod_eq [of c 64] that [of "c mod 64" "c div 64"] by simp

lemma good_seqI:
  assumes "mqtt_char c" and "n < 256" and "lead_at n = Some (l, v)" and "length ys = l - 1" and "list_all is_cont ys"
    and "cont_value ys v = c" and "l = 3 \<longrightarrow> 0x800 \<le> c" and "l = 4 \<longrightarrow> 0x10000 \<le> c"
  shows "good_seq (of_nat n) ys c"
proof -
  have "\<not> utf8_refused l c" unfolding utf8_refused_iff using assms(1,7,8) by (simp add: mqtt_char_def)
  then show ?thesis
    unfolding good_seq_def unat_byte [OF assms(2)] using assms(3-6) by blast
qed

lemma encode_good_seq:
  assumes "mqtt_char c"
  shows "\<exists>x ys. utf8_encode c = x # ys \<and> good_seq x ys c"
proof -
  obtain w k where w: "k < 64" "c = w * 64 + k" by (rule split_digit)
  obtain t j where t: "j < 64" "w = t * 64 + j" by (rule split_digit)
  obtain r i where r: "i < 64" "t = r * 64 + i" by (rule split_digit)
  consider "c < 0x80" | "0x80 \<le> c" "c < 0x800" | "0x800 \<le> c" "c < 0x10000" | "0x10000 \<le> c" by linarith
  then show ?thesis
  proof cases
    case 1
    then have "0 < c" using assms by (simp add: mqtt_char_def)
    then have "good_seq (of_nat c) [] c" using assms 1 by (intro good_seqI [where l = 1 and v = c]) (simp_all add: lead_at_Some)
    then show ?thesis using utf8_encode_digits(1) [OF 1] by blast
  next
    case 2
    then have v: "2 \<le> w" "w < 32" using w by simp_all
    then have "good_seq (of_nat (0xC0 + w)) [of_nat (0x80 + k)] c"
      by (intro good_seqI [OF assms, where l = 2 and v = w]) (simp_all only: lead_at_Some list.pred_inject simp_thms is_cont_byte w cont_digits(2), simp_all)
    then show ?thesis using utf8_encode_digits(2) [OF w(1) v] w(2) by blast
  next
    case 3
    then have v: "t < 16" using w t by simp
    then have "good_seq (of_nat (0xE0 + t)) [of_nat (0x80 + j), of_nat (0x80 + k)] c"
      using 3 by (intro good_seqI [OF assms, where l = 3 and v = t]) (simp_all only: lead_at_Some list.pred_inject simp_thms is_cont_byte w t cont_digits(2), simp_all)
    then show ?thesis using utf8_encode_digits(3) [OF t(1) w(1) _ v] w(2) t(2) 3(1) by blast
  next
    case 4
    then have v: "r < 5" using w t r assms by (simp add: mqtt_char_def)
    then have "good_seq (of_nat (0xF0 + r)) [of_nat (0x80 + i), of_nat (0x80 + j), of_nat (0x80 + k)] c"
      using 4 by (intro good_seqI [OF assms, where l = 4 and v = r]) (simp_all only: lead_at_Some list.pred_inject simp_thms is_cont_byte w t r cont_digits(2), simp_all)
    then show ?thesis using utf8_encode_digits(4) [OF r(1) t(1) w(1)] w(2) t(2) r(2) 4 by blast
  qed
qed

text \<open>So a round of the loop takes one character off the string.\<close>

lemma utf8_step_char:
  assumes "b \<noteq> []" and "length b \<le> len"
  shows "utf8_step len b = Some r \<longleftrightarrow> (\<exists>c. mqtt_char c \<and> b = utf8_encode c @ r)"
proof
  assume "utf8_step len b = Some r"
  then obtain l v where s: "lead_at (unat (hd b)) = Some (l, v)" "l \<le> length b" "list_all is_cont (take (l - 1) (tl b))"
      "\<not> utf8_refused l (cont_value (take (l - 1) (tl b)) v)" "r = drop (l - 1) (tl b)"
    by (auto simp: utf8_step_eq [OF assms(2)] split: option.splits if_splits)
  have "good_seq (hd b) (take (l - 1) (tl b)) (cont_value (take (l - 1) (tl b)) v)"
    unfolding good_seq_def using s(1-4) by (intro exI [of _ l] exI [of _ v]) simp
  from good_seq_encode [OF this] show "\<exists>c. mqtt_char c \<and> b = utf8_encode c @ r"
    using assms(1) s(5) by (intro exI [of _ "cont_value (take (l - 1) (tl b)) v"]) simp
next
  assume "\<exists>c. mqtt_char c \<and> b = utf8_encode c @ r"
  then obtain c x ys where c: "b = x # ys @ r" "good_seq x ys c" using encode_good_seq by fastforce
  then obtain l v where s: "lead_at (unat x) = Some (l, v)" "length ys = l - 1" "list_all is_cont ys"
      "\<not> utf8_refused l (cont_value ys v)" by (auto simp: good_seq_def)
  have "1 \<le> l" using s(1) by (auto simp: lead_at_Some)
  then have "l \<le> length b" "take (l - 1) (tl b) = ys" "drop (l - 1) (tl b) = r" "hd b = x" using s(2) by (simp_all add: c(1))
  then show "utf8_step len b = Some r" using s by (simp add: utf8_step_eq [OF assms(2)])
qed

definition utf8_text :: "bytes \<Rightarrow> bool" where
  "utf8_text b \<longleftrightarrow> (\<exists>cs. list_all mqtt_char cs \<and> b = concat (map utf8_encode cs))"

lemma utf8_text_Nil: "utf8_text []"
  unfolding utf8_text_def by (rule exI [of _ "[]"]) simp

lemma utf8_text_step:
  assumes "b \<noteq> []" and "length b \<le> len"
  shows "utf8_text b \<longleftrightarrow> (\<exists>r. utf8_step len b = Some r \<and> utf8_text r)"
proof
  assume "utf8_text b"
  then obtain cs where cs: "list_all mqtt_char cs" "b = concat (map utf8_encode cs)" by (auto simp: utf8_text_def)
  with assms(1) obtain c ds where "cs = c # ds" by (cases cs) simp_all
  with cs show "\<exists>r. utf8_step len b = Some r \<and> utf8_text r"
    using utf8_step_char [OF assms] by (auto simp: utf8_text_def)
next
  assume "\<exists>r. utf8_step len b = Some r \<and> utf8_text r"
  then obtain c cs where "mqtt_char c" "list_all mqtt_char cs" "b = utf8_encode c @ concat (map utf8_encode cs)"
    using utf8_step_char [OF assms] by (auto simp: utf8_text_def)
  then show "utf8_text b" unfolding utf8_text_def by (intro exI [of _ "c # cs"]) simp
qed

lemma utf8_loop_text:
  "length b \<le> len \<Longrightarrow> utf8_loop len b = (if utf8_text b then ERR_SUCCESS else ERR_MALFORMED_UTF8)"
proof (induction len b rule: utf8_loop.induct)
  case (1 len b)
  show ?case
  proof (cases "b = []")
    case False
    show ?thesis
    proof (cases "utf8_step len b")
      case None
      then show ?thesis using False utf8_text_step [OF False "1.prems"] by (simp add: utf8_loop.simps [of len b])
    next
      case (Some r)
      have "length r \<le> len" using utf8_step_length [OF False Some] "1.prems" by simp
      then show ?thesis
        using "1.IH" [OF False Some] Some False utf8_text_step [OF False "1.prems"] by (simp add: utf8_loop.simps [of len b])
    qed
  qed (simp add: utf8_loop.simps utf8_text_Nil)
qed

text \<open>C7: \<^verbatim>\<open>utf8_check\<close> accepts exactly the texts of at most 65535 bytes: the concatenations of the UTF-8 encodings of
  Unicode code points other than surrogates, control characters and noncharacters. Overlong, truncated
  and out-of-range sequences are all reported as malformed.\<close>

theorem utf8_check_exact:
  "utf8_check (Some b) =
     (if length b > 65535 then ERR_INVAL
      else if \<exists>cs. list_all mqtt_char cs \<and> b = concat (map utf8_encode cs) then ERR_SUCCESS
      else ERR_MALFORMED_UTF8)"
  by (simp add: utf8_check_def utf8_loop_text utf8_text_def)

end
