(* ===== verification/TopicFilter.thy ===== *)
theory TopicFilter
  imports MqttPrim
begin

text \<open>
  The matching of topics against the filters of subscriptions in \<^verbatim>\<open>mqtt_parser.c\<close>. A string of C is the list
  of the bytes before its terminating zero.
\<close>

section \<open>The functions\<close>

abbreviation SLASH :: u8 where "SLASH \<equiv> 0x2F"
abbreviation HASH :: bytes where "HASH \<equiv> [0x23]"
abbreviation PLUS :: bytes where "PLUS \<equiv> [0x2B]"

definition strchr :: "bytes \<Rightarrow> u8 \<Rightarrow> bytes option" where
  "strchr s c = (let r = dropWhile (\<lambda>x. x \<noteq> c) s in if r = [] then None else Some r)"

lemma strchr_length: "strchr s c = Some r \<Longrightarrow> r \<noteq> [] \<and> length r \<le> length s"
  by (auto simp: strchr_def Let_def length_dropWhile_le split: if_splits)

function topic_count :: "bytes \<Rightarrow> nat" where
  "topic_count t = (case strchr t SLASH of None \<Rightarrow> 1 | Some r \<Rightarrow> Suc (topic_count (tl r)))"
  by auto

termination
  by (relation "measure length") (auto dest!: strchr_length simp: le_less_trans [of _ _ "Suc _"] neq_Nil_conv)

declare topic_count.simps [simp del]

text \<open>
  The levels go into an array of pointers, whose cells hold the strings allocated for them. \<^verbatim>\<open>zmalloc\<close> aborts when
  memory is exhausted, and a store behind the array is undefined.
\<close>

definition put_level :: "allocator \<Rightarrow> bytes option list \<Rightarrow> nat \<Rightarrow> bytes \<Rightarrow> bytes option list option" where
  "put_level al topic_queue row s =
     (if al (length s + 1) \<and> row < length topic_queue then Some (topic_queue[row := Some s]) else None)"

function topic_parse_loop :: "allocator \<Rightarrow> bytes option list \<Rightarrow> nat \<Rightarrow> bytes \<Rightarrow> bytes option list option" where
  "topic_parse_loop al topic_queue row b_pos =
     (case strchr b_pos SLASH of
        Some pos \<Rightarrow>
          (case put_level al topic_queue row (take (length b_pos - length pos) b_pos) of
             None \<Rightarrow> None
           | Some topic_queue \<Rightarrow> topic_parse_loop al topic_queue (row + 1) (tl pos))
      | None \<Rightarrow>
          (case put_level al topic_queue row b_pos of
             None \<Rightarrow> None
           | Some topic_queue \<Rightarrow>
               if row + 1 < length topic_queue then Some (topic_queue[row + 1 := None]) else None))"
  by pat_completeness auto

termination
  by (relation "measure (\<lambda>(al, topic_queue, row, b_pos). length b_pos)")
    (auto dest!: strchr_length simp: le_less_trans [of _ _ "Suc _"] neq_Nil_conv)

declare topic_parse_loop.simps [simp del]

definition topic_parse :: "allocator \<Rightarrow> (nat \<Rightarrow> bytes option) \<Rightarrow> bytes \<Rightarrow> bytes option list option" where
  "topic_parse al junk topic =
     (let cnt = topic_count topic in
      if al (8 * (cnt + 1)) then topic_parse_loop al (map junk [0..<cnt + 1]) 0 topic else None)"

text \<open>The loop over both arrays: \<^verbatim>\<open>result\<close>, \<^verbatim>\<open>flag\<close>, \<^verbatim>\<open>*w_q\<close> and \<^verbatim>\<open>*n_q\<close> where it stops.\<close>

fun wildcard_loop ::
    "bytes option list \<Rightarrow> bytes option list \<Rightarrow> (bool \<times> bool \<times> bytes option \<times> bytes option) option" where
  "wildcard_loop (Some w # w_q) (Some n # n_q) =
     (if w \<noteq> n then
        (if w = HASH then Some (True, True, Some w, Some n)
         else if w \<noteq> PLUS then Some (False, False, Some w, Some n)
         else wildcard_loop w_q n_q)
      else wildcard_loop w_q n_q)"
| "wildcard_loop (w # w_q) (n # n_q) = Some (True, False, w, n)"
| "wildcard_loop w_q n_q = None"

definition wildcard_result :: "bool \<Rightarrow> bool \<Rightarrow> bytes option \<Rightarrow> bytes option \<Rightarrow> bool" where
  "wildcard_result result flag w n =
     (let flag = (if w = Some HASH then True else flag);
          flag = (if w = Some PLUS then False else flag) in
      if \<not> flag \<and> (w \<noteq> None \<or> n \<noteq> None) then False else result)"

definition check_ifwildcard :: "allocator \<Rightarrow> (nat \<Rightarrow> bytes option) \<Rightarrow> bytes \<Rightarrow> bytes \<Rightarrow> bool option" where
  "check_ifwildcard al junk w n =
     (case (topic_parse al junk w, topic_parse al junk n) of
        (Some w_q, Some n_q) \<Rightarrow>
          map_option (\<lambda>(result, flag, w, n). wildcard_result result flag w n) (wildcard_loop w_q n_q)
      | _ \<Rightarrow> None)"

definition topic_filter :: "allocator \<Rightarrow> (nat \<Rightarrow> bytes option) \<Rightarrow> bytes option \<Rightarrow> bytes option \<Rightarrow> bool option" where
  "topic_filter al junk origin input =
     (case (origin, input) of
        (Some origin, Some input) \<Rightarrow>
          if origin = input then Some True else check_ifwildcard al junk origin input
      | _ \<Rightarrow> Some False)"

text \<open>
  \<^verbatim>\<open>input\<close> is a pointer to bytes that need no terminator; \<^verbatim>\<open>strncpy\<close> stops at a zero, and reads outside when
  there is none among the bytes there are.
\<close>

definition topic_filtern ::
    "allocator \<Rightarrow> (nat \<Rightarrow> bytes option) \<Rightarrow> bytes option \<Rightarrow> bytes option \<Rightarrow> nat \<Rightarrow> bool option" where
  "topic_filtern al junk origin input n =
     (case (origin, input) of
        (Some origin, Some input) \<Rightarrow>
          if \<not> al (n + 1) \<or> length input < n \<and> 0 \<notin> set input then None
          else if length origin = n \<and> take n input = origin then Some True
          else check_ifwildcard al junk origin (takeWhile (\<lambda>x. x \<noteq> 0) (take n input))
      | _ \<Rightarrow> Some False)"

definition share_prefix :: bytes where
  "share_prefix = [0x24, 0x73, 0x68, 0x61, 0x72, 0x65, 0x2F]"

definition shared_filter_skip :: "bytes option \<Rightarrow> bytes option" where
  "shared_filter_skip flt =
     (case flt of
        None \<Rightarrow> None
      | Some f \<Rightarrow>
          if take 1 f \<noteq> [0x24] then Some f
          else if take 7 f \<noteq> share_prefix then Some f
          else
            (case strchr (drop 7 f) SLASH of
               None \<Rightarrow> Some f
             | Some pos \<Rightarrow> if tl pos = [] then Some f else Some (tl pos)))"

section \<open>Topics and filters of MQTT\<close>

text \<open>The levels of a topic, and when a filter matches: by level, \<^const>\<open>PLUS\<close> any level and \<^const>\<open>HASH\<close> any rest.\<close>

fun levels :: "bytes \<Rightarrow> bytes list" where
  "levels [] = [[]]"
| "levels (c # s) = (if c = SLASH then [] # levels s else (c # hd (levels s)) # tl (levels s))"

fun level_match :: "bytes list \<Rightarrow> bytes list \<Rightarrow> bool" where
  "level_match [] [] = True"
| "level_match [] (t # ts) = False"
| "level_match (f # fs) ts =
     (f = HASH \<and> fs = [] \<or>
      (case ts of [] \<Rightarrow> False | t # ts \<Rightarrow> (f = PLUS \<or> f = t) \<and> level_match fs ts))"

text \<open>A filter has \<^const>\<open>HASH\<close> only at its end, a topic not at all.\<close>

definition filter_ok :: "bytes \<Rightarrow> bool" where
  "filter_ok f \<longleftrightarrow> HASH \<notin> set (butlast (levels f))"

definition topic_ok :: "bytes \<Rightarrow> bool" where
  "topic_ok t \<longleftrightarrow> HASH \<notin> set (levels t)"

lemma levels_nonempty [simp]: "levels s \<noteq> []"
  by (cases s) simp_all

lemma levels_strchr:
  "levels s = (case strchr s SLASH of None \<Rightarrow> [s] | Some r \<Rightarrow> take (length s - length r) s # levels (tl r))"
proof (induction s)
  case (Cons c s)
  have "length (dropWhile (\<lambda>x. x \<noteq> SLASH) s) \<le> length s" by (rule length_dropWhile_le)
  then show ?case
    using Cons.IH by (auto simp: strchr_def Let_def Suc_diff_le split: option.splits if_splits)
qed (simp add: strchr_def)

lemma topic_count_levels: "topic_count t = length (levels t)"
proof (induction t rule: topic_count.induct)
  case (1 t)
  show ?case
    using 1 by (subst topic_count.simps, subst levels_strchr) (auto split: option.splits)
qed

lemma topic_parse_loop_levels:
  assumes "mem_ok al" and "length q = length done' + length (levels b) + 1" and "take (length done') q = done'"
  shows "topic_parse_loop al q (length done') b = Some (done' @ map Some (levels b) @ [None])"
  using assms(2,3)
proof (induction b arbitrary: q done' rule: topic_count.induct)
  case (1 b)
  have put: "put_level al q (length done') s = Some (done' @ Some s # drop (Suc (length done')) q)" for s
    using 1(2,3) assms(1) id_take_nth_drop [of "length done'" q]
    by (auto simp: put_level_def mem_ok_def list_update_append upd_conv_take_nth_drop)
  show ?case
  proof (cases "strchr b SLASH")
    case None
    then have l: "levels b = [b]" using levels_strchr [of b] by simp
    then have "length (drop (Suc (length done')) q) = Suc 0" using 1(2) by simp
    then obtain y where "drop (Suc (length done')) q = [y]" unfolding length_Suc_conv length_0_conv by blast
    then show ?thesis
      using put [of b] l by (subst topic_parse_loop.simps) (simp add: None list_update_append)
  next
    case (Some r)
    let ?s = "take (length b - length r) b"
    let ?q = "done' @ Some ?s # drop (Suc (length done')) q"
    have l: "levels b = ?s # levels (tl r)" using Some levels_strchr [of b] by simp
    have "topic_parse_loop al ?q (length (done' @ [Some ?s])) (tl r) =
        Some ((done' @ [Some ?s]) @ map Some (levels (tl r)) @ [None])"
      using 1(2) l by (intro "1.IH" [OF Some]) (auto)
    then show ?thesis
      using put [of ?s] l by (subst topic_parse_loop.simps) (simp add: Some)
  qed
qed


lemma topic_parse_levels: "mem_ok al \<Longrightarrow> topic_parse al junk t = Some (map Some (levels t) @ [None])"
  using topic_parse_loop_levels [of al "map junk [0..<topic_count t + 1]" "[]" t]
  by (simp add: topic_parse_def mem_ok_def topic_count_levels)

lemma wildcard_loop_levels:
  "HASH \<notin> set (butlast fs) \<Longrightarrow> HASH \<notin> set ts \<Longrightarrow>
     map_option (\<lambda>(result, flag, w, n). wildcard_result result flag w n)
       (wildcard_loop (map Some fs @ [None]) (map Some ts @ [None])) = Some (level_match fs ts)"
proof (induction fs ts rule: level_match.induct)
  case (3 f fs ts)
  have h: "fs = []" if "f = HASH" using 3(2) that by (cases "fs = []") simp_all
  have b: "HASH \<notin> set (butlast fs)" using 3(2) by (cases "fs = []") simp_all
  show ?case
  proof (cases ts)
    case Nil
    then show ?thesis using h by (cases "f = HASH") (simp_all add: wildcard_result_def)
  next
    case (Cons t us)
    then have u: "HASH \<notin> set us" "t \<noteq> HASH" using 3(3) by auto
    show ?thesis
    proof (cases "f = PLUS \<or> f = t")
      case True
      then have "f \<noteq> HASH" using u(2) by auto
      then show ?thesis using True "3.IH" [OF Cons b u(1)] by (auto simp: Cons)
    next
      case False
      then show ?thesis using h by (cases "f = HASH") (simp_all add: Cons wildcard_result_def)
    qed
  qed
qed (simp_all add: wildcard_result_def)

lemma level_match_refl: "level_match fs fs"
  by (induction fs) simp_all

lemma check_ifwildcard_levels:
  assumes "mem_ok al" and "filter_ok f" and "topic_ok t"
  shows "check_ifwildcard al junk f t = Some (level_match (levels f) (levels t))"
  using wildcard_loop_levels [of "levels f" "levels t"] assms
  by (simp add: check_ifwildcard_def topic_parse_levels filter_ok_def topic_ok_def)



end
