(* ===== verification/Crc.thy ===== *)
theory Crc
  imports Nng_Prelude
begin

text \<open>
  The hash functions of \<^verbatim>\<open>mqtt_parser.c\<close>: FNV-1a, and three cyclic redundancy checks, two of them with tables. A pointer
  with a length is the list of its bytes.
\<close>

section \<open>The functions\<close>

definition fnv1a_hashn :: "bytes \<Rightarrow> u32" where
  "fnv1a_hashn str = fold (\<lambda>b hash. (hash XOR ucast b) * 0x01000193) str 0x811c9dc5"

fun crc_hashn_bits :: "nat \<Rightarrow> u8 \<Rightarrow> u8" where
  "crc_hashn_bits 0 crc = crc"
| "crc_hashn_bits (Suc j) crc =
     crc_hashn_bits j (if crc AND 0x80 \<noteq> 0 then push_bit 1 crc XOR 0x31 else push_bit 1 crc)"

definition crc_hashn :: "bytes \<Rightarrow> u8" where
  "crc_hashn str = fold (\<lambda>b crc. crc_hashn_bits 8 (crc XOR b)) str 0xff"

definition crc32_table :: "u32 list" where
  "crc32_table =
     [0x00000000, 0x77073096, 0xee0e612c, 0x990951ba, 0x076dc419, 0x706af48f, 0xe963a535, 0x9e6495a3,
      0x0edb8832, 0x79dcb8a4, 0xe0d5e91e, 0x97d2d988, 0x09b64c2b, 0x7eb17cbd, 0xe7b82d07, 0x90bf1d91,
      0x1db71064, 0x6ab020f2, 0xf3b97148, 0x84be41de, 0x1adad47d, 0x6ddde4eb, 0xf4d4b551, 0x83d385c7,
      0x136c9856, 0x646ba8c0, 0xfd62f97a, 0x8a65c9ec, 0x14015c4f, 0x63066cd9, 0xfa0f3d63, 0x8d080df5,
      0x3b6e20c8, 0x4c69105e, 0xd56041e4, 0xa2677172, 0x3c03e4d1, 0x4b04d447, 0xd20d85fd, 0xa50ab56b,
      0x35b5a8fa, 0x42b2986c, 0xdbbbc9d6, 0xacbcf940, 0x32d86ce3, 0x45df5c75, 0xdcd60dcf, 0xabd13d59,
      0x26d930ac, 0x51de003a, 0xc8d75180, 0xbfd06116, 0x21b4f4b5, 0x56b3c423, 0xcfba9599, 0xb8bda50f,
      0x2802b89e, 0x5f058808, 0xc60cd9b2, 0xb10be924, 0x2f6f7c87, 0x58684c11, 0xc1611dab, 0xb6662d3d,
      0x76dc4190, 0x01db7106, 0x98d220bc, 0xefd5102a, 0x71b18589, 0x06b6b51f, 0x9fbfe4a5, 0xe8b8d433,
      0x7807c9a2, 0x0f00f934, 0x9609a88e, 0xe10e9818, 0x7f6a0dbb, 0x086d3d2d, 0x91646c97, 0xe6635c01,
      0x6b6b51f4, 0x1c6c6162, 0x856530d8, 0xf262004e, 0x6c0695ed, 0x1b01a57b, 0x8208f4c1, 0xf50fc457,
      0x65b0d9c6, 0x12b7e950, 0x8bbeb8ea, 0xfcb9887c, 0x62dd1ddf, 0x15da2d49, 0x8cd37cf3, 0xfbd44c65,
      0x4db26158, 0x3ab551ce, 0xa3bc0074, 0xd4bb30e2, 0x4adfa541, 0x3dd895d7, 0xa4d1c46d, 0xd3d6f4fb,
      0x4369e96a, 0x346ed9fc, 0xad678846, 0xda60b8d0, 0x44042d73, 0x33031de5, 0xaa0a4c5f, 0xdd0d7cc9,
      0x5005713c, 0x270241aa, 0xbe0b1010, 0xc90c2086, 0x5768b525, 0x206f85b3, 0xb966d409, 0xce61e49f,
      0x5edef90e, 0x29d9c998, 0xb0d09822, 0xc7d7a8b4, 0x59b33d17, 0x2eb40d81, 0xb7bd5c3b, 0xc0ba6cad,
      0xedb88320, 0x9abfb3b6, 0x03b6e20c, 0x74b1d29a, 0xead54739, 0x9dd277af, 0x04db2615, 0x73dc1683,
      0xe3630b12, 0x94643b84, 0x0d6d6a3e, 0x7a6a5aa8, 0xe40ecf0b, 0x9309ff9d, 0x0a00ae27, 0x7d079eb1,
      0xf00f9344, 0x8708a3d2, 0x1e01f268, 0x6906c2fe, 0xf762575d, 0x806567cb, 0x196c3671, 0x6e6b06e7,
      0xfed41b76, 0x89d32be0, 0x10da7a5a, 0x67dd4acc, 0xf9b9df6f, 0x8ebeeff9, 0x17b7be43, 0x60b08ed5,
      0xd6d6a3e8, 0xa1d1937e, 0x38d8c2c4, 0x4fdff252, 0xd1bb67f1, 0xa6bc5767, 0x3fb506dd, 0x48b2364b,
      0xd80d2bda, 0xaf0a1b4c, 0x36034af6, 0x41047a60, 0xdf60efc3, 0xa867df55, 0x316e8eef, 0x4669be79,
      0xcb61b38c, 0xbc66831a, 0x256fd2a0, 0x5268e236, 0xcc0c7795, 0xbb0b4703, 0x220216b9, 0x5505262f,
      0xc5ba3bbe, 0xb2bd0b28, 0x2bb45a92, 0x5cb36a04, 0xc2d7ffa7, 0xb5d0cf31, 0x2cd99e8b, 0x5bdeae1d,
      0x9b64c2b0, 0xec63f226, 0x756aa39c, 0x026d930a, 0x9c0906a9, 0xeb0e363f, 0x72076785, 0x05005713,
      0x95bf4a82, 0xe2b87a14, 0x7bb12bae, 0x0cb61b38, 0x92d28e9b, 0xe5d5be0d, 0x7cdcefb7, 0x0bdbdf21,
      0x86d3d2d4, 0xf1d4e242, 0x68ddb3f8, 0x1fda836e, 0x81be16cd, 0xf6b9265b, 0x6fb077e1, 0x18b74777,
      0x88085ae6, 0xff0f6a70, 0x66063bca, 0x11010b5c, 0x8f659eff, 0xf862ae69, 0x616bffd3, 0x166ccf45,
      0xa00ae278, 0xd70dd2ee, 0x4e048354, 0x3903b3c2, 0xa7672661, 0xd06016f7, 0x4969474d, 0x3e6e77db,
      0xaed16a4a, 0xd9d65adc, 0x40df0b66, 0x37d83bf0, 0xa9bcae53, 0xdebb9ec5, 0x47b2cf7f, 0x30b5ffe9,
      0xbdbdf21c, 0xcabac28a, 0x53b39330, 0x24b4a3a6, 0xbad03605, 0xcdd70693, 0x54de5729, 0x23d967bf,
      0xb3667a2e, 0xc4614ab8, 0x5d681b02, 0x2a6f2b94, 0xb40bbe37, 0xc30c8ea1, 0x5a05df1b, 0x2d02ef8d]"

text \<open>The mask leaves only the low byte of the index, so that the sign of \<^verbatim>\<open>char\<close> does not matter.\<close>

definition crc32_step :: "u8 \<Rightarrow> u32 \<Rightarrow> u32" where
  "crc32_step b crc = crc32_table ! unat ((crc XOR ucast b) AND 0xff) XOR drop_bit 8 crc"

fun crc32_loop :: "bytes \<Rightarrow> u32 \<Rightarrow> u32" where
  "crc32_loop (b0 # b1 # b2 # b3 # b4 # b5 # b6 # b7 # str) crc =
     (let crc = crc32_step b0 crc; crc = crc32_step b1 crc; crc = crc32_step b2 crc; crc = crc32_step b3 crc;
          crc = crc32_step b4 crc; crc = crc32_step b5 crc; crc = crc32_step b6 crc; crc = crc32_step b7 crc in
      crc32_loop str crc)"
| "crc32_loop str crc = fold crc32_step str crc"

definition crc32_hashn :: "bytes \<Rightarrow> u32" where
  "crc32_hashn str = crc32_loop str 0xffffffff XOR 0xffffffff"

abbreviation POLYCRC32C :: u32 where "POLYCRC32C \<equiv> 0x82f63b78"

text \<open>
  \<^verbatim>\<open>crc32c_init_sw\<close>: the first row of the table, and the column of each byte, from which the other rows come. The entry
  \<^verbatim>\<open>crc32c_table[k][n]\<close> of the source is \<open>crc32c_table ! n ! k\<close>.
\<close>

definition crc32c_bit :: "u32 \<Rightarrow> u32" where
  "crc32c_bit crc = (if crc AND 1 \<noteq> 0 then drop_bit 1 crc XOR POLYCRC32C else drop_bit 1 crc)"

definition crc32c_row :: "u32 list" where
  "crc32c_row =
     map (\<lambda>n. let crc = of_nat n; crc = crc32c_bit crc; crc = crc32c_bit crc; crc = crc32c_bit crc;
               crc = crc32c_bit crc; crc = crc32c_bit crc; crc = crc32c_bit crc; crc = crc32c_bit crc in
           crc32c_bit crc) [0..<256]"

fun crc32c_column :: "u32 list \<Rightarrow> nat \<Rightarrow> u32 \<Rightarrow> u32 list" where
  "crc32c_column row 0 crc = []"
| "crc32c_column row (Suc k) crc = crc # crc32c_column row k (row ! unat (crc AND 0xff) XOR drop_bit 8 crc)"

definition crc32c_init_sw :: "u32 list list" where
  "crc32c_init_sw = map (\<lambda>n. crc32c_column crc32c_row 8 (crc32c_row ! n)) [0..<256]"

definition crc32c_at :: "u32 list list \<Rightarrow> nat \<Rightarrow> u64 \<Rightarrow> u64" where
  "crc32c_at table k i = ucast (table ! unat i ! k)"

definition crc32c_byte :: "u32 list list \<Rightarrow> u8 \<Rightarrow> u64 \<Rightarrow> u64" where
  "crc32c_byte table b crc = crc32c_at table 0 ((crc XOR ucast b) AND 0xff) XOR drop_bit 8 crc"

text \<open>Eight bytes as a little-endian number.\<close>

fun le64toh :: "bytes \<Rightarrow> u64" where
  "le64toh [] = 0"
| "le64toh (b # bs) = ucast b XOR push_bit 8 (le64toh bs)"

definition crc32c_eight :: "u32 list list \<Rightarrow> bytes \<Rightarrow> u64 \<Rightarrow> u64" where
  "crc32c_eight table bs crc =
     (let crc = crc XOR le64toh bs in
      crc32c_at table 7 (crc AND 0xff) XOR
      crc32c_at table 6 (drop_bit 8 crc AND 0xff) XOR
      crc32c_at table 5 (drop_bit 16 crc AND 0xff) XOR
      crc32c_at table 4 (drop_bit 24 crc AND 0xff) XOR
      crc32c_at table 3 (drop_bit 32 crc AND 0xff) XOR
      crc32c_at table 2 (drop_bit 40 crc AND 0xff) XOR
      crc32c_at table 1 (drop_bit 48 crc AND 0xff) XOR
      crc32c_at table 0 (drop_bit 56 crc))"

text \<open>The three loops: up to an aligned address, by eight bytes, and the rest.\<close>

fun crc32c_head :: "u32 list list \<Rightarrow> nat \<Rightarrow> bytes \<Rightarrow> u64 \<Rightarrow> bytes \<times> u64" where
  "crc32c_head table addr [] crc = ([], crc)"
| "crc32c_head table addr (b # buf) crc =
     (if addr mod 8 \<noteq> 0 then crc32c_head table (addr + 1) buf (crc32c_byte table b crc) else (b # buf, crc))"

function crc32c_middle :: "u32 list list \<Rightarrow> bytes \<Rightarrow> u64 \<Rightarrow> bytes \<times> u64" where
  "crc32c_middle table buf crc =
     (if length buf \<ge> 8 then crc32c_middle table (drop 8 buf) (crc32c_eight table (take 8 buf) crc) else (buf, crc))"
  by auto

termination
  by (relation "measure (\<lambda>(table, buf, crc). length buf)") auto

declare crc32c_middle.simps [simp del]

definition crc32c_sw :: "u32 list list \<Rightarrow> u32 \<Rightarrow> nat \<Rightarrow> bytes \<Rightarrow> u32" where
  "crc32c_sw table crci addr buf =
     (case crc32c_head table addr buf (ucast (crci XOR 0xffffffff)) of
        (buf, crc) \<Rightarrow>
          (case crc32c_middle table buf crc of
             (buf, crc) \<Rightarrow> ucast (fold (crc32c_byte table) buf crc) XOR 0xffffffff))"

text \<open>The table is filled by the first call, and the later ones find it filled.\<close>

definition crc32c_hashn :: "nat \<Rightarrow> bytes \<Rightarrow> u32" where
  "crc32c_hashn addr str = crc32c_sw crc32c_init_sw 0 addr str"

section \<open>The checks bit by bit\<close>

text \<open>
  A reflected cyclic redundancy check as its definition has it: one division step for every bit of
  the message, with the register inverted before and after.
\<close>

definition crc_bit :: "'a::len word \<Rightarrow> 'a word \<Rightarrow> 'a word" where
  "crc_bit p c = (if bit c 0 then drop_bit 1 c XOR p else drop_bit 1 c)"

definition crc_spec :: "u32 \<Rightarrow> bytes \<Rightarrow> u32" where
  "crc_spec p s = fold (\<lambda>b c. (crc_bit p ^^ 8) (c XOR ucast b)) s 0xffffffff XOR 0xffffffff"

lemma crc_bit_xor: "crc_bit p (x XOR y) = crc_bit p x XOR crc_bit p y"
  by (simp add: crc_bit_def bit_xor_iff xor.assoc xor.left_commute xor.commute drop_bit_xor)

lemma crc_bits_xor: "(crc_bit p ^^ n) (x XOR y) = (crc_bit p ^^ n) x XOR (crc_bit p ^^ n) y"
  by (induction n) (simp_all add: crc_bit_xor)

lemma crc_bits_low: "take_bit n x = 0 \<Longrightarrow> (crc_bit p ^^ n) x = drop_bit n x"
proof (induction n arbitrary: x)
  case (Suc n)
  have "\<not> bit x 0" using Suc.prems by (metis bit_take_bit_iff bit_0_eq bot_apply bot_bool_def zero_less_Suc)
  moreover have "take_bit n (drop_bit 1 x) = 0" using Suc.prems by (metis drop_bit_take_bit drop_bit_of_0 plus_1_eq_Suc diff_Suc_1)
  ultimately show ?case
    using Suc.IH [of "drop_bit 1 x"] by (simp add: funpow_Suc_right crc_bit_def del: funpow.simps)
qed simp

lemma word_low_high: "take_bit 8 c XOR push_bit 8 (drop_bit 8 c) = c" for c :: "'a::len word"
  by (rule bit_word_eqI) (auto simp: bit_simps)

lemma drop_push_drop: "drop_bit 8 (push_bit 8 (drop_bit 8 c)) = drop_bit 8 c" for c :: "'a::len word"
  by (rule bit_word_eqI) (auto simp: bit_simps dest: bit_imp_le_length)

text \<open>The low byte of the register meets all its division steps, the rest eight fewer.\<close>

lemma crc_bits_byte:
  "(crc_bit p ^^ (m + 8)) c = (crc_bit p ^^ (m + 8)) (take_bit 8 c) XOR (crc_bit p ^^ m) (drop_bit 8 c)"
proof -
  have "take_bit 8 (push_bit 8 (drop_bit 8 c)) = 0" by (rule bit_word_eqI) (auto simp: bit_simps)
  then have "(crc_bit p ^^ (m + 8)) (push_bit 8 (drop_bit 8 c)) = (crc_bit p ^^ m) (drop_bit 8 c)"
    by (simp add: funpow_add crc_bits_low drop_push_drop)
  then show ?thesis
    using crc_bits_xor [of "m + 8" p "take_bit 8 c" "push_bit 8 (drop_bit 8 c)"] by (simp add: word_low_high)
qed

lemma and_byte: "c AND 0xff = take_bit 8 c" for c :: "'a::len word"
proof -
  have "(0xff :: 'a word) = mask 8" by (simp add: mask_eq_exp_minus_1)
  then show ?thesis by (simp only: take_bit_eq_mask)
qed

lemma unat_take_byte: "unat (take_bit 8 c) < 256" for c :: "'a::len word"
  by (simp add: unsigned_take_bit_eq) (simp add: take_bit_eq_mod)

text \<open>So a table whose entries are eight steps of each byte does eight steps of the register.\<close>

lemma table_step:
  assumes "\<forall>n < 256. table n = (crc_bit p ^^ 8) (of_nat n)"
  shows "table (unat ((c XOR ucast (b :: u8)) AND 0xff)) XOR drop_bit 8 c = (crc_bit p ^^ 8) (c XOR ucast b)"
proof -
  have "drop_bit 8 (c XOR ucast b) = drop_bit 8 c"
    by (rule bit_word_eqI) (auto simp: bit_simps dest: bit_imp_le_length)
  then show ?thesis
    using crc_bits_byte [of 0 p "c XOR ucast b"] assms unat_take_byte [of "c XOR ucast b"] by (simp add: and_byte)
qed

section \<open>The table of CRC-32\<close>

text \<open>
  The steps are linear, so that a table is determined by its entries at the powers of two: each of them doubles the table.
\<close>

fun doubled :: "'a::len word list \<Rightarrow> 'a word list \<Rightarrow> 'a word list" where
  "doubled [] t = t"
| "doubled (e # es) t = doubled es (t @ map (\<lambda>x. x XOR e) t)"

lemma crc32_table_doubled: 
  "crc32_table =
     doubled [0x77073096, 0xee0e612c, 0x076dc419, 0x0edb8832, 0x1db71064, 0x3b6e20c8, 0x76dc4190, 0xedb88320] [0]"
  by (simp add: crc32_table_def)

lemma eight_times: "(f ^^ 8) x = f (f (f (f (f (f (f (f x)))))))"
  by (simp add: eval_nat_numeral)

lemma crc32_basis: 
  "map (\<lambda>k. (crc_bit 0xEDB88320 ^^ 8) (of_nat (2 ^ k))) [0..<8] =
   [0x77073096, 0xee0e612c, 0x076dc419, 0x0edb8832, 0x1db71064, 0x3b6e20c8, 0x76dc4190, 0xedb88320 :: u32]"
  unfolding eight_times by (simp add: crc_bit_def upt_conv_Cons)

lemma add_power_xor: "n < 2 ^ j \<Longrightarrow> of_nat (n + 2 ^ j) = (of_nat n XOR of_nat (2 ^ j) :: 'a::len word)"
proof -
  assume "n < 2 ^ j"
  then have "take_bit j n = n" by (simp add: take_bit_nat_eq_self)
  then have b: "\<not> bit n j" by (metis bit_take_bit_iff less_irrefl)
  then have "n + 2 ^ j = n OR 2 ^ j" by (intro disjunctive_add) (auto simp: bit_exp_iff)
  also have "\<dots> = n XOR 2 ^ j" by (rule bit_eqI) (use b in \<open>auto simp: bit_simps\<close>)
  finally show ?thesis by (simp add: of_nat_xor_eq)
qed

lemma doubled_linear:
  fixes f :: "'a::len word \<Rightarrow> 'b::len word"
  assumes "\<And>x y. f (x XOR y) = f x XOR f y"
  shows "doubled (map (\<lambda>k. f (of_nat (2 ^ k))) [j..<j + m]) (map (\<lambda>n. f (of_nat n)) [0..<2 ^ j]) =
    map (\<lambda>n. f (of_nat n)) [0..<2 ^ (j + m)]"
proof (induction m arbitrary: j)
  case (Suc m)
  have u: "[0..<2 ^ Suc j] = [0..<2 ^ j] @ map (\<lambda>n. n + 2 ^ j) [0..<2 ^ j]"
    by (simp add: map_add_upt mult_2 upt_add_eq_append [of 0 "2 ^ j"])
  have "map (\<lambda>n. f (of_nat n)) [0..<2 ^ j] @ map (\<lambda>x. x XOR f (of_nat (2 ^ j))) (map (\<lambda>n. f (of_nat n)) [0..<2 ^ j]) =
      map (\<lambda>n. f (of_nat n)) [0..<2 ^ Suc j]"
    unfolding u by (simp add: add_power_xor assms del: of_nat_add)
  then show ?case
    using Suc.IH [of "Suc j"] upt_conv_Cons [of j "j + Suc m"]
    by (simp only: list.map doubled.simps add_Suc_right add_Suc less_add_Suc1)
qed simp

lemma crc32_table_at:
  assumes "n < 256"
  shows "crc32_table ! n = (crc_bit 0xEDB88320 ^^ 8) (of_nat n)"
proof -
  let ?f = "crc_bit (0xEDB88320 :: u32) ^^ 8"
  have z: "?f 0 = 0" using crc_bits_xor [of 8 "0xEDB88320 :: u32" 0 0] by simp
  have "crc32_table = map (\<lambda>n. ?f (of_nat n)) [0..<256]"
    using doubled_linear [of ?f 0 8] crc32_table_doubled crc32_basis z by (simp add: crc_bits_xor)
  then have "crc32_table ! n = (\<lambda>n. ?f (of_nat n)) ([0..<256] ! n)"
    using assms nth_map [of n "[0..<256]" "\<lambda>n. ?f (of_nat n)"] length_upt [of 0 256] by (simp only: diff_zero)
  also have "[0..<256] ! n = n" using assms nth_upt [of 0 n 256] by simp
  finally show ?thesis .
qed

lemma crc32_step_bits: "crc32_step b c = (crc_bit 0xEDB88320 ^^ 8) (c XOR ucast b)"
  using table_step [of "\<lambda>n. crc32_table ! n" "0xEDB88320" c b] crc32_table_at by (simp add: crc32_step_def)

lemma crc32_loop_fold: "crc32_loop s c = fold crc32_step s c"
  by (induction s c rule: crc32_loop.induct) (simp_all add: Let_def)

section \<open>The tables of CRC-32C\<close>

lemma crc32c_bit_eq: "crc32c_bit = crc_bit POLYCRC32C"
  by (rule ext) (simp add: crc32c_bit_def crc_bit_def bit_0 and_one_eq even_iff_mod_2_eq_zero odd_iff_mod_2_eq_one)

lemma byte_at: "n < 256 \<Longrightarrow> map f [0..<256] ! n = f n"
  using nth_map_upt [of n 256 0 f] by simp

lemma crc32c_row_at: "n < 256 \<Longrightarrow> crc32c_row ! n = (crc_bit POLYCRC32C ^^ 8) (of_nat n)"
  unfolding crc32c_row_def crc32c_bit_eq eight_times by (simp only: byte_at Let_def)

lemma crc32c_column_at:
  "i < k \<Longrightarrow> crc32c_column crc32c_row k c ! i = (crc_bit POLYCRC32C ^^ (8 * i)) c"
proof (induction k arbitrary: i c)
  case (Suc k)
  have s: "crc32c_row ! unat (c AND 0xff) XOR drop_bit 8 c = (crc_bit POLYCRC32C ^^ 8) c"
    using table_step [of "\<lambda>n. crc32c_row ! n" POLYCRC32C c 0] crc32c_row_at by simp
  show ?case
  proof (cases i)
    case (Suc j)
    then have "crc32c_column crc32c_row (Suc k) c ! i = (crc_bit POLYCRC32C ^^ (8 * j)) ((crc_bit POLYCRC32C ^^ 8) c)"
      using Suc.IH [of j] \<open>i < Suc k\<close> by (simp only: crc32c_column.simps nth_Cons_Suc s)
    also have "\<dots> = (crc_bit POLYCRC32C ^^ (8 * j + 8)) c" by (simp only: funpow_add comp_apply)
    finally show ?thesis by (simp add: Suc add.commute)
  qed simp
qed simp

text \<open>The registers are twice as wide as the check; the upper half stays zero.\<close>

abbreviation P64 :: u64 where "P64 \<equiv> 0x82f63b78"

lemma ucast_crc_bit: "ucast (crc_bit POLYCRC32C c) = crc_bit P64 (ucast c)"
proof -
  have "ucast POLYCRC32C = P64" by simp
  moreover have "ucast (drop_bit 1 c) = (drop_bit 1 (ucast c) :: u64)"
    by (rule bit_word_eqI) (auto simp: bit_simps dest: bit_imp_le_length)
  moreover have "bit (ucast c :: u64) 0 = bit c 0" by (simp add: bit_simps)
  moreover have "ucast (x XOR y) = (ucast x XOR ucast y :: u64)" for x y :: u32
    by (rule bit_word_eqI) (auto simp: bit_simps)
  ultimately show ?thesis by (simp add: crc_bit_def)
qed

lemma ucast_crc_bits: "ucast ((crc_bit POLYCRC32C ^^ n) c) = (crc_bit P64 ^^ n) (ucast c)"
  by (induction n) (simp_all add: ucast_crc_bit)

lemma crc32c_at_bits:
  assumes "unat i < 256" and "k < 8"
  shows "crc32c_at crc32c_init_sw k i = (crc_bit P64 ^^ (8 * k + 8)) i"
proof -
  have "crc32c_init_sw ! unat i = crc32c_column crc32c_row 8 (crc32c_row ! unat i)"
    unfolding crc32c_init_sw_def by (simp only: byte_at [OF assms(1)])
  then have "crc32c_init_sw ! unat i ! k = (crc_bit POLYCRC32C ^^ (8 * k)) ((crc_bit POLYCRC32C ^^ 8) (of_nat (unat i)))"
    using crc32c_column_at [OF assms(2)] crc32c_row_at [OF assms(1)] by simp
  then have "crc32c_init_sw ! unat i ! k = (crc_bit POLYCRC32C ^^ (8 * k + 8)) (of_nat (unat i))"
    by (simp only: funpow_add comp_apply)
  moreover have "ucast (of_nat (unat i) :: u32) = i"
    using assms(1) by (intro word_unat_eq_iff [THEN iffD2]) (simp add: unsigned_ucast_eq unsigned_of_nat unsigned_take_bit_eq take_bit_nat_eq_self)
  ultimately show ?thesis by (simp only: crc32c_at_def ucast_crc_bits)
qed

lemma crc32c_byte_bits: "crc32c_byte crc32c_init_sw b c = (crc_bit P64 ^^ 8) (c XOR ucast b)"
proof -
  have "crc32c_at crc32c_init_sw 0 (take_bit 8 x) = (crc_bit P64 ^^ 8) (take_bit 8 x)" for x
    using crc32c_at_bits [of "take_bit 8 x" 0] unat_take_byte [of x] by simp
  moreover have "drop_bit 8 (c XOR ucast b) = drop_bit 8 c"
    by (rule bit_word_eqI) (auto simp: bit_simps dest: bit_imp_le_length)
  ultimately show ?thesis
    unfolding crc32c_byte_def and_byte using crc_bits_byte [of 0 P64 "c XOR ucast b"]
    by (simp only: add_0 funpow_0)
qed


section \<open>Eight bytes at once\<close>

lemma le64toh_bound: "length bs \<le> 7 \<Longrightarrow> drop_bit 8 (push_bit 8 (le64toh bs)) = le64toh bs"
proof -
  have b: "\<not> bit (le64toh bs) i" if "8 * length bs \<le> i" for i
    using that
  proof (induction bs arbitrary: i)
    case (Cons b bs)
    then show ?case using Cons.IH [of "i - 8"] by (auto simp: bit_simps dest: bit_imp_le_length)
  qed simp
  assume "length bs \<le> 7"
  then have "n < 56" if "bit (le64toh bs) n" for n using b [of n] that by (cases "n < 56") auto
  then show ?thesis by (intro bit_word_eqI) (auto simp: bit_simps)
qed

lemma fold_bytes:
  "length bs \<le> 8 \<Longrightarrow>
     fold (\<lambda>b c. (crc_bit P64 ^^ 8) (c XOR ucast b)) bs c = (crc_bit P64 ^^ (8 * length bs)) (c XOR le64toh bs)"
proof (induction bs arbitrary: c)
  case (Cons b bs)
  have "take_bit 8 (push_bit 8 (le64toh bs)) = 0" by (rule bit_word_eqI) (auto simp: bit_simps)
  then have "(crc_bit P64 ^^ 8) (push_bit 8 (le64toh bs)) = le64toh bs"
    using Cons.prems by (simp add: crc_bits_low le64toh_bound)
  then have "(crc_bit P64 ^^ 8) (c XOR ucast b) XOR le64toh bs = (crc_bit P64 ^^ 8) (c XOR le64toh (b # bs))"
    by (simp add: crc_bits_xor xor.assoc)
  moreover have "8 * length (b # bs) = 8 * length bs + 8" by simp
  ultimately show ?case
    using Cons.IH [of "(crc_bit P64 ^^ 8) (c XOR ucast b)"] Cons.prems
    by (simp only: fold_simps funpow_add comp_apply list.size)
qed simp

lemma crc_bits_word:
  "(crc_bit P64 ^^ 64) x =
     (crc_bit P64 ^^ 64) (take_bit 8 x) XOR (crc_bit P64 ^^ 56) (take_bit 8 (drop_bit 8 x)) XOR
     (crc_bit P64 ^^ 48) (take_bit 8 (drop_bit 16 x)) XOR (crc_bit P64 ^^ 40) (take_bit 8 (drop_bit 24 x)) XOR
     (crc_bit P64 ^^ 32) (take_bit 8 (drop_bit 32 x)) XOR (crc_bit P64 ^^ 24) (take_bit 8 (drop_bit 40 x)) XOR
     (crc_bit P64 ^^ 16) (take_bit 8 (drop_bit 48 x)) XOR (crc_bit P64 ^^ 8) (drop_bit 56 x)"
proof -
  have 1: "(crc_bit P64 ^^ 64) x = (crc_bit P64 ^^ 64) (take_bit 8 x) XOR (crc_bit P64 ^^ 56) (drop_bit 8 x)" for x
    using crc_bits_byte [of 56 P64 x] by simp
  have 2: "(crc_bit P64 ^^ 56) x = (crc_bit P64 ^^ 56) (take_bit 8 x) XOR (crc_bit P64 ^^ 48) (drop_bit 8 x)" for x
    using crc_bits_byte [of 48 P64 x] by simp
  have 3: "(crc_bit P64 ^^ 48) x = (crc_bit P64 ^^ 48) (take_bit 8 x) XOR (crc_bit P64 ^^ 40) (drop_bit 8 x)" for x
    using crc_bits_byte [of 40 P64 x] by simp
  have 4: "(crc_bit P64 ^^ 40) x = (crc_bit P64 ^^ 40) (take_bit 8 x) XOR (crc_bit P64 ^^ 32) (drop_bit 8 x)" for x
    using crc_bits_byte [of 32 P64 x] by simp
  have 5: "(crc_bit P64 ^^ 32) x = (crc_bit P64 ^^ 32) (take_bit 8 x) XOR (crc_bit P64 ^^ 24) (drop_bit 8 x)" for x
    using crc_bits_byte [of 24 P64 x] by simp
  have 6: "(crc_bit P64 ^^ 24) x = (crc_bit P64 ^^ 24) (take_bit 8 x) XOR (crc_bit P64 ^^ 16) (drop_bit 8 x)" for x
    using crc_bits_byte [of 16 P64 x] by simp
  have 7: "(crc_bit P64 ^^ 16) x = (crc_bit P64 ^^ 16) (take_bit 8 x) XOR (crc_bit P64 ^^ 8) (drop_bit 8 x)" for x
    using crc_bits_byte [of 8 P64 x] by simp
  show ?thesis
    by (subst 1, subst 2, subst 3, subst 4, subst 5, subst 6, subst 7) (simp add: xor.assoc)
qed


lemma drop_byte_bound: "unat (drop_bit 56 (x :: u64)) < 256"
proof -
  have "drop_bit 56 x = take_bit 8 (drop_bit 56 x)"
    by (rule bit_word_eqI) (auto simp: bit_simps dest: bit_imp_le_length)
  then show ?thesis using unat_take_byte [of "drop_bit 56 x"] by simp
qed

lemma crc32c_eight_fold:
  assumes "length bs = 8"
  shows "crc32c_eight crc32c_init_sw bs c = fold (crc32c_byte crc32c_init_sw) bs c"
proof -
  let ?x = "c XOR le64toh bs"
  have "fold (crc32c_byte crc32c_init_sw) bs c = (crc_bit P64 ^^ 64) ?x"
    using fold_bytes [of bs c] assms by (simp add: crc32c_byte_bits [abs_def])
  also have "\<dots> = crc32c_eight crc32c_init_sw bs c"
    unfolding crc_bits_word [of ?x] crc32c_eight_def Let_def and_byte
    by (simp add: crc32c_at_bits unat_take_byte drop_byte_bound del: take_bit_xor drop_bit_xor)
  finally show ?thesis ..
qed

lemma crc32c_head_fold:
  "crc32c_head t addr buf c = (rest, c') \<Longrightarrow> fold (crc32c_byte t) rest c' = fold (crc32c_byte t) buf c"
  by (induction t addr buf c rule: crc32c_head.induct) (auto split: if_splits)

lemma crc32c_middle_fold:
  "crc32c_middle crc32c_init_sw buf c = (rest, c') \<Longrightarrow>
     fold (crc32c_byte crc32c_init_sw) rest c' = fold (crc32c_byte crc32c_init_sw) buf c"
proof (induction "length buf" arbitrary: buf c rule: less_induct)
  case less
  show ?case
  proof (cases "8 \<le> length buf")
    case True
    have m: "crc32c_middle crc32c_init_sw (drop 8 buf) (crc32c_eight crc32c_init_sw (take 8 buf) c) = (rest, c')"
      using less.prems True by (simp add: crc32c_middle.simps [of _ buf])
    have "fold (crc32c_byte crc32c_init_sw) (take 8 buf @ drop 8 buf) c = fold (crc32c_byte crc32c_init_sw) rest c'"
      using less.hyps [OF _ m] crc32c_eight_fold [of "take 8 buf" c] True by (simp only: fold_append comp_apply) simp
    then show ?thesis by simp
  qed (use less.prems in \<open>simp add: crc32c_middle.simps [of _ buf]\<close>)
qed

lemma ucast_fold:
  "ucast (fold (\<lambda>b c. (crc_bit POLYCRC32C ^^ 8) (c XOR ucast b)) (s :: bytes) c) =
     fold (\<lambda>b c. (crc_bit P64 ^^ 8) (c XOR ucast b)) s (ucast c)"
proof (induction s arbitrary: c)
  case (Cons b s)
  have "n < 8" if "bit b n" for n using bit_imp_le_length [OF that] by simp
  then have "ucast (c XOR ucast b) = (ucast c XOR ucast b :: u64)"
    by (intro bit_word_eqI) (fastforce simp: bit_simps dest: bit_imp_le_length)
  then show ?case using Cons.IH by (simp add: ucast_crc_bits)
qed simp

text \<open>C8: The checksums are the standard ones. For every string \<^verbatim>\<open>crc32_hashn\<close>, with its literal table and
  unrolled loop, computes the CRC-32 with the reflected polynomial \<^verbatim>\<open>EDB88320\<close>; and \<^verbatim>\<open>crc32c_hashn\<close>, which consumes
  eight bytes at a time with eight computed tables, the CRC-32C, at whatever address the string starts.\<close>

theorem crc_tables_exact:
  "crc32_hashn s = crc_spec 0xEDB88320 s \<and> crc32c_hashn addr s = crc_spec 0x82F63B78 s"
proof
  show "crc32_hashn s = crc_spec 0xEDB88320 s"
    by (simp add: crc32_hashn_def crc32_loop_fold crc_spec_def crc32_step_bits [abs_def])
  let ?T = crc32c_init_sw
  obtain r1 c1 where h: "crc32c_head ?T addr s (ucast (0 XOR 0xffffffff :: u32)) = (r1, c1)" by (meson surj_pair)
  obtain r2 c2 where m: "crc32c_middle ?T r1 c1 = (r2, c2)" by (meson surj_pair)
  have "fold (crc32c_byte ?T) r2 c2 = ucast (fold (\<lambda>b c. (crc_bit POLYCRC32C ^^ 8) (c XOR ucast b)) s 0xffffffff)"
    using crc32c_head_fold [OF h] crc32c_middle_fold [OF m] ucast_fold [of s "0xffffffff"]
    by (simp add: crc32c_byte_bits [abs_def])
  moreover have "ucast (ucast x :: u64) = x" for x :: u32
    by (rule bit_word_eqI) (auto simp: bit_simps)
  ultimately show "crc32c_hashn addr s = crc_spec 0x82F63B78 s"
    using h m by (simp add: crc32c_hashn_def crc32c_sw_def crc_spec_def)
qed

end
