(* ===== verification/SubInfo.thy ===== *)
theory SubInfo
  imports MqttRound5
begin

text \<open>
  The subscriptions of a connection in \<^verbatim>\<open>mqtt_parser.c\<close>: the broker reads SUBSCRIBE and UNSUBSCRIBE packets into a list
  of topics with their options.
\<close>

section \<open>The list of subscriptions\<close>

text \<open>
  The bit fields and the identifier of \<^verbatim>\<open>struct subinfo\<close>, with the bytes that the topic was allocated with. They are
  compared as strings of C, up to the first zero.
\<close>

record subinfo =
  si_qos :: u8
  si_no_local :: u8
  si_rap :: u8
  si_retain_handling :: u8
  si_topic :: bytes
  si_subid :: nat

definition cstr :: "bytes \<Rightarrow> bytes" where
  "cstr s = takeWhile (\<lambda>x. x \<noteq> 0) s"

fun remove_topic :: "bytes \<Rightarrow> subinfo list \<Rightarrow> subinfo list" where
  "remove_topic t [] = []"
| "remove_topic t (sn # l) = (if cstr t = cstr (si_topic sn) then l else sn # remove_topic t l)"

definition nmq_subinfol_add_or :: "subinfo list \<Rightarrow> subinfo \<Rightarrow> subinfo list" where
  "nmq_subinfol_add_or l n = remove_topic (si_topic n) l @ [n]"

definition nmq_subinfol_rm_or :: "subinfo list \<Rightarrow> bytes \<Rightarrow> subinfo list" where
  "nmq_subinfol_rm_or l topic = remove_topic topic l"

section \<open>Reading the packets\<close>

text \<open>
  The key and the value of a user property: the position behind both, or an error. Nothing stops the
  functions below from reading behind the body, because \<^verbatim>\<open>target_pos\<close> is compared with its length only at the end; that is \<^const>\<open>None\<close>.
\<close>

fun skip_strings :: "bytes \<Rightarrow> nat \<Rightarrow> nat \<Rightarrow> nat \<Rightarrow> (int + nat) option" where
  "skip_strings body target_pos 0 pos = Some (Inr pos)"
| "skip_strings body target_pos (Suc j) pos =
     (if pos + 2 > target_pos then Some (Inl (-3))
      else if pos + 2 > length body then None
      else
        (let pos = pos + 2 + unat (NNI_GET16 body pos) in
         if pos > target_pos then Some (Inl (-3)) else skip_strings body target_pos j pos))"

lemma skip_strings_less: "skip_strings body target_pos j pos = Some (Inr p) \<Longrightarrow> pos \<le> p"
  by (induction body target_pos j pos rule: skip_strings.induct) (fastforce simp: Let_def split: if_splits)+

text \<open>
  The loop over the properties: the position where it ends and the identifier of the subscriptions. \<open>sub\<close> tells
  SUBSCRIBE, which may carry one, from UNSUBSCRIBE.
\<close>

function sub_props_loop :: "bool \<Rightarrow> bytes \<Rightarrow> nat \<Rightarrow> nat \<Rightarrow> nat \<Rightarrow> (int + nat \<times> nat) option" where
  "sub_props_loop sub body target_pos pos subid =
     (if pos < target_pos then
        (if pos \<ge> length body then None
         else if body ! pos = USER_PROPERTY then
           (case skip_strings body target_pos 2 (pos + 1) of
              None \<Rightarrow> None
            | Some (Inl e) \<Rightarrow> Some (Inl e)
            | Some (Inr pos) \<Rightarrow> sub_props_loop sub body target_pos pos subid)
         else if sub \<and> body ! pos = SUBSCRIPTION_IDENTIFIER then
           (if pos + 1 \<ge> target_pos then Some (Inl (-3))
            else
              (case get_var_integer (drop (pos + 1) body) 0 of
                 None \<Rightarrow> None
               | Some (subid, used) \<Rightarrow>
                   if subid = 0 then Some (Inl (-1))
                   else sub_props_loop sub body target_pos (pos + 1 + used) subid))
         else Some (Inl (-2)))
      else Some (Inr (pos, subid)))"
  by pat_completeness auto

termination
  by (relation "measure (\<lambda>(sub, body, target_pos, pos, subid). target_pos - pos)")
    (auto dest!: skip_strings_less)

declare sub_props_loop.simps [simp del]

text \<open>What the functions do before the topics: the topics as the bytes behind the properties, or an error.\<close>

definition sub_header :: "bool \<Rightarrow> bytes \<Rightarrow> u8 \<Rightarrow> (int + nat \<times> bytes) option" where
  "sub_header sub body ver =
     (let v5 = (ver = MQTT_PROTOCOL_VERSION_v5) in
      if length body < (if sub then 2 else 3) then Some (Inl (if sub then -1 else -3))
      else if v5 \<and> length body < 3 then Some (Inl (-1))
      else
        (case (if v5 then get_var_integer (drop 2 body) 0 else Some (0, 0)) of
           None \<Rightarrow> None
         | Some (len, len_of_varint) \<Rightarrow>
             if v5 \<and> len > length body then Some (Inl (-1))
             else if NNI_GET16 body 0 = 0 then Some (Inl (-2))
             else
               (let target_pos = 2 + len_of_varint + len in
                case sub_props_loop sub body target_pos (2 + len_of_varint) 0 of
                  None \<Rightarrow> None
                | Some (Inl e) \<Rightarrow> Some (Inl e)
                | Some (Inr (pos, subid)) \<Rightarrow>
                    if pos > target_pos \<or> length body < target_pos then Some (Inl (-2))
                    else Some (Inr (subid, drop target_pos body)))))"

definition sub_entry :: "nat \<Rightarrow> bytes \<Rightarrow> u8 \<Rightarrow> subinfo" where
  "sub_entry subid topic opt =
     \<lparr>si_qos = opt AND 0x03, si_no_local = drop_bit 2 (opt AND 0x04), si_rap = drop_bit 3 (opt AND 0x08),
      si_retain_handling = drop_bit 4 (opt AND 0x30), si_topic = topic, si_subid = subid\<rparr>"

text \<open>The topics of a SUBSCRIBE: the number of entries, or an error, and the list as far as it got.\<close>

function sub_topics :: "bool \<Rightarrow> allocator \<Rightarrow> nat \<Rightarrow> bytes \<Rightarrow> subinfo list \<Rightarrow> nat \<Rightarrow> int \<times> subinfo list" where
  "sub_topics st al subid p l num =
     (if p = [] then (int num, l)
      else if length p < 2 then (-3, l)
      else
        (let len_of_topic = unat (NNI_GET16 p 0); r = drop 2 p in
         if len_of_topic + 1 > length r then (-3, l)
         else if len_of_topic = 0 then sub_topics st al subid (drop 1 r) l num
         else if \<not> st \<or> \<not> al (len_of_topic + 1) then (-2, l)
         else
           sub_topics st al subid (drop (len_of_topic + 1) r)
             (nmq_subinfol_add_or l (sub_entry subid (take len_of_topic r) (r ! len_of_topic))) (num + 1)))"
  by pat_completeness auto

termination
  by (relation "measure (\<lambda>(st, al, subid, p, l, num). length p)") auto

declare sub_topics.simps [simp del]

definition nmq_subinfo_decode ::
    "bool \<Rightarrow> allocator \<Rightarrow> 'p nng_msg option \<Rightarrow> subinfo list option \<Rightarrow> u8 \<Rightarrow> (int \<times> subinfo list option) option" where
  "nmq_subinfo_decode st al msg l ver =
     (case (msg, l) of
        (Some msg, Some l) \<Rightarrow>
          (case sub_header True (nni_msg_body msg) ver of
             None \<Rightarrow> None
           | Some (Inl e) \<Rightarrow> Some (e, Some l)
           | Some (Inr (subid, p)) \<Rightarrow>
               Some (case sub_topics st al subid p l 0 of (rv, l) \<Rightarrow> (rv, Some l)))
      | _ \<Rightarrow> Some (-1, l))"

text \<open>The topics of an UNSUBSCRIBE. The length of a topic is kept in eight bits.\<close>

function unsub_topics :: "allocator \<Rightarrow> bytes \<Rightarrow> subinfo list \<Rightarrow> nat \<Rightarrow> int \<times> subinfo list" where
  "unsub_topics al p l num =
     (if p = [] then (int num, l)
      else if length p < 2 then (-3, l)
      else
        (let len_of_topic = unat (NNI_GET16 p 0) mod 256; r = drop 2 p in
         if len_of_topic = 0 then unsub_topics al r l num
         else if len_of_topic > length r then (-3, l)
         else if \<not> al (len_of_topic + 1) then (-2, l)
         else unsub_topics al (drop len_of_topic r) (nmq_subinfol_rm_or l (take len_of_topic r)) (num + 1)))"
  by pat_completeness auto

termination
  by (relation "measure (\<lambda>(al, p, l, num). length p)") auto

declare unsub_topics.simps [simp del]

definition nmq_unsubinfo_decode ::
    "allocator \<Rightarrow> 'p nng_msg option \<Rightarrow> subinfo list option \<Rightarrow> u8 \<Rightarrow> (int \<times> subinfo list option) option" where
  "nmq_unsubinfo_decode al msg l ver =
     (case (msg, l) of
        (Some msg, Some l) \<Rightarrow>
          (case sub_header False (nni_msg_body msg) ver of
             None \<Rightarrow> None
           | Some (Inl e) \<Rightarrow> Some (e, Some l)
           | Some (Inr (subid, p)) \<Rightarrow> Some (case unsub_topics al p l 0 of (rv, l) \<Rightarrow> (rv, Some l)))
      | _ \<Rightarrow> Some (-1, l))"

section \<open>The list as a map from topics to subscriptions\<close>

text \<open>A table with at most one entry for each name: the contract of the two operations on the list.\<close>

locale topic_table =
  fixes inv :: "'l \<Rightarrow> bool" and lookup :: "'l \<Rightarrow> 'k \<Rightarrow> 'v option"
    and key :: "'v \<Rightarrow> 'k" and add :: "'l \<Rightarrow> 'v \<Rightarrow> 'l"
    and name :: "'r \<Rightarrow> 'k" and del :: "'l \<Rightarrow> 'r \<Rightarrow> 'l"
  assumes add_inv: "inv l \<Longrightarrow> inv (add l v)"
    and add_lookup: "inv l \<Longrightarrow> lookup (add l v) = (lookup l)(key v \<mapsto> v)"
    and del_inv: "inv l \<Longrightarrow> inv (del l r)"
    and del_lookup: "inv l \<Longrightarrow> lookup (del l r) = (lookup l)(name r := None)"
begin

lemma adds:
  "inv l \<Longrightarrow> inv (foldl add l vs) \<and> lookup (foldl add l vs) = foldl (\<lambda>s v. s(key v \<mapsto> v)) (lookup l) vs"
  by (induction vs arbitrary: l) (simp_all add: add_inv add_lookup)

lemma dels:
  "inv l \<Longrightarrow> inv (foldl del l rs) \<and> lookup (foldl del l rs) = foldl (\<lambda>s r. s(name r := None)) (lookup l) rs"
  by (induction rs arbitrary: l) (simp_all add: del_inv del_lookup)

end

definition subs_wf :: "subinfo list \<Rightarrow> bool" where
  "subs_wf l \<longleftrightarrow> distinct (map (\<lambda>sn. cstr (si_topic sn)) l)"

definition subs :: "subinfo list \<Rightarrow> bytes \<Rightarrow> subinfo option" where
  "subs l t = find (\<lambda>sn. cstr (si_topic sn) = t) l"

lemma subs_Cons: "subs (sn # l) = (subs l)(cstr (si_topic sn) \<mapsto> sn)"
  by (rule ext) (simp add: subs_def)

lemma subs_Nil: "subs [] = Map.empty"
  by (rule ext) (simp add: subs_def)

lemma subs_None: "subs l t = None \<longleftrightarrow> t \<notin> set (map (\<lambda>sn. cstr (si_topic sn)) l)"
  by (auto simp: subs_def find_None_iff)

lemma set_remove_topic: "set (remove_topic t l) \<subseteq> set l"
  by (induction l) auto

lemma remove_topic_wf: "subs_wf l \<Longrightarrow> subs_wf (remove_topic t l)"
proof (induction l)
  case (Cons sn l)
  then show ?case using set_remove_topic [of t l] by (auto simp: subs_wf_def)
qed simp

lemma subs_remove_topic: "subs_wf l \<Longrightarrow> subs (remove_topic t l) = (subs l)(cstr t := None)"
proof (induction l)
  case (Cons sn l)
  have "subs l (cstr (si_topic sn)) = None" "subs_wf l" using Cons.prems by (auto simp: subs_None subs_wf_def)
  then show ?case using Cons.IH by (auto simp: subs_Cons fun_upd_twist fun_upd_idem)
qed (simp add: subs_Nil)

lemma subs_snoc: "subs l (cstr (si_topic sn)) = None \<Longrightarrow> subs (l @ [sn]) = (subs l)(cstr (si_topic sn) \<mapsto> sn)"
  by (induction l) (auto simp: subs_Cons subs_Nil fun_upd_twist split: if_splits)

interpretation sub_table: topic_table subs_wf subs "\<lambda>sn. cstr (si_topic sn)" nmq_subinfol_add_or cstr nmq_subinfol_rm_or
proof
  fix l :: "subinfo list" and v :: subinfo and r :: bytes
  assume wf: "subs_wf l"
  have n: "subs (remove_topic (si_topic v) l) (cstr (si_topic v)) = None"
    by (simp add: subs_remove_topic [OF wf])
  show "subs_wf (nmq_subinfol_add_or l v)"
    using remove_topic_wf [OF wf, of "si_topic v"] n by (auto simp: nmq_subinfol_add_or_def subs_wf_def subs_None)
  show "subs (nmq_subinfol_add_or l v) = (subs l)(cstr (si_topic v) \<mapsto> v)"
    by (simp add: nmq_subinfol_add_or_def subs_snoc [OF n] subs_remove_topic [OF wf])
  show "subs_wf (nmq_subinfol_rm_or l r)" "subs (nmq_subinfol_rm_or l r) = (subs l)(cstr r := None)"
    using wf by (simp_all add: nmq_subinfol_rm_or_def remove_topic_wf subs_remove_topic)
qed

section \<open>Packets of the codec\<close>

lemma get_var_enc:
  assumes "v \<le> MQTT_MAX_MSG_LEN"
  shows "get_var_integer (write_var_loop 0 v @ r) 0 = Some (v, length (write_var_loop 0 v))"
proof -
  let ?e = "write_var_loop 0 v"
  have l: "read_var_loop (?e @ r) (length ?e + length r) 0 1 0 = Inr (v, length ?e)"
    using assms by (subst read_var_loop_iff) simp_all
  have "length ?e \<le> 4" by (rule length_write_var_le [OF assms])
  then show ?thesis
    using get_var_of_read_var [OF l, of "[]"] by (simp add: get_var_integer_def)
qed

text \<open>The properties that the broker expects in the packets: user properties, and identifiers other than zero.\<close>

definition sub_prop :: "bool \<Rightarrow> property \<Rightarrow> bool" where
  "sub_prop sub p \<longleftrightarrow> prop_ok p \<and>
     (p_id p = USER_PROPERTY \<or> sub \<and> p_id p = SUBSCRIPTION_IDENTIFIER \<and> p_value p \<noteq> V_varint 0)"

fun subid_of :: "nat \<Rightarrow> property list \<Rightarrow> nat" where
  "subid_of i [] = i"
| "subid_of i (p # ps) = subid_of (case p_value p of V_varint v \<Rightarrow> v | _ \<Rightarrow> i) ps"

lemma skip_strings_enc:
  assumes "str_ok a" and "str_ok b" and "length pre + length (str_enc a @ str_enc b) \<le> target"
  shows "skip_strings (pre @ str_enc a @ str_enc b @ r) target 2 (length pre) =
    Some (Inr (length pre + length (str_enc a @ str_enc b)))"
proof -
  have l: "blen a < 65536" "blen b < 65536" using assms by (simp_all add: str_ok_def)
  have a: "NNI_GET16 (pre @ str_enc a @ str_enc b @ r) (length pre) = of_nat (blen a)"
    using NNI_GET16_PUT16 [of pre "of_nat (blen a)" "str_bytes a @ str_enc b @ r"] by (simp add: str_enc_def)
  have b: "NNI_GET16 (pre @ str_enc a @ str_enc b @ r) (length pre + 2 + blen a) = of_nat (blen b)"
    using NNI_GET16_PUT16 [of "pre @ str_enc a" "of_nat (blen b)" "str_bytes b @ r"] assms(1) by (simp add: str_enc_def)
  have "unat (of_nat (blen a) :: u16) = blen a" "unat (of_nat (blen b) :: u16) = blen b"
    using l by (simp_all add: unsigned_of_nat take_bit_nat_eq_self)
  then show ?thesis
    using assms a b by (simp add: numeral_2_eq_2 Let_def)
qed

lemma sub_props_loop_enc:
  assumes "list_all (sub_prop sub) ps" and "target = length pre + length (props_enc ps)"
  shows "sub_props_loop sub (pre @ props_enc ps @ r) target (length pre) i = Some (Inr (target, subid_of i ps))"
  using assms
proof (induction ps arbitrary: pre i)
  case Nil
  then show ?case by (simp add: sub_props_loop.simps)
next
  case (Cons p ps)
  let ?b = "pre @ props_enc (p # ps) @ r"
  have p: "prop_ok p" "list_all (sub_prop sub) ps" using Cons.prems(1) by (simp_all, simp add: sub_prop_def)
  have c: "length pre < target" "length pre < length ?b" "?b ! length pre = p_id p"
    using Cons.prems(2) by (simp_all add: prop_enc_def nth_append)
  have ih: "sub_props_loop sub ?b target (length pre + length (prop_enc p)) j = Some (Inr (target, subid_of j ps))" for j
    using Cons.IH [OF p(2), of "pre @ prop_enc p" j] Cons.prems(2) by simp
  consider (user) kv where "p_id p = USER_PROPERTY" "p_value p = V_strpair kv" "str_ok (kv_key kv)" "str_ok (kv_value kv)"
    | (subid) v where "sub" "p_id p = SUBSCRIPTION_IDENTIFIER" "p_value p = V_varint v" "v \<noteq> 0" "v \<le> MQTT_MAX_MSG_LEN"
    using Cons.prems(1) p(1)
    by (cases "p_value p") (auto simp: sub_prop_def prop_ok_def p_type_def property_get_value_type_def)
  then show ?case
  proof cases
    case user
    have e: "prop_enc p = USER_PROPERTY # str_enc (kv_key kv) @ str_enc (kv_value kv)"
      by (simp add: prop_enc_def user)
    have "skip_strings ?b target 2 (length pre + 1) = Some (Inr (length pre + length (prop_enc p)))"
      using skip_strings_enc [OF user(3,4), of "pre @ [USER_PROPERTY]" target "props_enc ps @ r"] Cons.prems(2) e by simp
    then show ?thesis
      using c ih [of i] user by (subst sub_props_loop.simps) simp
  next
    case subid
    have e: "prop_enc p = SUBSCRIPTION_IDENTIFIER # write_var_loop 0 v" by (simp add: prop_enc_def subid)
    have "0 < length (write_var_loop 0 v)" by (subst write_var_loop.simps) (simp add: Let_def)
    then show ?thesis
      using c ih [of v] subid(1-4) get_var_enc [OF subid(5), of "props_enc ps @ r"] Cons.prems(2) e
      by (subst sub_props_loop.simps) simp
  qed
qed

text \<open>A body as the codec writes it, with the properties \<open>ps\<close>.\<close>

definition sub_bytes :: "u16 \<Rightarrow> property list \<Rightarrow> bytes \<Rightarrow> bytes" where
  "sub_bytes pid ps p = NNI_PUT16 pid @ write_var_loop 0 (length (props_enc ps)) @ props_enc ps @ p"

lemma sub_header_enc:
  assumes "pid \<noteq> 0" and "list_all (sub_prop sub) ps" and "length (props_enc ps) \<le> MQTT_MAX_MSG_LEN"
  shows "sub_header sub (sub_bytes pid ps p) MQTT_PROTOCOL_VERSION_v5 = Some (Inr (subid_of 0 ps, p))"
proof -
  let ?e = "props_enc ps"
  let ?v = "write_var_loop 0 (length ?e)"
  have g: "get_var_integer (drop 2 (sub_bytes pid ps p)) 0 = Some (length ?e, length ?v)"
    using get_var_enc [OF assms(3)] by (simp add: sub_bytes_def)
  have "0 < length ?v" by (subst write_var_loop.simps) (simp add: Let_def)
  moreover have "NNI_GET16 (sub_bytes pid ps p) 0 = pid" by (simp add: sub_bytes_def GET16_front)
  moreover have "sub_props_loop sub (sub_bytes pid ps p) (2 + length ?v + length ?e) (2 + length ?v) 0 =
      Some (Inr (2 + length ?v + length ?e, subid_of 0 ps))"
    using sub_props_loop_enc [OF assms(2), of "2 + length ?v + length ?e" "NNI_PUT16 pid @ ?v" p 0] by (simp add: sub_bytes_def)
  ultimately show ?thesis
    using g assms(1) by (simp add: sub_header_def Let_def) (simp add: sub_bytes_def)
qed

lemma unat_of_u16: "n < 65536 \<Longrightarrow> unat (of_nat n :: u16) = n"
  by (simp add: unsigned_of_nat take_bit_nat_eq_self)

lemma str_front:
  assumes "str_ok s"
  shows "unat (NNI_GET16 (str_enc s @ r) 0) = blen s" "drop 2 (str_enc s @ r) = str_bytes s @ r"
  using assms GET16_front [of "of_nat (blen s)" "str_bytes s @ r"]
  by (simp_all add: str_enc_def str_ok_def unat_of_u16)

lemma sub_topics_enc:
  assumes "mem_ok al" and "topics_ok ts" and "\<forall>t \<in> set ts. 0 < blen (tq_topic t)"
  shows "sub_topics True al i (topics_enc opts ts) l num =
    (int (num + length ts), foldl nmq_subinfol_add_or l (map (\<lambda>t. sub_entry i (str_bytes (tq_topic t)) (opts t)) ts))"
  using assms(2,3)
proof (induction ts arbitrary: l num)
  case (Cons t ts)
  have t: "str_ok (tq_topic t)" "0 < blen (tq_topic t)" "length (str_bytes (tq_topic t)) = blen (tq_topic t)"
    using Cons.prems by simp_all
  show ?case
    using Cons str_front [OF t(1), of "opts t # topics_enc opts ts"] t assms(1)
    by (subst sub_topics.simps) (simp add: mem_ok_def Let_def nth_append)
qed (simp add: sub_topics.simps)

lemma unsub_topics_enc:
  assumes "mem_ok al" and "list_all str_ok ts" and "\<forall>t \<in> set ts. 0 < blen t \<and> blen t < 256"
  shows "unsub_topics al (un_topics_enc ts) l num =
    (int (num + length ts), foldl nmq_subinfol_rm_or l (map str_bytes ts))"
  using assms(2,3)
proof (induction ts arbitrary: l num)
  case (Cons t ts)
  have t: "str_ok t" "0 < blen t" "blen t < 256" "length (str_bytes t) = blen t" using Cons.prems by simp_all
  show ?case
    using Cons str_front [OF t(1), of "un_topics_enc ts"] t assms(1)
    by (subst unsub_topics.simps) (simp add: mem_ok_def Let_def)
qed (simp add: unsub_topics.simps)

text \<open>The subscription that a topic of a SUBSCRIBE asks for.\<close>

definition subscription :: "nat \<Rightarrow> mqtt_topic_qos \<Rightarrow> subinfo" where
  "subscription i t =
     \<lparr>si_qos = tq_qos t, si_no_local = tq_nolocal t, si_rap = tq_rap t, si_retain_handling = tq_retain_handling t,
      si_topic = str_bytes (tq_topic t), si_subid = i\<rparr>"

lemma sub_entry_options: "options_ok t \<Longrightarrow> sub_entry i (str_bytes (tq_topic t)) (topic_options t) = subscription i t"
  using word_less_cases(2) [of "tq_qos t"] word_less_cases(1) [of "tq_nolocal t"] word_less_cases(1) [of "tq_rap t"]
    word_less_cases(2) [of "tq_retain_handling t"]
  by (auto simp: options_ok_def sub_entry_def subscription_def topic_options_def)

section \<open>Clients and broker\<close>

text \<open>
  A client encodes the protocol data of a message with the codec, and the broker reads the bytes into its list.
\<close>

definition delivered :: "allocator \<Rightarrow> u32 \<Rightarrow> mqtt_nng_msg \<Rightarrow> subinfo list \<Rightarrow> (int \<times> subinfo list option) option" where
  "delivered al rnd m l =
     (case (nni_mqttv5_msg_encode al rnd m, m_proto_data m) of
        (Some (rv, m'), Some d) \<Rightarrow>
          if rv \<noteq> 0 then None
          else if packet_type d = NNG_MQTT_SUBSCRIBE then nmq_subinfo_decode True al (Some m') (Some l) MQTT_PROTOCOL_VERSION_v5
          else nmq_unsubinfo_decode al (Some m') (Some l) MQTT_PROTOCOL_VERSION_v5
      | _ \<Rightarrow> None)"

fun deliver_all :: "allocator \<Rightarrow> u32 \<Rightarrow> mqtt_nng_msg list \<Rightarrow> subinfo list \<Rightarrow> subinfo list option" where
  "deliver_all al rnd [] l = Some l"
| "deliver_all al rnd (m # ms) l =
     (case delivered al rnd m l of
        Some (rv, Some l) \<Rightarrow> if rv < 0 then None else deliver_all al rnd ms l
      | _ \<Rightarrow> None)"

text \<open>
  The packets: a SUBSCRIBE or an UNSUBSCRIBE that can be sent, with an identifier other than zero, topics that
  are strings of C and not empty, and in an UNSUBSCRIBE shorter than 256 bytes.
\<close>

definition topic_str :: "mqtt_buf \<Rightarrow> bool" where
  "topic_str s \<longleftrightarrow> 0 < blen s \<and> 0 \<notin> set (str_bytes s)"

definition sub_packet :: "mqtt_nng_msg \<Rightarrow> bool" where
  "sub_packet m \<longleftrightarrow> msg_wf m \<and>
     (case m_proto_data m of
        None \<Rightarrow> False
      | Some d \<Rightarrow>
          sub_packet_id d \<noteq> 0 \<and>
          (packet_type d = NNG_MQTT_SUBSCRIBE \<and> subscribe5_ok (begun d) \<and>
             list_all (sub_prop True) (props_list (sub_props d)) \<and> list_all (\<lambda>t. topic_str (tq_topic t)) (topics d) \<and>
             length (subscribe5_body (set_bit_1 (begun d))) \<le> MQTT_MAX_MSG_LEN \<or>
           packet_type d = NNG_MQTT_UNSUBSCRIBE \<and> unsubscribe5_ok (begun d) \<and>
             list_all (sub_prop False) (props_list (sub_props d)) \<and> list_all (\<lambda>t. topic_str t \<and> blen t < 256) (un_topics d) \<and>
             length (unsubscribe5_body (set_bit_1 (begun d))) \<le> MQTT_MAX_MSG_LEN))"

text \<open>What a packet means: the last subscription to a topic counts, until it is cancelled.\<close>

definition sub_effect :: "mqtt_nng_msg \<Rightarrow> (bytes \<Rightarrow> subinfo option) \<Rightarrow> bytes \<Rightarrow> subinfo option" where
  "sub_effect m s =
     (case m_proto_data m of
        None \<Rightarrow> s
      | Some d \<Rightarrow>
          if packet_type d = NNG_MQTT_SUBSCRIBE
          then foldl (\<lambda>s t. s(str_bytes (tq_topic t) \<mapsto> subscription (subid_of 0 (props_list (sub_props d))) t)) s (topics d)
          else foldl (\<lambda>s t. s(str_bytes t := None)) s (un_topics d))"

lemma cstr_topic: "topic_str s \<Longrightarrow> cstr (str_bytes s) = str_bytes s"
  by (auto simp: topic_str_def cstr_def takeWhile_eq_all_conv)


lemma props_bytes_plain:
  "cmd = CMD_SUBSCRIBE \<or> cmd = CMD_UNSUBSCRIBE \<Longrightarrow>
     NNI_PUT16 pid @ props_bytes cmd p @ r = sub_bytes pid (props_list p) r"
  by (auto simp: props_bytes_def wire_props_def sent_props_def encoded_def sub_bytes_def Let_def)

lemma v5_encoded:
  assumes "mem_ok al" and "msg_wf m" and "m_proto_data m = Some d" and "(packet_type d, p) \<in> set (v5_spec rnd)"
    and "s_ok p (begun d)" and "length (s_body p (s_out p al (begun d))) \<le> MQTT_MAX_MSG_LEN"
  obtains m' where "nni_mqttv5_msg_encode al rnd m = Some (0, m')"
    and "nni_msg_body m' = s_body p (sized (s_body p) (s_out p al (begun d)))"
proof (rule encode_with_ok [OF assms(1-3) v5_implemented [OF assms(4)] assms(5,6)], goal_cases)
  case (1 m' s dec)
  then show ?thesis using that [of m'] by (simp add: nni_mqttv5_msg_encode_def holds_def)
qed

lemma begun_fields [simp]:
  "sub_packet_id (begun d) = sub_packet_id d" "sub_props (begun d) = sub_props d" "topics (begun d) = topics d"
  "un_topics (begun d) = un_topics d"
  by (simp_all add: begun_def started_def)

lemma deliver_subscribe:
  assumes "mem_ok al" and "msg_wf m" and d: "m_proto_data m = Some d" "packet_type d = NNG_MQTT_SUBSCRIBE"
    "subscribe5_ok (begun d)" "length (subscribe5_body (set_bit_1 (begun d))) \<le> MQTT_MAX_MSG_LEN"
    and ok: "sub_packet_id d \<noteq> 0" "list_all (sub_prop True) (props_list (sub_props d))"
      "list_all (\<lambda>t. topic_str (tq_topic t)) (topics d)"
  shows "delivered al rnd m l = Some (int (length (topics d)),
    Some (foldl nmq_subinfol_add_or l (map (subscription (subid_of 0 (props_list (sub_props d)))) (topics d))))"
proof -
  let ?p = "\<lparr>s_ok = subscribe5_ok, s_out = \<lambda>_. set_bit_1, s_body = subscribe5_body,
         s_got = \<lambda>s g. g\<lparr>sub_packet_id := sub_packet_id s, sub_props := got_props CMD_SUBSCRIBE (sub_props s),
           topics := topics s\<rparr>\<rparr>"
  let ?ps = "props_list (sub_props d)"
  have p: "(packet_type d, ?p) \<in> set (v5_spec rnd)" by (simp add: d(2) v5_spec_def)
  obtain m' where m': "nni_mqttv5_msg_encode al rnd m = Some (0, m')"
      "nni_msg_body m' = subscribe5_body (sized subscribe5_body (set_bit_1 (begun d)))"
    using v5_encoded [OF assms(1,2) d(1) p] d(3,4) by auto
  have b: "nni_msg_body m' = sub_bytes (sub_packet_id d) ?ps (topics_enc topic_options (topics d))"
    using m'(2) by (simp add: sized_def set_bit_1_def subscribe5_body_def props_bytes_plain)
  have "length (props_enc ?ps) \<le> MQTT_MAX_MSG_LEN" "topics_ok (topics d)" "list_all options_ok (topics d)"
    using d(3) by (simp_all add: subscribe5_ok_def sendable_def)
  moreover from this(3) have "map (\<lambda>t. sub_entry i (str_bytes (tq_topic t)) (topic_options t)) (topics d) =
      map (subscription i) (topics d)" for i
    by (simp add: list_all_iff sub_entry_options)
  ultimately show ?thesis
    using m'(1) b d(1,2) ok(3) sub_header_enc [OF ok(1,2)] sub_topics_enc [OF assms(1), of "topics d"]
    by (simp add: delivered_def nmq_subinfo_decode_def list_all_iff topic_str_def cong: map_cong)
qed

lemma deliver_unsubscribe:
  assumes "mem_ok al" and "msg_wf m" and d: "m_proto_data m = Some d" "packet_type d = NNG_MQTT_UNSUBSCRIBE"
    "unsubscribe5_ok (begun d)" "length (unsubscribe5_body (set_bit_1 (begun d))) \<le> MQTT_MAX_MSG_LEN"
    and ok: "sub_packet_id d \<noteq> 0" "list_all (sub_prop False) (props_list (sub_props d))"
  shows "delivered al rnd m l =
    Some (case unsub_topics al (un_topics_enc (un_topics d)) l 0 of (rv, l) \<Rightarrow> (rv, Some l))"
proof -
  let ?p = "\<lparr>s_ok = unsubscribe5_ok, s_out = \<lambda>_. set_bit_1, s_body = unsubscribe5_body,
         s_got = \<lambda>s g. g\<lparr>sub_packet_id := sub_packet_id s, sub_props := got_props CMD_UNSUBSCRIBE (sub_props s),
           un_topics := un_topics s\<rparr>\<rparr>"
  let ?ps = "props_list (sub_props d)"
  have p: "(packet_type d, ?p) \<in> set (v5_spec rnd)" by (simp add: d(2) v5_spec_def)
  obtain m' where m': "nni_mqttv5_msg_encode al rnd m = Some (0, m')"
      "nni_msg_body m' = unsubscribe5_body (sized unsubscribe5_body (set_bit_1 (begun d)))"
    using v5_encoded [OF assms(1,2) d(1) p] d(3,4) by auto
  have b: "nni_msg_body m' = sub_bytes (sub_packet_id d) ?ps (un_topics_enc (un_topics d))"
    using m'(2) by (simp add: sized_def set_bit_1_def unsubscribe5_body_def props_bytes_plain)
  have "length (props_enc ?ps) \<le> MQTT_MAX_MSG_LEN" using d(3) by (simp add: unsubscribe5_ok_def sendable_def)
  then show ?thesis
    using m'(1) b d(1,2) sub_header_enc [OF ok(1,2)] by (simp add: delivered_def nmq_unsubinfo_decode_def)
qed

lemma foldl_map_updates: "foldl (\<lambda>s v. s(f v \<mapsto> v)) s (map g ts) = foldl (\<lambda>s t. s(f (g t) \<mapsto> g t)) s ts"
  by (induction ts arbitrary: s) simp_all

lemma foldl_map_deletes: "foldl (\<lambda>s r. s(f r := None)) s (map g ts) = foldl (\<lambda>s t. s(f (g t) := None)) s ts"
  by (induction ts arbitrary: s) simp_all

lemma delivered_ok:
  assumes "mem_ok al" and "sub_packet m" and "subs_wf l"
  shows "\<exists>rv l'. delivered al rnd m l = Some (rv, Some l') \<and> 0 \<le> rv \<and> subs_wf l' \<and> subs l' = sub_effect m (subs l)"
proof -
  obtain d where d: "m_proto_data m = Some d" "msg_wf m" "sub_packet_id d \<noteq> 0"
    using assms(2) by (auto simp: sub_packet_def split: option.splits)
  let ?i = "subid_of 0 (props_list (sub_props d))"
  from assms(2) d(1) consider "packet_type d = NNG_MQTT_SUBSCRIBE" "subscribe5_ok (begun d)"
      "list_all (sub_prop True) (props_list (sub_props d))" "list_all (\<lambda>t. topic_str (tq_topic t)) (topics d)"
      "length (subscribe5_body (set_bit_1 (begun d))) \<le> MQTT_MAX_MSG_LEN"
    | "packet_type d = NNG_MQTT_UNSUBSCRIBE" "unsubscribe5_ok (begun d)"
      "list_all (sub_prop False) (props_list (sub_props d))" "list_all (\<lambda>t. topic_str t \<and> blen t < 256) (un_topics d)"
      "length (unsubscribe5_body (set_bit_1 (begun d))) \<le> MQTT_MAX_MSG_LEN"
    by (auto simp: sub_packet_def)
  then show ?thesis
  proof cases
    case 1
    have "foldl (\<lambda>s t. s(cstr (si_topic (subscription ?i t)) \<mapsto> subscription ?i t)) (subs l) (topics d) = sub_effect m (subs l)"
      using 1(1,4) d(1)
      by (auto simp: sub_effect_def subscription_def list_all_iff cstr_topic intro!: foldl_cong)
    then show ?thesis
      using deliver_subscribe [OF assms(1) d(2,1) 1(1,2,5) d(3) 1(3,4)] sub_table.adds [OF assms(3), of "map (subscription ?i) (topics d)"]
      by (simp add: foldl_map_updates)
  next
    case 2
    have t: "list_all str_ok (un_topics d)" "\<forall>t \<in> set (un_topics d). 0 < blen t \<and> blen t < 256"
      using 2(2,4) by (simp_all add: unsubscribe5_ok_def list_all_iff topic_str_def)
    have "foldl (\<lambda>s t. s(cstr (str_bytes t) := None)) (subs l) (un_topics d) = sub_effect m (subs l)"
      using 2(1,4) d(1) by (auto simp: sub_effect_def list_all_iff cstr_topic intro!: foldl_cong)
    then show ?thesis
      using deliver_unsubscribe [OF assms(1) d(2,1) 2(1,2,5) d(3) 2(3)] unsub_topics_enc [OF assms(1) t]
        sub_table.dels [OF assms(3), of "map str_bytes (un_topics d)"]
      by (simp add: foldl_map_deletes)
  qed
qed


definition retained_sub :: mqtt_msg where
  "retained_sub = fresh\<lparr>fh_common := 0x80, sub_packet_id := 1,
     topics := [\<lparr>tq_topic = some_topic, tq_qos = 1, tq_nolocal = 0, tq_rap = 1, tq_retain_handling = 2\<rparr>]\<rparr>"

lemma retained_sub_packet: "sub_packet (some_message retained_sub)"
  using some_message_wf [of retained_sub]
  by (simp add: sub_packet_def some_message_def retained_sub_def begun_def started_def fresh_def nni_proto_data_init_def
      zero_mqtt_def packet_type_def subscribe5_ok_def options_ok_def sendable_def topic_str_def some_topic_def
      str_bytes_def subscribe5_body_def set_bit_1_def props_bytes_def wire_props_def sent_props_def encoded_def
      str_ok_def str_enc_def write_var_loop.simps zero_msg_def)


section \<open>Where the parser fails\<close>

lemma unsub_topics_long:
  assumes "256 \<le> length t"
  shows "subs_wf l \<Longrightarrow> unsub_topics al p l num = (rv, l') \<Longrightarrow> subs l' t = subs l t"
proof (induction al p l num rule: unsub_topics.induct)
  case (1 al p l num)
  let ?n = "unat (NNI_GET16 p 0) mod 256"
  have "length (cstr (take ?n (drop 2 p))) \<le> ?n"
    using length_takeWhile_le [of _ "take ?n (drop 2 p)"] by (simp add: cstr_def le_trans [OF length_takeWhile_le])
  then have "cstr (take ?n (drop 2 p)) \<noteq> t" using assms mod_less_divisor [of 256 "unat (NNI_GET16 p 0)"] by force
  then have "subs (nmq_subinfol_rm_or l (take ?n (drop 2 p))) t = subs l t"
    using sub_table.del_lookup [OF "1.prems"(1)] by simp
  then show ?case
    using "1.IH" "1.prems" sub_table.del_inv [OF "1.prems"(1)]
    by (subst (asm) (2) unsub_topics.simps) (auto simp: Let_def split: if_splits)
qed

text \<open>C32: A subscription to a topic of 256 bytes or more can never be cancelled: \<^verbatim>\<open>nmq_unsubinfo_decode\<close> keeps the length of
  a topic in eight bits, so that no UNSUBSCRIBE whatsoever removes such a topic from the list.\<close>

theorem long_topics_stay:
  assumes "nmq_unsubinfo_decode al msg (Some l) ver = Some (rv, Some l')" and "subs_wf l" and "256 \<le> length t"
  shows "subs l' t = subs l t"
  using assms unsub_topics_long [OF assms(3,2)]
  by (auto simp: nmq_unsubinfo_decode_def split: option.splits sum.splits prod.splits)

definition short_unsub :: "unit nng_msg" where
  "short_unsub = msg_put (\<lambda>_. True) zero_msg [0x00, 0x01, 0x00, 0x00, 0x01, 0x61]"

definition long_sub :: subinfo where
  "long_sub = \<lparr>si_qos = 0, si_no_local = 0, si_rap = 0, si_retain_handling = 0, si_topic = replicate 256 0x61, si_subid = 0\<rparr>"

lemma short_unsub_body: "nni_msg_body short_unsub = [0x00, 0x01, 0x00, 0x00, 0x01, 0x61]"
  using msg_wf_zero by (simp add: short_unsub_def mem_ok_def) (simp add: zero_msg_def nni_msg_body_def)

theorem long_topics_stay_witness:
  "\<exists>l'. nmq_unsubinfo_decode (\<lambda>_. True) (Some short_unsub) (Some [long_sub]) MQTT_PROTOCOL_VERSION_v5 = Some (1, Some l') \<and>
     subs l' (replicate 256 0x61) = Some long_sub"
proof -
  have c: "cstr (replicate 256 0x61) = replicate 256 0x61" "cstr [0x61] = [0x61]" by (simp_all add: cstr_def)
  have "replicate 256 (0x61 :: u8) \<noteq> [0x61]" by (simp add: numeral_eq_Suc)
  then have d: "nmq_unsubinfo_decode (\<lambda>_. True) (Some short_unsub) (Some [long_sub]) MQTT_PROTOCOL_VERSION_v5 =
      Some (1, Some [long_sub])"
    using c
    by (simp add: nmq_unsubinfo_decode_def short_unsub_body sub_header_def get_var_integer_def get_var_loop.simps
        NNI_GET16_def sub_props_loop.simps unsub_topics.simps nmq_subinfol_rm_or_def long_sub_def Let_def)
  have "subs_wf [long_sub]" by (simp add: subs_wf_def)
  moreover have "subs [long_sub] (replicate 256 0x61) = Some long_sub" using c(1) by (simp add: subs_def long_sub_def)
  ultimately show ?thesis using long_topics_stay [OF d, of "replicate 256 0x61"] d by simp
qed

text \<open>C33: The parser reads behind the packet. The length of the properties is compared with the length of the body only
  after the loop over them: a SUBSCRIBE or UNSUBSCRIBE of four bytes that announces three bytes of properties and has
  the first of a user property makes the parser read the length of its key from behind the body.\<close>

theorem sub_reads_past_body:
  assumes "nni_msg_body msg = NNI_PUT16 pid @ [3, USER_PROPERTY]" and "pid \<noteq> 0"
  shows "nmq_subinfo_decode st al (Some msg) (Some l) MQTT_PROTOCOL_VERSION_v5 = None \<and>
    nmq_unsubinfo_decode al (Some msg) (Some l) MQTT_PROTOCOL_VERSION_v5 = None"
proof -
  have b: "NNI_GET16 (NNI_PUT16 pid @ [3, USER_PROPERTY]) 0 = pid" by (rule GET16_front)
  have v: "get_var_integer [3, USER_PROPERTY] 0 = Some (3, 1)"
    by (simp add: get_var_integer_def get_var_loop.simps power_u64_128 wrap32_def Let_def)
  have "sub_props_loop sub (NNI_PUT16 pid @ [3, USER_PROPERTY]) 6 3 0 = None" for sub
    by (subst sub_props_loop.simps) (simp add: nth_append numeral_2_eq_2)
  then have "sub_header sub (NNI_PUT16 pid @ [3, USER_PROPERTY]) MQTT_PROTOCOL_VERSION_v5 = None" for sub
    using b v assms(2) by (simp add: sub_header_def Let_def eval_nat_numeral)
  then show ?thesis by (simp add: nmq_subinfo_decode_def nmq_unsubinfo_decode_def assms(1))
qed


definition short_props :: "unit nng_msg" where
  "short_props = msg_put (\<lambda>_. True) zero_msg (NNI_PUT16 1 @ [3, USER_PROPERTY])"

theorem sub_reads_past_body_witness:
  "nni_msg_body short_props = NNI_PUT16 1 @ [3, USER_PROPERTY] \<and>
   nmq_subinfo_decode True (\<lambda>_. True) (Some short_props) (Some []) MQTT_PROTOCOL_VERSION_v5 = None \<and>
   nmq_unsubinfo_decode (\<lambda>_. True) (Some short_props) (Some []) MQTT_PROTOCOL_VERSION_v5 = None"
proof -
  have "nni_msg_body short_props = NNI_PUT16 1 @ [3, USER_PROPERTY]"
    using msg_wf_zero by (simp add: short_props_def mem_ok_def) (simp add: zero_msg_def nni_msg_body_def)
  then show ?thesis using sub_reads_past_body [of short_props 1] by simp
qed

end
