(* ===== verification/Connect.thy ===== *)
theory Connect
  imports SubInfo Utf8
begin

text \<open>
  The connections of the broker in \<^verbatim>\<open>mqtt_parser.c\<close>: \<^verbatim>\<open>conn_handler\<close> reads a CONNECT packet into the parameters of
  the connection, and \<^verbatim>\<open>verify_connect\<close> looks the credentials up.
\<close>

section \<open>Strings of a packet\<close>

text \<open>The value of an expression that is converted to \<^verbatim>\<open>int\<close>.\<close>

definition c_int :: "int \<Rightarrow> int" where
  "c_int x = (x + 2 ^ 31) mod 2 ^ 32 - 2 ^ 31"

lemma c_int_id [simp]: "- (2 ^ 31) \<le> x \<Longrightarrow> x < 2 ^ 31 \<Longrightarrow> c_int x = x"
  by (simp add: c_int_def)

definition byte_at :: "bytes \<Rightarrow> nat \<Rightarrow> u8 option" where
  "byte_at b i = (if i < length b then Some (b ! i) else None)"

text \<open>
  The result is the string that is returned, \<open>None\<close> for a null pointer, with the new \<^verbatim>\<open>*str_len\<close> and \<^verbatim>\<open>*pos\<close>. The outer
  \<open>None\<close> is a read behind the packet.
\<close>

definition copyn_utf8_str :: "allocator \<Rightarrow> bytes \<Rightarrow> nat \<Rightarrow> int \<Rightarrow> (bytes option \<times> int \<times> nat) option" where
  "copyn_utf8_str al src pos limit =
     (if limit < 2 then Some (None, 0, pos)
      else if length src < pos + 2 then None
      else
        (let end_pos = c_int (limit + int pos);
             str_len = unat (NNI_GET16 src pos);
             pos = pos + 2 in
         if int str_len > limit - 2 then Some (None, - 1, pos)
         else if str_len = 0 then Some (None, 0, pos)
         else if length src < pos + str_len then None
         else if utf8_check (Some (bslice pos str_len src)) \<noteq> ERR_SUCCESS then Some (None, - 1, pos)
         else if \<not> al (str_len + 1) then Some (None, 0, pos)
         else if c_int (int (pos + str_len)) > end_pos then Some (None, - 1, pos + str_len)
         else Some (Some (bslice pos str_len src), int str_len, pos + str_len)))"

definition copyn_str :: "allocator \<Rightarrow> bytes \<Rightarrow> nat \<Rightarrow> int \<Rightarrow> (bytes option \<times> int \<times> nat) option" where
  "copyn_str al src pos limit =
     (if limit < 2 then Some (None, 0, pos)
      else if length src < pos + 2 then None
      else
        (let str_len = unat (NNI_GET16 src pos);
             pos = pos + 2 in
         if int str_len > limit - 2 then Some (None, - 1, pos)
         else if str_len = 0 then Some (None, 0, pos)
         else if \<not> al (str_len + 1) then Some (None, 0, pos)
         else if length src < pos + str_len then None
         else Some (Some (bslice pos str_len src), int str_len, pos + str_len)))"

section \<open>The parameters of a connection\<close>

text \<open>The length is a \<^verbatim>\<open>uint32_t\<close>, the body the bytes before the zero that \<^verbatim>\<open>copyn_utf8_str\<close> puts at the end.\<close>

record mqtt_string =
  str_body :: "bytes option"
  str_length :: nat

definition mstring :: "bytes option \<Rightarrow> int \<Rightarrow> mqtt_string" where
  "mstring b n = \<lparr>str_body = b, str_length = nat (n mod 2 ^ 32)\<rparr>"

abbreviation null_string :: mqtt_string where
  "null_string \<equiv> \<lparr>str_body = None, str_length = 0\<rparr>"

text \<open>
  The members of \<^verbatim>\<open>struct conn_param\<close> that the functions here read or write. The pointers into the property lists are the
  values they point to.
\<close>

record conn_param =
  cp_will_delay_interval :: nat
  cp_msg_expiry_interval :: nat
  cp_mount_point :: "bytes option"
  cp_session_expiry_interval :: u32
  cp_max_packet_size :: u32
  cp_rx_max :: u16
  cp_keepalive_mqtt :: u16
  cp_topic_alias_max :: u16
  cp_pro_ver :: u8
  cp_con_flag :: u8
  cp_clean_start :: u8
  cp_will_flag :: u8
  cp_will_retain :: u8
  cp_will_qos :: u8
  cp_req_resp_info :: u8
  cp_req_problem_info :: u8
  cp_payload_format_indicator :: u8
  cp_assignedid :: bool
  cp_pro_name :: mqtt_string
  cp_clientid :: mqtt_string
  cp_will_topic :: mqtt_string
  cp_will_msg :: mqtt_string
  cp_username :: mqtt_string
  cp_password :: mqtt_string
  cp_auth_method :: "mqtt_buf option"
  cp_auth_data :: "mqtt_buf option"
  cp_content_type :: "mqtt_buf option"
  cp_resp_topic :: "mqtt_buf option"
  cp_corr_data :: "mqtt_buf option"
  cp_user_property :: "mqtt_kv option"
  cp_payload_user_property :: "mqtt_kv option"
  cp_prop_len :: nat
  cp_properties :: "property list option"
  cp_will_prop_len :: nat
  cp_will_properties :: "property list option"

text \<open>The struct comes from \<^verbatim>\<open>nng_alloc\<close>, so that the members left alone have any value.\<close>

definition conn_param_init :: "conn_param \<Rightarrow> conn_param" where
  "conn_param_init cp =
     cp\<lparr>cp_pro_name := null_string, cp_clientid := null_string, cp_will_topic := null_string,
        cp_will_msg := null_string, cp_username := null_string, cp_password := null_string,
        cp_assignedid := False, cp_mount_point := None,
        cp_session_expiry_interval := 0, cp_rx_max := 65535, cp_max_packet_size := 0, cp_topic_alias_max := 0,
        cp_req_resp_info := 0, cp_req_problem_info := 1, cp_auth_method := None, cp_auth_data := None,
        cp_user_property := None,
        cp_will_delay_interval := 0, cp_payload_format_indicator := 0, cp_msg_expiry_interval := 0,
        cp_content_type := None, cp_resp_topic := None, cp_corr_data := None, cp_payload_user_property := None,
        cp_prop_len := 0, cp_properties := None, cp_will_prop_len := 0, cp_will_properties := None\<rparr>"

text \<open>
  \<open>on_u8\<close> and the others store the value of a property when it is there; \<open>None\<close> is a read of another member of
  the union.
\<close>

type_synonym 'v store = "property_value option \<Rightarrow> ('v \<Rightarrow> conn_param \<Rightarrow> conn_param) \<Rightarrow> conn_param \<Rightarrow> conn_param option"

definition on_u8 :: "u8 store" where
  "on_u8 prop_data f cp = (case prop_data of None \<Rightarrow> Some cp | Some (V_u8 v) \<Rightarrow> Some (f v cp) | _ \<Rightarrow> None)"

definition on_u16 :: "u16 store" where
  "on_u16 prop_data f cp = (case prop_data of None \<Rightarrow> Some cp | Some (V_u16 v) \<Rightarrow> Some (f v cp) | _ \<Rightarrow> None)"

definition on_u32 :: "u32 store" where
  "on_u32 prop_data f cp = (case prop_data of None \<Rightarrow> Some cp | Some (V_u32 v) \<Rightarrow> Some (f v cp) | _ \<Rightarrow> None)"

definition on_str :: "mqtt_buf store" where
  "on_str prop_data f cp = (case prop_data of None \<Rightarrow> Some cp | Some (V_str v) \<Rightarrow> Some (f v cp) | _ \<Rightarrow> None)"

definition on_binary :: "mqtt_buf store" where
  "on_binary prop_data f cp = (case prop_data of None \<Rightarrow> Some cp | Some (V_binary v) \<Rightarrow> Some (f v cp) | _ \<Rightarrow> None)"

definition on_strpair :: "mqtt_kv store" where
  "on_strpair prop_data f cp = (case prop_data of None \<Rightarrow> Some cp | Some (V_strpair v) \<Rightarrow> Some (f v cp) | _ \<Rightarrow> None)"

fun in_turn :: "('a \<Rightarrow> 'a option) list \<Rightarrow> 'a \<Rightarrow> 'a option" where
  "in_turn [] x = Some x"
| "in_turn (f # fs) x = (case f x of None \<Rightarrow> None | Some y \<Rightarrow> in_turn fs y)"

definition conn_param_set_property :: "conn_param \<Rightarrow> property list option \<Rightarrow> conn_param option" where
  "conn_param_set_property cp prop =
     in_turn
       [on_u32 (property_get_value prop SESSION_EXPIRY_INTERVAL) (\<lambda>v cp. cp\<lparr>cp_session_expiry_interval := v\<rparr>),
        on_u16 (property_get_value prop RECEIVE_MAXIMUM) (\<lambda>v cp. cp\<lparr>cp_rx_max := v\<rparr>),
        on_u32 (property_get_value prop MAXIMUM_PACKET_SIZE) (\<lambda>v cp. cp\<lparr>cp_max_packet_size := v\<rparr>),
        on_u16 (property_get_value prop TOPIC_ALIAS_MAXIMUM) (\<lambda>v cp. cp\<lparr>cp_topic_alias_max := v\<rparr>),
        on_u8 (property_get_value prop REQUEST_RESPONSE_INFORMATION) (\<lambda>v cp. cp\<lparr>cp_req_resp_info := v\<rparr>),
        on_u8 (property_get_value prop REQUEST_PROBLEM_INFORMATION) (\<lambda>v cp. cp\<lparr>cp_req_problem_info := v\<rparr>),
        on_str (property_get_value prop AUTHENTICATION_METHOD) (\<lambda>v cp. cp\<lparr>cp_auth_method := Some v\<rparr>),
        on_binary (property_get_value prop AUTHENTICATION_DATA) (\<lambda>v cp. cp\<lparr>cp_auth_data := Some v\<rparr>),
        on_strpair (property_get_value prop USER_PROPERTY) (\<lambda>v cp. cp\<lparr>cp_user_property := Some v\<rparr>)]
       cp"

text \<open>
  \<^verbatim>\<open>clock\<close> is the time of \<^verbatim>\<open>nng_clock\<close> in milliseconds. The product is one of \<^verbatim>\<open>uint32_t\<close>, the sum one of \<^verbatim>\<open>nng_time\<close>.
\<close>

definition conn_param_set_will_property :: "nat \<Rightarrow> conn_param \<Rightarrow> property list option \<Rightarrow> conn_param option" where
  "conn_param_set_will_property clock cp prop =
     in_turn
       [on_u32 (property_get_value prop WILL_DELAY_INTERVAL)
          (\<lambda>v cp. cp\<lparr>cp_will_delay_interval := (clock + wrap32 (unat v * 1000)) mod 2 ^ 64\<rparr>),
        on_u8 (property_get_value prop PAYLOAD_FORMAT_INDICATOR) (\<lambda>v cp. cp\<lparr>cp_payload_format_indicator := v\<rparr>),
        on_u32 (property_get_value prop MESSAGE_EXPIRY_INTERVAL) (\<lambda>v cp. cp\<lparr>cp_msg_expiry_interval := unat v\<rparr>),
        on_str (property_get_value prop CONTENT_TYPE) (\<lambda>v cp. cp\<lparr>cp_content_type := Some v\<rparr>),
        on_str (property_get_value prop RESPONSE_TOPIC) (\<lambda>v cp. cp\<lparr>cp_resp_topic := Some v\<rparr>),
        on_binary (property_get_value prop CORRELATION_DATA) (\<lambda>v cp. cp\<lparr>cp_corr_data := Some v\<rparr>),
        on_strpair (property_get_value prop USER_PROPERTY) (\<lambda>v cp. cp\<lparr>cp_payload_user_property := Some v\<rparr>)]
       cp"

section \<open>The handler\<close>

abbreviation CLIENT_IDENTIFIER_NOT_VALID :: nat where "CLIENT_IDENTIFIER_NOT_VALID \<equiv> 133"
abbreviation PAYLOAD_FORMAT_INVALID :: nat where "PAYLOAD_FORMAT_INVALID \<equiv> 153"

definition mqtt_protocol_name_v31 :: bytes where
  "mqtt_protocol_name_v31 = [0x4d, 0x51, 0x49, 0x73, 0x64, 0x70]"

text \<open>
  The handler is a sequence of stages, each the code for one part of the packet. A stage returns from the handler,
  \<open>Inl\<close> with the code, or goes on with the position behind what it read, \<open>Inr\<close>; both with the parameters.
  \<^verbatim>\<open>rv\<close> is zero whenever a stage goes on.
\<close>

type_synonym stage = "(nat \<times> conn_param + conn_param \<times> nat) option"

definition then_stage :: "stage \<Rightarrow> (conn_param \<Rightarrow> nat \<Rightarrow> stage) \<Rightarrow> stage" where
  "then_stage x f = (case x of Some (Inr (cp, pos)) \<Rightarrow> f cp pos | _ \<Rightarrow> x)"

text \<open>The argument \<^verbatim>\<open>max - pos\<close>, an unsigned difference that becomes an \<^verbatim>\<open>int\<close>.\<close>

definition room_left :: "nat \<Rightarrow> nat \<Rightarrow> int" where
  "room_left max_len pos = c_int (int max_len - int pos)"

text \<open>
  The name, then the version, the flags and the time to keep the connection alive: four bytes, which are read after the
  comparison with \<^verbatim>\<open>max\<close>, the number of bytes of the packet. The names are compared by \<^verbatim>\<open>strncmp\<close>, over the length of the expected name.
\<close>

definition conn_protocol :: "allocator \<Rightarrow> bytes \<Rightarrow> nat \<Rightarrow> conn_param \<Rightarrow> nat \<Rightarrow> stage" where
  "conn_protocol al packet max_len cp pos =
     (case copyn_utf8_str al packet pos (room_left max_len pos) of
        None \<Rightarrow> None
      | Some (name, len_of_str, pos) \<Rightarrow>
          (let cp = cp\<lparr>cp_pro_name := mstring name len_of_str\<rparr> in
           case name of
             None \<Rightarrow> Some (Inl (PROTOCOL_ERROR, cp))
           | Some pro_name \<Rightarrow>
               if len_of_str < 0 \<or> pos + 4 > max_len then Some (Inl (PROTOCOL_ERROR, cp))
               else if length packet < pos + 4 then None
               else
                 (let f = packet ! (pos + 1);
                      cp = cp\<lparr>cp_pro_ver := packet ! pos AND 0x07, cp_con_flag := f,
                        cp_clean_start := drop_bit 1 (f AND 0x02), cp_will_flag := drop_bit 2 (f AND 0x04),
                        cp_will_qos := drop_bit 3 (f AND 0x18), cp_will_retain := drop_bit 5 (f AND 0x20)\<rparr> in
                  if f AND 0x01 \<noteq> 0 \<or> cp_will_flag cp = 0 \<and> cp_will_retain cp \<noteq> 0 then
                    Some (Inl (PROTOCOL_ERROR, cp))
                  else if cp_will_flag cp = 1 \<and> cp_will_qos cp > 2 \<or>
                    take 4 pro_name \<noteq> mqtt_protocol_name \<and> take 6 pro_name \<noteq> mqtt_protocol_name_v31 \<or>
                    cp_pro_ver cp > 5 \<or> cp_pro_ver cp < 3 then
                    Some (Inl (PROTOCOL_ERROR, cp))
                  else Some (Inr (cp\<lparr>cp_keepalive_mqtt := NNI_GET16 packet (pos + 2)\<rparr>, pos + 4)))))"

text \<open>
  The length of the properties is read before they are decoded: the loop of the handler, which adds to
  \<^verbatim>\<open>prop_len\<close>. It returns whether the packet goes on behind the length.
\<close>

function prop_len_loop :: "bytes \<Rightarrow> nat \<Rightarrow> nat \<Rightarrow> nat \<Rightarrow> nat \<Rightarrow> (bool \<times> nat) option" where
  "prop_len_loop packet max_len p i prop_len =
     (case byte_at packet p of
        None \<Rightarrow> None
      | Some temp \<Rightarrow>
          (let prop_len = wrap32 (prop_len + unat (temp AND 0x7f) * power_u64 0x80 i) in
           if p + 1 \<ge> max_len then Some (False, prop_len)
           else if temp AND 0x80 > 0 \<and> i < 4 then prop_len_loop packet max_len (p + 1) (i + 1) prop_len
           else Some (True, prop_len)))"
  by auto

termination
  by (relation "measure (\<lambda>(packet, max_len, p, i, prop_len). 5 - i)") auto

declare prop_len_loop.simps [simp del]

definition conn_properties :: "bool \<Rightarrow> allocator \<Rightarrow> bytes \<Rightarrow> nat \<Rightarrow> conn_param \<Rightarrow> nat \<Rightarrow> stage" where
  "conn_properties st al packet max_len cp pos =
     (if cp_pro_ver cp \<noteq> 5 then Some (Inr (cp, pos))
      else if pos + 3 > max_len then Some (Inl (PROTOCOL_ERROR, cp))
      else
        (case prop_len_loop packet max_len pos 0 (cp_prop_len cp) of
           None \<Rightarrow> None
         | Some (goes_on, prop_len) \<Rightarrow>
             (let cp = cp\<lparr>cp_prop_len := prop_len\<rparr> in
              if \<not> goes_on \<or> prop_len > max_len - pos - 1 - unat (cp_will_flag cp) * 2 then Some (Inl (PROTOCOL_ERROR, cp))
              else
                (case decode_buf_properties st al packet max_len pos True of
                   None \<Rightarrow> None
                 | Some (properties, pos, prop_len) \<Rightarrow>
                     (let cp = cp\<lparr>cp_properties := properties, cp_prop_len := prop_len\<rparr> in
                      if prop_len = LEN_ERROR then Some (Inl (PROTOCOL_ERROR, cp))
                      else if properties = None then Some (Inr (cp, pos))
                      else
                        (case (conn_param_set_property cp properties,
                               check_properties properties (None :: unit nng_msg option)) of
                           (Some cp, Some rv) \<Rightarrow> Some (if rv \<noteq> NNG_MQTT_SUCCESS then Inl (rv, cp) else Inr (cp, pos))
                         | _ \<Rightarrow> None))))))"

text \<open>\<open>rnd\<close> is what \<^verbatim>\<open>nni_random\<close> gives; the format is \<^verbatim>\<open>nanomq-%08x\<close>.\<close>

definition assigned_client_id :: "u32 \<Rightarrow> bytes" where
  "assigned_client_id rnd =
     (let h = hex_digits (unat rnd) in
      [0x6e, 0x61, 0x6e, 0x6f, 0x6d, 0x71, 0x2d] @ replicate (8 - length h) 48 @ h)"

definition nng_strdup :: "allocator \<Rightarrow> bytes \<Rightarrow> bytes option" where
  "nng_strdup al s = (if al (length s + 1) then Some s else None)"

text \<open>An identifier that the broker gave goes into the properties of MQTT 5, for the CONNACK.\<close>

definition conn_assigned :: "bool \<Rightarrow> allocator \<Rightarrow> conn_param \<Rightarrow> nat \<Rightarrow> stage" where
  "conn_assigned st al cp pos =
     (if cp_pro_ver cp = 5 \<and> cp_assignedid cp then
        (case property_set_value_str st al ASSIGNED_CLIENT_IDENTIFIER (str_body (cp_clientid cp))
                (str_length (cp_clientid cp)) False of
           None \<Rightarrow> None
         | Some assigned_cid \<Rightarrow>
             (let properties = (if cp_properties cp = None \<and> st then Some [] else cp_properties cp) in
              Some (Inr (cp\<lparr>cp_properties := property_append properties assigned_cid\<rparr>, pos))))
      else Some (Inr (cp, pos)))"

definition conn_clientid :: "bool \<Rightarrow> allocator \<Rightarrow> u32 \<Rightarrow> bytes \<Rightarrow> nat \<Rightarrow> conn_param \<Rightarrow> nat \<Rightarrow> stage" where
  "conn_clientid st al rnd packet max_len cp pos =
     (case copyn_utf8_str al packet pos (room_left max_len pos) of
        None \<Rightarrow> None
      | Some (clientid, len_of_str, pos) \<Rightarrow>
          (let cp = cp\<lparr>cp_clientid := mstring clientid len_of_str\<rparr> in
           if len_of_str < 0 then Some (Inl (PROTOCOL_ERROR, cp))
           else if len_of_str \<noteq> 0 \<and> cp_pro_ver cp = 3 \<and> len_of_str > 23 then
             Some (Inl (CLIENT_IDENTIFIER_NOT_VALID, cp))
           else
             (let clientid_r = assigned_client_id rnd;
                  cp = (if len_of_str = 0
                        then cp\<lparr>cp_clientid := mstring (nng_strdup al clientid_r) (int (length clientid_r)),
                          cp_assignedid := True\<rparr>
                        else cp) in
              conn_assigned st al cp pos)))"

definition conn_will_properties :: "bool \<Rightarrow> allocator \<Rightarrow> nat \<Rightarrow> bytes \<Rightarrow> nat \<Rightarrow> conn_param \<Rightarrow> nat \<Rightarrow> stage" where
  "conn_will_properties st al clock packet max_len cp pos =
     (if cp_pro_ver cp \<noteq> 5 then Some (Inr (cp, pos))
      else
        (case decode_buf_properties st al packet max_len pos True of
           None \<Rightarrow> None
         | Some (props, pos, len) \<Rightarrow>
             (let cp = cp\<lparr>cp_will_properties := props, cp_will_prop_len := len\<rparr> in
              if len = LEN_ERROR then Some (Inl (PROTOCOL_ERROR, cp))
              else if props = None then Some (Inr (cp, pos))
              else
                (case (conn_param_set_will_property clock cp props, check_will_properties props) of
                   (Some cp, Some rv) \<Rightarrow>
                     if rv \<noteq> NNG_MQTT_SUCCESS then Some (Inl (rv, cp))
                     else
                       (case property_remove props WILL_DELAY_INTERVAL of
                          None \<Rightarrow> None
                        | Some props \<Rightarrow> Some (Inr (cp\<lparr>cp_will_properties := props\<rparr>, pos)))
                 | _ \<Rightarrow> None))))"

text \<open>
  The bytes of the will message are text or not as the payload format says; with any other format nothing is
  read, and the length is that of the topic.
\<close>

definition read_will_msg ::
    "allocator \<Rightarrow> bytes \<Rightarrow> nat \<Rightarrow> conn_param \<Rightarrow> int \<Rightarrow> nat \<Rightarrow> (bytes option \<times> int \<times> nat) option" where
  "read_will_msg al packet max_len cp len_of_str pos =
     (if cp_payload_format_indicator cp = 0 then copyn_str al packet pos (room_left max_len pos)
      else if cp_payload_format_indicator cp = 1 then copyn_utf8_str al packet pos (room_left max_len pos)
      else Some (str_body (cp_will_msg cp), len_of_str, pos))"

definition conn_will_message :: "allocator \<Rightarrow> bytes \<Rightarrow> nat \<Rightarrow> conn_param \<Rightarrow> nat \<Rightarrow> stage" where
  "conn_will_message al packet max_len cp pos =
     (case copyn_utf8_str al packet pos (room_left max_len pos) of
        None \<Rightarrow> None
      | Some (topic, len_of_str, pos) \<Rightarrow>
          (let cp = cp\<lparr>cp_will_topic := mstring topic len_of_str\<rparr> in
           if topic = None \<or> len_of_str \<le> 0 then Some (Inl (PROTOCOL_ERROR, cp))
           else
             (case read_will_msg al packet max_len cp len_of_str pos of
                None \<Rightarrow> None
              | Some (body, len_of_str, pos) \<Rightarrow>
                  (let cp = cp\<lparr>cp_will_msg := (cp_will_msg cp)\<lparr>str_body := body\<rparr>\<rparr> in
                   if body = None \<or> len_of_str \<le> 0 then Some (Inl (PROTOCOL_ERROR, cp))
                   else Some (Inr (cp\<lparr>cp_will_msg := mstring body len_of_str\<rparr>, pos))))))"

definition conn_will :: "bool \<Rightarrow> allocator \<Rightarrow> nat \<Rightarrow> bytes \<Rightarrow> nat \<Rightarrow> conn_param \<Rightarrow> nat \<Rightarrow> stage" where
  "conn_will st al clock packet max_len cp pos =
     (if cp_will_flag cp \<noteq> 0 then
        then_stage (conn_will_properties st al clock packet max_len cp pos) (conn_will_message al packet max_len)
      else if cp_will_qos cp \<noteq> 0 then Some (Inl (PROTOCOL_ERROR, cp))
      else Some (Inr (cp, pos)))"

definition conn_username :: "allocator \<Rightarrow> bytes \<Rightarrow> nat \<Rightarrow> conn_param \<Rightarrow> nat \<Rightarrow> stage" where
  "conn_username al packet max_len cp pos =
     (if cp_con_flag cp AND 0x80 > 0 then
        (case copyn_utf8_str al packet pos (room_left max_len pos) of
           None \<Rightarrow> None
         | Some (body, len_of_str, pos) \<Rightarrow>
             (let cp = cp\<lparr>cp_username := mstring body len_of_str\<rparr> in
              Some (if len_of_str < 0 then Inl (PAYLOAD_FORMAT_INVALID, cp) else Inr (cp, pos))))
      else Some (Inr (cp, pos)))"

definition conn_password :: "allocator \<Rightarrow> bytes \<Rightarrow> nat \<Rightarrow> conn_param \<Rightarrow> nat \<Rightarrow> stage" where
  "conn_password al packet max_len cp pos =
     (if cp_con_flag cp AND 0x40 > 0 then
        (if str_body (cp_username cp) = None \<and> cp_pro_ver cp \<noteq> 5 then Some (Inl (PROTOCOL_ERROR, cp))
         else
           (case copyn_utf8_str al packet pos (room_left max_len pos) of
              None \<Rightarrow> None
            | Some (body, len_of_str, pos) \<Rightarrow>
                (let cp = cp\<lparr>cp_password := mstring body len_of_str\<rparr> in
                 Some (if len_of_str < 0 then Inl (PAYLOAD_FORMAT_INVALID, cp) else Inr (cp, pos)))))
      else Some (Inr (cp, pos)))"

definition conn_handler ::
    "bool \<Rightarrow> allocator \<Rightarrow> u32 \<Rightarrow> nat \<Rightarrow> bytes \<Rightarrow> conn_param \<Rightarrow> nat \<Rightarrow> (nat \<times> conn_param) option" where
  "conn_handler st al rnd clock packet cp max_len =
     (let cp = cp\<lparr>cp_mount_point := None\<rparr> in
      case byte_at packet 0 of
        None \<Rightarrow> None
      | Some cmd \<Rightarrow>
          if cmd \<noteq> CMD_CONNECT then Some (PROTOCOL_ERROR, cp)
          else
            (case get_var_integer (drop 1 packet) 0 of
               None \<Rightarrow> None
             | Some (len, rm_len) \<Rightarrow>
                 (case
                    then_stage (then_stage (then_stage (then_stage (then_stage
                      (conn_protocol al packet max_len cp (1 + rm_len))
                      (conn_properties st al packet max_len))
                      (conn_clientid st al rnd packet max_len))
                      (conn_will st al clock packet max_len))
                      (conn_username al packet max_len))
                      (conn_password al packet max_len) of
                    None \<Rightarrow> None
                  | Some (Inl r) \<Rightarrow> Some r
                  | Some (Inr (cp, pos)) \<Rightarrow>
                      Some (if wrap32 (len + rm_len + 1) \<noteq> pos then PROTOCOL_ERROR else 0, cp))))"

section \<open>The handler reads only the packet\<close>

definition text_ok :: "bytes \<Rightarrow> bool" where
  "text_ok b \<longleftrightarrow> b \<noteq> [] \<and> length b < 65536 \<and> utf8_text b"

lemma utf8_check_text: "length b < 65536 \<Longrightarrow> utf8_check (Some b) = ERR_SUCCESS \<longleftrightarrow> utf8_text b"
  by (simp add: utf8_check_def utf8_loop_text)

lemma get16_less: "unat (NNI_GET16 b i) < 65536"
  using unsigned_less [where ?'a = nat, of "NNI_GET16 b i"] by simp

lemma room_eq: "max_len < 2 ^ 31 \<Longrightarrow> pos \<le> max_len \<Longrightarrow> room_left max_len pos = int (max_len - pos)"
  by (simp add: room_left_def of_nat_diff)

text \<open>What the two readers of strings return at a position of the packet.\<close>

definition string_read :: "(bytes \<Rightarrow> bool) \<Rightarrow> nat \<Rightarrow> nat \<Rightarrow> (bytes option \<times> int \<times> nat) option \<Rightarrow> bool" where
  "string_read P pos n r \<longleftrightarrow>
     (\<exists>b k pos'. r = Some (b, k, pos') \<and> pos \<le> pos' \<and> pos' \<le> n \<and>
        (b = None \<and> (k = 0 \<or> k = - 1) \<or> (\<exists>s. b = Some s \<and> P s \<and> k = int (length s) \<and> s \<noteq> [] \<and> length s < 65536)))"

lemma copyn_utf8_read:
  assumes "length src < 2 ^ 31" and "pos \<le> length src"
  shows "string_read text_ok pos (length src) (copyn_utf8_str al src pos (room_left (length src) pos))"
proof -
  obtain n where n: "unat (NNI_GET16 src pos) = n" "n < 65536" using get16_less by blast
  with assms show ?thesis
    by (auto simp: string_read_def copyn_utf8_str_def room_eq Let_def utf8_check_text text_ok_def of_nat_diff bslice_def)
qed

lemma copyn_read:
  assumes "length src < 2 ^ 31" and "pos \<le> length src"
  shows "string_read (\<lambda>_. True) pos (length src) (copyn_str al src pos (room_left (length src) pos))"
proof -
  obtain n where n: "unat (NNI_GET16 src pos) = n" "n < 65536" using get16_less by blast
  with assms show ?thesis
    by (auto simp: string_read_def copyn_str_def room_eq Let_def of_nat_diff bslice_def)
qed

text \<open>A stage that does not crash, returns only with an error, and goes on only with \<open>P\<close>.\<close>

definition going :: "(conn_param \<Rightarrow> nat \<Rightarrow> bool) \<Rightarrow> stage \<Rightarrow> bool" where
  "going P x \<longleftrightarrow> (case x of None \<Rightarrow> False | Some (Inl (rv, cp)) \<Rightarrow> rv \<noteq> 0 | Some (Inr (cp, pos)) \<Rightarrow> P cp pos)"

lemma going_simps [simp]:
  "going P (Some (Inl (rv, cp))) \<longleftrightarrow> rv \<noteq> 0" "going P (Some (Inr (cp, pos))) \<longleftrightarrow> P cp pos" "\<not> going P None"
  by (simp_all add: going_def)

lemma going_then: "going P x \<Longrightarrow> (\<And>cp pos. P cp pos \<Longrightarrow> going Q (f cp pos)) \<Longrightarrow> going Q (then_stage x f)"
  unfolding going_def [of P x] by (auto simp: then_stage_def split: option.splits sum.splits prod.splits)

definition text_string :: "mqtt_string \<Rightarrow> bool" where
  "text_string s \<longleftrightarrow> (\<exists>b. s = \<lparr>str_body = Some b, str_length = length b\<rparr> \<and> text_ok b)"

definition opt_text :: "mqtt_string \<Rightarrow> bool" where
  "opt_text s \<longleftrightarrow> s = null_string \<or> text_string s"

lemma mstring_text [simp]: "text_ok b \<Longrightarrow> text_string (mstring (Some b) (int (length b)))"
  by (auto simp: mstring_def text_string_def text_ok_def nat_mod_as_int)

lemma mstring_null [simp]: "mstring None 0 = null_string"
  by (simp add: mstring_def)

subsection \<open>The stages one by one\<close>

definition flags_ok :: "conn_param \<Rightarrow> bool" where
  "flags_ok cp \<longleftrightarrow> 3 \<le> cp_pro_ver cp \<and> cp_pro_ver cp \<le> 5 \<and>
     (if cp_will_flag cp = 0 then cp_will_retain cp = 0 else cp_will_qos cp \<le> 2) \<and>
     text_string (cp_pro_name cp)"

definition untouched :: "conn_param \<Rightarrow> bool" where
  "untouched cp \<longleftrightarrow> cp_will_topic cp = null_string \<and> cp_will_msg cp = null_string \<and> cp_username cp = null_string \<and>
     cp_password cp = null_string \<and> cp_will_properties cp = None"

lemma untouched_init: "untouched (conn_param_init cp)"
  by (simp add: untouched_def conn_param_init_def)

lemma will_bit: "drop_bit 2 (f AND 0x04) = (0 :: u8) \<or> drop_bit 2 (f AND 0x04) = (1 :: u8)"
proof -
  have "drop_bit 2 (0x04 :: u8) = 1" by simp
  then have "drop_bit 2 (f AND 0x04) = drop_bit 2 f AND (1 :: u8)" by (simp only: drop_bit_and)
  then show ?thesis by (simp add: and_one_eq mod_2_eq_odd)
qed

lemma protocol_going:
  assumes "length packet < 2 ^ 31" and "pos \<le> length packet" and "untouched cp" and "cp_properties cp = None"
  shows "going (\<lambda>cp' pos. pos \<le> length packet \<and> flags_ok cp' \<and> untouched cp' \<and> cp_properties cp' = None)
    (conn_protocol al packet (length packet) cp pos)"
proof -
  obtain b k p where r: "copyn_utf8_str al packet pos (room_left (length packet) pos) = Some (b, k, p)"
      "pos \<le> p" "p \<le> length packet"
      "b = None \<and> (k = 0 \<or> k = - 1) \<or> (\<exists>s. b = Some s \<and> text_ok s \<and> k = int (length s) \<and> s \<noteq> [])"
    using copyn_utf8_read [OF assms(1,2), of al] unfolding string_read_def by blast
  show ?thesis
  proof (cases b)
    case (Some s)
    then have "text_ok s" "k = int (length s)" using r(4) by simp_all
    then show ?thesis
      using r(3) assms(3,4) will_bit [of "packet ! (p + 1)"]
      by (auto simp: conn_protocol_def r(1) Some flags_ok_def untouched_def Let_def not_le not_less)
  qed (simp add: conn_protocol_def r(1) Let_def)
qed

text \<open>The members that storing the properties leaves alone.\<close>

definition kept :: "conn_param \<Rightarrow> conn_param \<Rightarrow> bool" where
  "kept cp cp' \<longleftrightarrow>
     (cp_pro_ver cp', cp_con_flag cp', cp_clean_start cp', cp_will_flag cp', cp_will_retain cp', cp_will_qos cp',
      cp_pro_name cp', cp_keepalive_mqtt cp') =
     (cp_pro_ver cp, cp_con_flag cp, cp_clean_start cp, cp_will_flag cp, cp_will_retain cp, cp_will_qos cp,
      cp_pro_name cp, cp_keepalive_mqtt cp) \<and>
     (cp_clientid cp', cp_will_topic cp', cp_will_msg cp', cp_username cp', cp_password cp', cp_properties cp',
      cp_will_properties cp', cp_assignedid cp') =
     (cp_clientid cp, cp_will_topic cp, cp_will_msg cp, cp_username cp, cp_password cp, cp_properties cp,
      cp_will_properties cp, cp_assignedid cp)"

lemma in_turn_kept:
  "list_all (\<lambda>f. \<forall>x. kept cp x \<longrightarrow> (\<exists>y. f x = Some y \<and> kept cp y)) fs \<Longrightarrow> kept cp x \<Longrightarrow>
   \<exists>y. in_turn fs x = Some y \<and> kept cp y"
  by (induction fs arbitrary: x) (auto split: option.splits)

lemma get_value_typed:
  assumes "typed prop" and "property_get_value prop i = Some v"
  shows "value_type v = property_get_value_type i"
  using assms by (auto simp: typed_def property_get_value_def prop_ok_def p_type_def find_Some_iff split: option.splits)

text \<open>A property of the type that its member has is stored, one that is not there changes nothing.\<close>

definition has_type :: "property_value option \<Rightarrow> property_type_enum \<Rightarrow> bool" where
  "has_type d t \<longleftrightarrow> (\<forall>v. d = Some v \<longrightarrow> value_type v = t)"

lemma get_value_has_type: "typed prop \<Longrightarrow> property_get_value_type i = t \<Longrightarrow> has_type (property_get_value prop i) t"
  by (auto simp: has_type_def get_value_typed)

lemma stored:
  "kept cp x \<Longrightarrow> has_type d U8 \<Longrightarrow> (\<And>v. kept cp (f1 v x)) \<Longrightarrow> \<exists>y. on_u8 d f1 x = Some y \<and> kept cp y"
  "kept cp x \<Longrightarrow> has_type d U16 \<Longrightarrow> (\<And>v. kept cp (f2 v x)) \<Longrightarrow> \<exists>y. on_u16 d f2 x = Some y \<and> kept cp y"
  "kept cp x \<Longrightarrow> has_type d U32 \<Longrightarrow> (\<And>v. kept cp (f3 v x)) \<Longrightarrow> \<exists>y. on_u32 d f3 x = Some y \<and> kept cp y"
  "kept cp x \<Longrightarrow> has_type d STR_T \<Longrightarrow> (\<And>v. kept cp (f4 v x)) \<Longrightarrow> \<exists>y. on_str d f4 x = Some y \<and> kept cp y"
  "kept cp x \<Longrightarrow> has_type d BINARY \<Longrightarrow> (\<And>v. kept cp (f5 v x)) \<Longrightarrow> \<exists>y. on_binary d f5 x = Some y \<and> kept cp y"
  "kept cp x \<Longrightarrow> has_type d STR_PAIR \<Longrightarrow> (\<And>v. kept cp (f6 v x)) \<Longrightarrow> \<exists>y. on_strpair d f6 x = Some y \<and> kept cp y"
  by (auto simp: on_u8_def on_u16_def on_u32_def on_str_def on_binary_def on_strpair_def has_type_def
      split: option.split property_value.split)

lemma set_property_kept:
  assumes "typed prop"
  shows "\<exists>cp'. conn_param_set_property cp prop = Some cp' \<and> kept cp cp'"
    "\<exists>cp'. conn_param_set_will_property clock cp prop = Some cp' \<and> kept cp cp'"
proof -
  show "\<exists>cp'. conn_param_set_property cp prop = Some cp' \<and> kept cp cp'"
    unfolding conn_param_set_property_def
    by (rule in_turn_kept; (simp only: list.pred_inject)?; (intro conjI allI impI stored TrueI get_value_has_type [OF assms])?)
      (simp_all add: kept_def property_get_value_type_def)
  show "\<exists>cp'. conn_param_set_will_property clock cp prop = Some cp' \<and> kept cp cp'"
    unfolding conn_param_set_will_property_def
    by (rule in_turn_kept; (simp only: list.pred_inject)?; (intro conjI allI impI stored TrueI get_value_has_type [OF assms])?)
      (simp_all add: kept_def property_get_value_type_def)
qed

lemma prop_len_loop_some:
  "p < max_len \<Longrightarrow> max_len \<le> length packet \<Longrightarrow> \<exists>r. prop_len_loop packet max_len p i l = Some r"
proof (induction packet max_len p i l rule: prop_len_loop.induct)
  case (1 packet max_len p i l)
  then show ?case
    by (subst prop_len_loop.simps) (auto simp: byte_at_def Let_def)
qed

lemma decode_buf_end:
  assumes "decode_buf_properties st al pk len pos cp = Some (list, pos', n)" and "n \<noteq> LEN_ERROR" and "len \<le> length pk"
  shows "pos \<le> pos' \<and> pos' \<le> len"
proof -
  obtain rv v k where v: "read_variable_int (Some (drop pos pk)) (len - pos) 0 0 = (rv, v, k)"
    by (metis prod_cases3)
  have p: "pos < len" "rv = 0" using assms(1,2) v by (auto simp: decode_buf_properties_def split: if_splits)
  then have "read_var_loop (drop pos pk) (len - pos) 0 1 0 = Inr (v, k)"
    using v read_var_errors [of "drop pos pk" "len - pos" 0 1 0]
    by (auto simp: read_variable_int_def split: sum.splits)
  then have "k \<le> len - pos" using read_var_loop_iff [of "len - pos" "drop pos pk" v k] assms(3) by auto
  then show ?thesis
    using assms(1,2) v p by (auto simp: decode_buf_properties_def Let_def split: if_splits option.splits)
qed

lemma decode_buf_step:
  assumes "st" and "mem_ok al"
  obtains list pos' n where "decode_buf_properties st al pk (length pk) pos True = Some (list, pos', n)"
    and "typed list" and "\<And>ps. list = Some ps \<Longrightarrow> \<forall>p \<in> set ps. p_is_copy p"
    and "n \<noteq> LEN_ERROR \<Longrightarrow> pos \<le> pos' \<and> pos' \<le> length pk"
proof -
  obtain list pos' n where d: "decode_buf_properties st al pk (length pk) pos True = Some (list, pos', n)"
      "\<forall>ps. list = Some ps \<longrightarrow> (\<forall>p \<in> set ps. prop_ok p \<and> p_is_copy p = True)"
    using decode_buf_total [OF assms order_refl, of pk pos True] by blast
  then show ?thesis
    using that [OF d(1)] decode_buf_end [OF d(1)] by (auto simp: typed_def)
qed

lemma properties_going:
  assumes "st" and "mem_ok al" and "pos \<le> length packet" and "untouched cp" and "flags_ok cp" and "cp_properties cp = None"
  shows "going (\<lambda>cp' pos. pos \<le> length packet \<and> flags_ok cp' \<and> untouched cp' \<and> typed (cp_properties cp'))
    (conn_properties st al packet (length packet) cp pos)"
proof (cases "cp_pro_ver cp = 5 \<and> pos + 3 \<le> length packet")
  case True
  then obtain g l where l: "prop_len_loop packet (length packet) pos 0 (cp_prop_len cp) = Some (g, l)"
    using prop_len_loop_some [of pos "length packet" packet 0 "cp_prop_len cp"] by auto
  obtain list pos' n where d: "decode_buf_properties st al packet (length packet) pos True = Some (list, pos', n)"
      "typed list" "n \<noteq> LEN_ERROR \<Longrightarrow> pos \<le> pos' \<and> pos' \<le> length packet"
    using decode_buf_step [OF assms(1,2), of packet pos] by metis
  let ?cp = "cp\<lparr>cp_properties := list, cp_prop_len := n\<rparr>"
  obtain cp' where s: "conn_param_set_property ?cp list = Some cp'" "kept ?cp cp'"
    using set_property_kept(1) [OF d(2)] by blast
  obtain rv where c: "check_properties list (None :: unit nng_msg option) = Some rv"
    using check_properties_some [OF d(2)] by (metis option.exhaust)
  show ?thesis
    using True assms(3-6) d(2,3) s
    by (auto simp: conn_properties_def l d(1) c Let_def kept_def untouched_def flags_ok_def)
qed (use assms in \<open>auto simp: conn_properties_def not_le\<close>)

subsection \<open>Strings of printable ASCII\<close>

lemma ascii_text: "list_all (\<lambda>b. 0x20 \<le> unat b \<and> unat b < 0x7F) s \<Longrightarrow> utf8_text s"
  unfolding utf8_text_def
proof (intro exI [of _ "map unat s"] conjI)
  assume a: "list_all (\<lambda>b. 0x20 \<le> unat b \<and> unat b < 0x7F) s"
  then show "list_all mqtt_char (map unat s)" by (auto simp: list_all_iff mqtt_char_def)
  from a show "s = concat (map utf8_encode (map unat s))"
    by (induction s) (simp_all add: utf8_encode_def)
qed

lemma hex_digits_ascii: "list_all (\<lambda>b. 0x20 \<le> unat b \<and> unat b < 0x7F) (hex_digits n)"
proof -
  have d: "0x20 \<le> unat (hex_digit k) \<and> unat (hex_digit k) < 0x7F" if "k < 16" for k
    using that by (auto simp: hex_digit_def unat_byte)
  show ?thesis
    by (induction n rule: hex_digits.induct) (subst hex_digits.simps, simp add: d)
qed

lemma client_id_text: "text_ok (assigned_client_id rnd)" "text_ok (random_client_id rnd)"
  using hex_digits_bound [of "unat rnd" 8] unsigned_less [where ?'a = nat, of rnd] hex_digits_ascii [of "unat rnd"]
  by (auto simp: text_ok_def assigned_client_id_def random_client_id_def Let_def list_all_append list_all_iff intro!: ascii_text)

subsection \<open>The payload\<close>

lemma text_read:
  assumes "length src < 2 ^ 31" and "pos \<le> length src"
  obtains (null) k pos' where "copyn_utf8_str al src pos (room_left (length src) pos) = Some (None, k, pos')"
      "pos' \<le> length src" "k = 0 \<or> k = - 1"
    | (str) s pos' where "copyn_utf8_str al src pos (room_left (length src) pos) = Some (Some s, int (length s), pos')"
      "pos' \<le> length src" "text_ok s"
  using copyn_utf8_read [OF assms, of al] unfolding string_read_def by blast

lemma text_ok_length: "text_ok s \<Longrightarrow> 0 < length s"
  by (simp add: text_ok_def)

definition ready :: "conn_param \<Rightarrow> bool" where
  "ready cp \<longleftrightarrow> flags_ok cp \<and> typed (cp_properties cp) \<and> text_string (cp_clientid cp)"

lemma typed_append:
  assumes "typed props" and "text_string s"
    and "property_set_value_str st al ASSIGNED_CLIENT_IDENTIFIER (str_body s) (str_length s) False = Some p"
  shows "typed (property_append (if props = None \<and> st then Some [] else props) p)"
proof -
  have "prop_ok p"
    using assms(2,3) by (auto simp: property_set_value_str_def text_string_def text_ok_def prop_ok_def p_type_def
        property_get_value_type_def str_ok_def split: if_splits)
  then show ?thesis using assms(1) by (auto simp: typed_def property_append_def)
qed

lemma assigned_going:
  assumes "st" and "pos \<le> length packet" and "untouched cp" and "flags_ok cp" and "typed (cp_properties cp)"
    and "text_string (cp_clientid cp)"
  shows "going (\<lambda>cp' pos. pos \<le> length packet \<and> ready cp' \<and> untouched cp') (conn_assigned st al cp pos)"
proof -
  obtain a where a: "property_set_value_str st al ASSIGNED_CLIENT_IDENTIFIER (str_body (cp_clientid cp))
      (str_length (cp_clientid cp)) False = Some a"
    using assms(1) by (simp add: property_set_value_str_def)
  then show ?thesis
    using assms typed_append [OF assms(5,6) a]
    by (simp add: conn_assigned_def ready_def untouched_def flags_ok_def Let_def del: typed_None)
qed

lemma clientid_going:
  assumes "st" and "mem_ok al" and "length packet < 2 ^ 31" and "pos \<le> length packet" and "untouched cp" and "flags_ok cp"
    and "typed (cp_properties cp)"
  shows "going (\<lambda>cp' pos. pos \<le> length packet \<and> ready cp' \<and> untouched cp')
    (conn_clientid st al rnd packet (length packet) cp pos)"
proof -
  have r: "nng_strdup al s = Some s" for s using assms(2) by (simp add: nng_strdup_def mem_ok_def)
  have f: "untouched (cp\<lparr>cp_clientid := s, cp_assignedid := b\<rparr>)" "flags_ok (cp\<lparr>cp_clientid := s, cp_assignedid := b\<rparr>)"
      "untouched (cp\<lparr>cp_clientid := s\<rparr>)" "flags_ok (cp\<lparr>cp_clientid := s\<rparr>)" for s b
    using assms(5,6) by (simp_all add: untouched_def flags_ok_def)
  show ?thesis
  proof (cases rule: text_read [OF assms(3,4), where al = al, case_names null str])
    case (null k pos')
    then show ?thesis
      using client_id_text(1) [of rnd] assms(1,7) f by (auto simp: conn_clientid_def r Let_def intro!: assigned_going)
  next
    case (str s pos')
    then show ?thesis
      using text_ok_length [of s] assms(1,7) f by (auto simp: conn_clientid_def Let_def intro!: assigned_going)
  qed
qed

definition no_creds :: "conn_param \<Rightarrow> bool" where
  "no_creds cp \<longleftrightarrow> cp_username cp = null_string \<and> cp_password cp = null_string"

definition will_ok :: "conn_param \<Rightarrow> bool" where
  "will_ok cp \<longleftrightarrow> typed (cp_will_properties cp) \<and>
     (if cp_will_flag cp = 0
      then cp_will_qos cp = 0 \<and> cp_will_topic cp = null_string \<and> cp_will_msg cp = null_string
      else text_string (cp_will_topic cp) \<and>
        (\<exists>b. cp_will_msg cp = \<lparr>str_body = Some b, str_length = length b\<rparr> \<and> b \<noteq> []))"

lemma remove_first_copies:
  "\<forall>p \<in> set ps. p_is_copy p \<Longrightarrow> \<exists>qs. remove_first i ps = Some qs \<and> set qs \<subseteq> set ps"
  by (induction ps) auto

lemma removed_copies:
  assumes "typed list" and "\<And>ps. list = Some ps \<Longrightarrow> \<forall>p \<in> set ps. p_is_copy p"
  shows "\<exists>list'. property_remove list i = Some list' \<and> typed list'"
proof (cases list)
  case (Some ps)
  then obtain qs where "remove_first i ps = Some qs" "set qs \<subseteq> set ps"
    using remove_first_copies [OF assms(2)] by blast
  then show ?thesis using assms(1) Some by (auto simp: property_remove_def typed_def)
qed (simp add: property_remove_def)

lemma will_properties_going:
  assumes "st" and "mem_ok al" and "pos \<le> length packet" and "ready cp" and "no_creds cp" and "untouched cp"
  shows "going (\<lambda>cp' pos. pos \<le> length packet \<and> ready cp' \<and> no_creds cp' \<and> cp_will_msg cp' = null_string \<and>
      cp_will_flag cp' = cp_will_flag cp \<and> typed (cp_will_properties cp'))
    (conn_will_properties st al clock packet (length packet) cp pos)"
proof (cases "cp_pro_ver cp = 5")
  case True
  obtain list pos' n where d: "decode_buf_properties st al packet (length packet) pos True = Some (list, pos', n)"
      "typed list" "\<And>ps. list = Some ps \<Longrightarrow> \<forall>p \<in> set ps. p_is_copy p"
      "n \<noteq> LEN_ERROR \<Longrightarrow> pos \<le> pos' \<and> pos' \<le> length packet"
    by (rule decode_buf_step [OF assms(1,2), of packet pos]) blast
  let ?cp = "cp\<lparr>cp_will_properties := list, cp_will_prop_len := n\<rparr>"
  obtain cp' where s: "conn_param_set_will_property clock ?cp list = Some cp'" "kept ?cp cp'"
    using set_property_kept(2) [OF d(2)] by blast
  have "\<exists>rv. check_will_properties list = Some rv"
    using check_properties_some [OF d(2), of "None :: unit nng_msg option"]
    by (cases list) (auto simp: check_will_properties_def)
  then obtain rv where c: "check_will_properties list = Some rv" by blast
  obtain list' where l: "property_remove list WILL_DELAY_INTERVAL = Some list'" "typed list'"
    using removed_copies [OF d(2,3)] by blast
  have keep: "ready cp'" "ready (cp'\<lparr>cp_will_properties := list'\<rparr>)" "no_creds cp'"
      "no_creds (cp'\<lparr>cp_will_properties := list'\<rparr>)" "cp_will_msg cp' = null_string" "cp_will_flag cp' = cp_will_flag cp"
      "ready ?cp" "no_creds ?cp"
    using s(2) assms(4-6) by (simp_all add: kept_def untouched_def flags_ok_def ready_def no_creds_def)
  show ?thesis
    using True assms(3,6) d(2,4) keep l(2)
    by (simp add: conn_will_properties_def d(1) s(1) c l(1) Let_def untouched_def) auto
qed (use assms in \<open>auto simp: conn_will_properties_def untouched_def\<close>)

lemma will_msg_read:
  assumes "length packet < 2 ^ 31" and "pos \<le> length packet" and "cp_will_msg cp = null_string"
  shows "\<exists>b k p. read_will_msg al packet (length packet) cp n pos = Some (b, k, p) \<and> p \<le> length packet \<and>
    (b = None \<or> (\<exists>t. b = Some t \<and> k = int (length t) \<and> t \<noteq> [] \<and> length t < 65536))"
  using copyn_read [OF assms(1,2), of al] copyn_utf8_read [OF assms(1,2), of al] assms(2,3)
  unfolding string_read_def read_will_msg_def by auto

lemma will_message_going:
  assumes "length packet < 2 ^ 31" and "pos \<le> length packet" and "ready cp" and "no_creds cp"
    and "cp_will_msg cp = null_string" and "cp_will_flag cp \<noteq> 0" and "typed (cp_will_properties cp)"
  shows "going (\<lambda>cp' pos. pos \<le> length packet \<and> ready cp' \<and> no_creds cp' \<and> will_ok cp')
    (conn_will_message al packet (length packet) cp pos)"
proof (cases rule: text_read [OF assms(1,2), where al = al, case_names null str])
  case (null k pos')
  then show ?thesis by (simp add: conn_will_message_def Let_def)
next
  case (str s p)
  let ?cp = "cp\<lparr>cp_will_topic := mstring (Some s) (int (length s))\<rparr>"
  obtain b k q where b: "read_will_msg al packet (length packet) ?cp (int (length s)) p = Some (b, k, q)" "q \<le> length packet"
      "b = None \<or> (\<exists>t. b = Some t \<and> k = int (length t) \<and> t \<noteq> [] \<and> length t < 65536)"
    using will_msg_read [OF assms(1) str(2), of ?cp al "int (length s)"] assms(5) by auto
  have w: "will_ok (?cp\<lparr>cp_will_msg := mstring (Some t) (int (length t))\<rparr>)" if "t \<noteq> []" "length t < 65536" for t
    using that str(3) assms(6,7) by (simp add: will_ok_def) (simp add: mstring_def)
  have "s \<noteq> []" using str(3) by (simp add: text_ok_def)
  then show ?thesis
    using b(2,3) w assms(3,4)
    by (auto simp: conn_will_message_def str(1) b(1) Let_def ready_def flags_ok_def no_creds_def)
qed

lemma will_going:
  assumes "st" and "mem_ok al" and "length packet < 2 ^ 31" and "pos \<le> length packet" and "ready cp" and "untouched cp"
  shows "going (\<lambda>cp' pos. pos \<le> length packet \<and> ready cp' \<and> no_creds cp' \<and> will_ok cp')
    (conn_will st al clock packet (length packet) cp pos)"
proof (cases "cp_will_flag cp = 0")
  case True
  then show ?thesis using assms(4-6) by (simp add: conn_will_def untouched_def no_creds_def will_ok_def)
next
  case False
  have "no_creds cp" using assms(6) by (simp add: untouched_def no_creds_def)
  then have "going (\<lambda>cp' pos. pos \<le> length packet \<and> ready cp' \<and> no_creds cp' \<and> will_ok cp')
    (then_stage (conn_will_properties st al clock packet (length packet) cp pos) (conn_will_message al packet (length packet)))"
    using False assms(3) by (intro going_then [OF will_properties_going [OF assms(1,2,4,5) _ assms(6)]])
      (auto intro!: will_message_going)
  then show ?thesis using False by (simp add: conn_will_def)
qed

lemma username_going:
  assumes "length packet < 2 ^ 31" and "pos \<le> length packet" and "ready cp" and "no_creds cp" and "will_ok cp"
  shows "going (\<lambda>cp' pos. pos \<le> length packet \<and> ready cp' \<and> will_ok cp' \<and> opt_text (cp_username cp') \<and>
      cp_password cp' = null_string \<and> (cp_con_flag cp' AND 0x80 = 0 \<longrightarrow> cp_username cp' = null_string))
    (conn_username al packet (length packet) cp pos)"
  using assms
  by (cases rule: text_read [OF assms(1,2), where al = al])
    (auto simp: conn_username_def Let_def ready_def flags_ok_def will_ok_def no_creds_def opt_text_def text_ok_def word_gt_0)

text \<open>
  The parameters of a connection that is accepted. The strings are text of the lengths stored with them, the properties are
  well typed, and what the flags say is there.
\<close>

definition connected :: "conn_param \<Rightarrow> bool" where
  "connected cp \<longleftrightarrow> ready cp \<and> will_ok cp \<and> opt_text (cp_username cp) \<and> opt_text (cp_password cp) \<and>
     (cp_con_flag cp AND 0x80 = 0 \<longrightarrow> cp_username cp = null_string) \<and>
     (cp_con_flag cp AND 0x40 = 0 \<longrightarrow> cp_password cp = null_string) \<and>
     (cp_pro_ver cp \<noteq> 5 \<and> cp_password cp \<noteq> null_string \<longrightarrow> cp_username cp \<noteq> null_string)"

lemma password_going:
  assumes "length packet < 2 ^ 31" and "pos \<le> length packet" and "ready cp" and "will_ok cp" and "opt_text (cp_username cp)"
    and "cp_password cp = null_string" and "cp_con_flag cp AND 0x80 = 0 \<longrightarrow> cp_username cp = null_string"
  shows "going (\<lambda>cp' pos. pos \<le> length packet \<and> connected cp') (conn_password al packet (length packet) cp pos)"
proof -
  have k: "ready (cp\<lparr>cp_password := s\<rparr>)" "will_ok (cp\<lparr>cp_password := s\<rparr>)" for s
    using assms(3,4) by (simp_all add: ready_def flags_ok_def will_ok_def)
  have u: "connected (cp\<lparr>cp_password := s\<rparr>)"
    if "opt_text s" "cp_con_flag cp AND 0x40 \<noteq> 0" "str_body (cp_username cp) \<noteq> None \<or> cp_pro_ver cp = 5" for s
    using k [of s] that assms(5,7) by (auto simp: connected_def)
  have n: "opt_text null_string" by (simp add: opt_text_def)
  show ?thesis
  proof (cases "cp_con_flag cp AND 0x40 = 0")
    case True
    then show ?thesis using assms n by (simp add: conn_password_def connected_def)
  next
    case False
    then show ?thesis
      using u n by (cases rule: text_read [OF assms(1,2), where al = al])
        (auto simp: conn_password_def Let_def word_gt_0 opt_text_def)
  qed
qed

lemma get_var_loop_end: "get_var_loop buf p i r = Some (v, q) \<Longrightarrow> q \<le> length buf"
proof (induction buf p i r rule: get_var_loop.induct)
  case (1 buf p i r)
  then show ?case
    by (auto simp: get_var_loop.simps [of buf p i r] Let_def split: if_splits)
qed

lemma get_var_end: "get_var_integer buf p = Some (v, q) \<Longrightarrow> q \<le> length buf"
  using get_var_loop_end [of buf p 0 0] by (auto simp: get_var_integer_def)

text \<open>C5: \<^verbatim>\<open>conn_handler\<close> is safe on every packet whose fixed header is complete, whatever the other bytes are: it reads
  only bytes of the packet, never the wrong member of a property, and returns a code. When it
  returns zero, the parameters are those of a connection: a version from 3 to 5, an identifier, user name, password and will
  that are well-formed texts with their lengths, flags that agree with what is there, and properties that have the types of their identifiers.\<close>

theorem conn_handler_safe:
  assumes "st" and "mem_ok al" and "length packet < 2 ^ 31" and "get_var_integer (drop 1 packet) 0 \<noteq> None"
  shows "\<exists>rv cp'. conn_handler st al rnd clock packet (conn_param_init cp) (length packet) = Some (rv, cp') \<and>
    (rv = 0 \<longrightarrow> connected cp')"
proof -
  let ?cp = "(conn_param_init cp)\<lparr>cp_mount_point := None\<rparr>" and ?n = "length packet"
  obtain len rm where g: "get_var_integer (drop 1 packet) 0 = Some (len, rm)" using assms(4) by auto
  have "packet \<noteq> []" using g by (auto simp: get_var_integer_def get_var_loop.simps [of "[]"])
  then have p: "1 + rm \<le> ?n" "packet \<noteq> []" using get_var_end [OF g] by (cases packet; simp)+
  have f: "untouched ?cp" "cp_properties ?cp = None" by (simp_all add: untouched_def conn_param_init_def)
  note stages = going_then [OF protocol_going [OF assms(3) p(1) f] properties_going [OF assms(1,2)]]
  note stages = going_then [OF stages clientid_going [OF assms(1-3)]]
  note stages = going_then [OF stages will_going [OF assms(1-3)]]
  note stages = going_then [OF stages username_going [OF assms(3)]]
  note stages = going_then [OF stages password_going [OF assms(3)]]
  have "going (\<lambda>cp' pos. pos \<le> ?n \<and> connected cp')
    (then_stage (then_stage (then_stage (then_stage (then_stage
       (conn_protocol al packet ?n ?cp (1 + rm)) (conn_properties st al packet ?n)) (conn_clientid st al rnd packet ?n))
       (conn_will st al clock packet ?n)) (conn_username al packet ?n)) (conn_password al packet ?n))"
    by (rule stages) simp_all
  moreover have "byte_at packet 0 = Some (packet ! 0)" using p(2) by (simp add: byte_at_def)
  ultimately show ?thesis
    by (auto simp: conn_handler_def g [simplified] going_def Let_def split: option.splits sum.splits)
qed

text \<open>A struct of zeros, and the CONNECT of MQTT 3.1.1 with the identifier \<^verbatim>\<open>a\<close>.\<close>

definition zero_param :: conn_param where
  "zero_param =
     \<lparr>cp_will_delay_interval = 0, cp_msg_expiry_interval = 0, cp_mount_point = None, cp_session_expiry_interval = 0,
      cp_max_packet_size = 0, cp_rx_max = 0, cp_keepalive_mqtt = 0, cp_topic_alias_max = 0, cp_pro_ver = 0,
      cp_con_flag = 0, cp_clean_start = 0, cp_will_flag = 0, cp_will_retain = 0, cp_will_qos = 0,
      cp_req_resp_info = 0, cp_req_problem_info = 0, cp_payload_format_indicator = 0, cp_assignedid = False,
      cp_pro_name = null_string, cp_clientid = null_string, cp_will_topic = null_string, cp_will_msg = null_string,
      cp_username = null_string, cp_password = null_string, cp_auth_method = None, cp_auth_data = None,
      cp_content_type = None, cp_resp_topic = None, cp_corr_data = None, cp_user_property = None,
      cp_payload_user_property = None, cp_prop_len = 0, cp_properties = None, cp_will_prop_len = 0,
      cp_will_properties = None\<rparr>"

definition some_connect :: bytes where
  "some_connect = [0x10, 0x0d, 0x00, 0x04, 0x4d, 0x51, 0x54, 0x54, 0x04, 0x02, 0x00, 0x3c, 0x00, 0x01, 0x61]"

theorem conn_handler_safe_witness:
  "mem_ok (\<lambda>_. True) \<and> length some_connect < 2 ^ 31 \<and> get_var_integer (drop 1 some_connect) 0 \<noteq> None \<and>
   (\<exists>rv cp'. conn_handler True (\<lambda>_. True) 7 0 some_connect (conn_param_init zero_param) (length some_connect) =
      Some (rv, cp') \<and> (rv = 0 \<longrightarrow> connected cp'))"
proof -
  have "get_var_integer (drop 1 some_connect) 0 \<noteq> None"
    by (simp add: some_connect_def get_var_integer_def get_var_loop.simps power_u64_128 wrap32_def Let_def)
  moreover have "mem_ok (\<lambda>_. True)" "length some_connect < 2 ^ 31" by (simp_all add: mem_ok_def some_connect_def)
  ultimately show ?thesis
    using conn_handler_safe [of True "\<lambda>_. True" some_connect 7 0 zero_param] by blast
qed

end
