(* ===== verification/Login.thy ===== *)
theory Login
  imports Connect
begin

text \<open>
  A client logs in: the credentials are looked up by \<^verbatim>\<open>verify_connect\<close> of \<^verbatim>\<open>mqtt_parser.c\<close>, and the CONNECT packets that the codec
  encodes reach the broker's handler as they were sent.
\<close>

section \<open>Credentials\<close>

text \<open>The part of \<^verbatim>\<open>struct conf\<close> that is read here: the pairs are \<^verbatim>\<open>usernames\<close> and \<^verbatim>\<open>passwords\<close>, as many as \<^verbatim>\<open>count\<close> says.\<close>

record conf =
  allow_anonymous :: bool
  auths_enable :: bool
  auths :: "(bytes \<times> bytes) list"

abbreviation BAD_USER_NAME_OR_PASSWORD :: nat where "BAD_USER_NAME_OR_PASSWORD \<equiv> 134"

text \<open>\<open>None\<close> is a comparison with a null pointer.\<close>

definition verify_connect :: "conn_param \<Rightarrow> conf \<Rightarrow> nat option" where
  "verify_connect cp c =
     (if allow_anonymous c then Some 0
      else if str_length (cp_username cp) = 0 \<or> str_length (cp_password cp) = 0 then
        Some (if cp_pro_ver cp = 5 then BAD_USER_NAME_OR_PASSWORD else 0x04)
      else if \<not> auths_enable c \<or> auths c = [] then Some 0
      else
        (case (str_body (cp_username cp), str_body (cp_password cp)) of
           (Some uname, Some pass) \<Rightarrow>
             Some (if list_ex (\<lambda>(u, p). cstr uname = cstr u \<and> cstr pass = cstr p) (auths c) then 0
                   else if cp_pro_ver cp = 5 then BAD_USER_NAME_OR_PASSWORD else 0x05)
         | _ \<Rightarrow> None))"

section \<open>A client connects\<close>

definition string_of :: "mqtt_buf \<Rightarrow> mqtt_string" where
  "string_of s = \<lparr>str_body = Some (str_bytes s), str_length = blen s\<rparr>"

definition sent_string :: "mqtt_buf \<Rightarrow> mqtt_string" where
  "sent_string s = (if blen s = 0 then null_string else string_of s)"

lemma mstring_string_of: "str_ok s \<Longrightarrow> mstring (Some (str_bytes s)) (int (blen s)) = string_of s"
  by (simp add: mstring_def string_of_def str_ok_def nat_mod_as_int)

text \<open>Reading a string where a client wrote one.\<close>

lemma string_at:
  assumes "str_ok s"
  shows "unat (NNI_GET16 (pre @ str_enc s @ post) (length pre)) = blen s"
    "bslice (Suc (Suc (length pre))) (blen s) (pre @ str_enc s @ post) = str_bytes s"
proof -
  have "NNI_GET16 (pre @ NNI_PUT16 (of_nat (blen s)) @ str_bytes s @ post) (length pre) = of_nat (blen s)"
    by (rule NNI_GET16_PUT16)
  then show "unat (NNI_GET16 (pre @ str_enc s @ post) (length pre)) = blen s"
    using assms by (simp add: str_enc_def str_ok_def unat_of_u16)
  show "bslice (Suc (Suc (length pre))) (blen s) (pre @ str_enc s @ post) = str_bytes s"
    using assms by (simp add: bslice_def str_enc_def NNI_PUT16_def)
qed

lemma copyn_utf8_at:
  assumes "mem_ok al" and "str_ok s" and "0 < blen s" and "utf8_text (str_bytes s)"
    and "length (pre @ str_enc s @ post) < 2 ^ 31"
  shows "copyn_utf8_str al (pre @ str_enc s @ post) (length pre) (room_left (length (pre @ str_enc s @ post)) (length pre)) =
    Some (Some (str_bytes s), int (blen s), length pre + 2 + blen s)"
  using assms string_at [OF assms(2), of pre post] length_str_bytes [OF assms(2)]
  by (auto simp: copyn_utf8_str_def room_eq Let_def utf8_check_text mem_ok_def str_ok_def)

lemma copyn_at:
  assumes "mem_ok al" and "str_ok s" and "0 < blen s" and "length (pre @ str_enc s @ post) < 2 ^ 31"
  shows "copyn_str al (pre @ str_enc s @ post) (length pre) (room_left (length (pre @ str_enc s @ post)) (length pre)) =
    Some (Some (str_bytes s), int (blen s), length pre + 2 + blen s)"
  using assms string_at [OF assms(2), of pre post]
  by (auto simp: copyn_str_def room_eq Let_def mem_ok_def)

text \<open>The stages of the handler on the parts of a CONNECT of MQTT 3.1 or 3.1.1.\<close>

definition begun_param :: "mqtt_buf \<Rightarrow> u8 \<Rightarrow> u8 \<Rightarrow> u16 \<Rightarrow> conn_param \<Rightarrow> conn_param" where
  "begun_param name v f t cp =
     cp\<lparr>cp_pro_name := string_of name, cp_pro_ver := v, cp_con_flag := f,
        cp_clean_start := drop_bit 1 (f AND 0x02), cp_will_flag := drop_bit 2 (f AND 0x04),
        cp_will_qos := drop_bit 3 (f AND 0x18), cp_will_retain := drop_bit 5 (f AND 0x20), cp_keepalive_mqtt := t\<rparr>"

definition name_ok :: "bytes \<Rightarrow> bool" where
  "name_ok s \<longleftrightarrow> take 4 s = mqtt_protocol_name \<or> take 6 s = mqtt_protocol_name_v31"

text \<open>The reserved flag is zero, and so are the flags of the will without a will.\<close>

definition will_bits_ok :: "u8 \<Rightarrow> bool" where
  "will_bits_ok f \<longleftrightarrow> f AND 0x01 = 0 \<and>
     (if will_flag f then drop_bit 3 f AND 3 \<le> 2 else drop_bit 3 f AND 3 = 0 \<and> drop_bit 5 f AND 1 = 0)"

lemma name_ne: "name_ok s \<Longrightarrow> s \<noteq> []"
  by (auto simp: name_ok_def mqtt_protocol_name_def mqtt_protocol_name_v31_def)

lemma will_flag_bits: "drop_bit 2 f AND 1 = of_bool (will_flag f)"
  by (simp add: will_flag_def and_one_eq mod_2_eq_odd bit_iff_odd_drop_bit)

lemma protocol_at:
  assumes "mem_ok al" and "str_ok name" and "name_ok (str_bytes name)" and "utf8_text (str_bytes name)"
    and "packet = pre @ str_enc name @ [v, f] @ NNI_PUT16 t @ post" and "length packet < 2 ^ 31"
    and "v = 3 \<or> v = 4" and "will_bits_ok f"
  shows "conn_protocol al packet (length packet) cp (length pre) =
    Some (Inr (begun_param name v f t cp, length (pre @ str_enc name @ [v, f] @ NNI_PUT16 t)))"
proof -
  have n: "0 < blen name"
    unfolding length_str_bytes [OF assms(2), symmetric] using name_ne [OF assms(3)] by simp
  let ?p = "length pre + 2 + blen name"
  have c: "copyn_utf8_str al packet (length pre) (room_left (length packet) (length pre)) =
      Some (Some (str_bytes name), int (blen name), ?p)"
    using copyn_utf8_at [OF assms(1,2) n assms(4), of pre "[v, f] @ NNI_PUT16 t @ post"] assms(5,6) by simp
  have l: "?p = length (pre @ str_enc name)" using assms(2) by simp
  have "packet ! ?p = v" "packet ! (?p + 1) = f"
    unfolding l assms(5) by (simp_all add: nth_append)
  moreover have "NNI_GET16 packet (?p + 2) = t"
    using NNI_GET16_PUT16 [of "pre @ str_enc name @ [v, f]" t post] assms(2,5) by simp
  moreover have "v AND 7 = v" "\<not> v > 5" "\<not> v < 3" using assms(7) by auto
  moreover have "?p + 4 \<le> length packet" using assms(2,5) by simp
  ultimately show ?thesis
    using assms(2,3,8) mstring_string_of [OF assms(2)]
    by (cases "will_flag f"; cases "take 4 (str_bytes name) = mqtt_protocol_name")
      (simp_all add: conn_protocol_def c Let_def begun_param_def will_bits_ok_def will_flag_bits name_ok_def not_less)
qed

lemma clientid_at:
  assumes "mem_ok al" and "str_ok c" and "0 < blen c" and "utf8_text (str_bytes c)"
    and "packet = pre @ str_enc c @ post" and "length packet < 2 ^ 31"
    and "cp_pro_ver cp \<noteq> 5" and "cp_pro_ver cp = 3 \<Longrightarrow> blen c \<le> 23"
  shows "conn_clientid st al rnd packet (length packet) cp (length pre) =
    Some (Inr (cp\<lparr>cp_clientid := string_of c\<rparr>, length (pre @ str_enc c)))"
proof -
  have "copyn_utf8_str al packet (length pre) (room_left (length packet) (length pre)) =
      Some (Some (str_bytes c), int (blen c), length pre + 2 + blen c)"
    using copyn_utf8_at [OF assms(1-4), of pre post] assms(5,6) by simp
  then show ?thesis
    using assms(2,3,7,8) mstring_string_of [OF assms(2)]
    by (auto simp: conn_clientid_def conn_assigned_def Let_def)
qed

lemma same_param:
  "cp_will_topic cp = a \<Longrightarrow> cp_will_msg cp = b \<Longrightarrow> cp\<lparr>cp_will_topic := a, cp_will_msg := b\<rparr> = cp"
  "cp_username cp = u \<Longrightarrow> cp\<lparr>cp_username := u\<rparr> = cp"
  "cp_password cp = p \<Longrightarrow> cp\<lparr>cp_password := p\<rparr> = cp"
  by (cases cp; simp)+

lemma will_at:
  assumes "mem_ok al" and "str_ok wt" and "str_ok wm" and "utf8_text (str_bytes wt)"
    and "packet = pre @ opt_enc wt @ opt_enc wm @ post" and "length packet < 2 ^ 31"
    and "cp_pro_ver cp \<noteq> 5" and "cp_payload_format_indicator cp = 0" and "untouched cp"
    and "cp_will_flag cp = of_bool (0 < blen wt)" and "0 < blen wt \<longleftrightarrow> 0 < blen wm"
    and "blen wt = 0 \<Longrightarrow> cp_will_qos cp = 0"
  shows "conn_will st al clock packet (length packet) cp (length pre) =
    Some (Inr (cp\<lparr>cp_will_topic := sent_string wt, cp_will_msg := sent_string wm\<rparr>,
      length (pre @ opt_enc wt @ opt_enc wm)))"
proof (cases "0 < blen wt")
  case True
  then have p: "packet = pre @ str_enc wt @ str_enc wm @ post" "0 < blen wm"
    using assms(5,11) by (simp_all add: opt_enc_def)
  have c: "copyn_utf8_str al packet (length pre) (room_left (length packet) (length pre)) =
      Some (Some (str_bytes wt), int (blen wt), length (pre @ str_enc wt))"
    using copyn_utf8_at [OF assms(1,2) True assms(4), of pre "str_enc wm @ post"] p(1) assms(2,6) by simp
  have "copyn_str al packet (length (pre @ str_enc wt)) (room_left (length packet) (length (pre @ str_enc wt))) =
      Some (Some (str_bytes wm), int (blen wm), length (pre @ str_enc wt @ str_enc wm))"
    using copyn_at [OF assms(1,3) p(2), of "pre @ str_enc wt" post] p(1) assms(3,6) by simp
  then show ?thesis
    using c True p(2) assms(7,8,10) mstring_string_of [OF assms(2)] mstring_string_of [OF assms(3)]
    by (simp add: conn_will_def conn_will_properties_def then_stage_def conn_will_message_def read_will_msg_def Let_def
        sent_string_def opt_enc_def)
next
  case False
  then show ?thesis
    using assms(9-12) same_param(1) [of cp null_string null_string]
    by (simp add: conn_will_def sent_string_def opt_enc_def untouched_def)
qed

lemma flag_bits: "0 < f AND 0x80 \<longleftrightarrow> username_flag f" "0 < f AND 0x40 \<longleftrightarrow> password_flag f" for f :: u8
  using bit_iff_and_push_bit_not_eq_0 [of f 7] bit_iff_and_push_bit_not_eq_0 [of f 6]
  by (simp_all add: username_flag_def password_flag_def word_gt_0)

lemma username_at:
  assumes "mem_ok al" and "str_ok u" and "utf8_text (str_bytes u)"
    and "packet = pre @ opt_enc u @ post" and "length packet < 2 ^ 31"
    and "username_flag (cp_con_flag cp) = (0 < blen u)" and "cp_username cp = null_string"
  shows "conn_username al packet (length packet) cp (length pre) =
    Some (Inr (cp\<lparr>cp_username := sent_string u\<rparr>, length (pre @ opt_enc u)))"
proof (cases "0 < blen u")
  case True
  have "copyn_utf8_str al packet (length pre) (room_left (length packet) (length pre)) =
      Some (Some (str_bytes u), int (blen u), length (pre @ str_enc u))"
    using copyn_utf8_at [OF assms(1,2) True assms(3), of pre post] True assms(2,4,5) by (simp add: opt_enc_def)
  then show ?thesis
    using True assms(6) mstring_string_of [OF assms(2)]
    by (simp add: conn_username_def flag_bits Let_def sent_string_def opt_enc_def)
next
  case False
  then show ?thesis
    using assms(6,7) same_param(2) [of cp null_string] by (simp add: conn_username_def flag_bits sent_string_def opt_enc_def)
qed

lemma password_at:
  assumes "mem_ok al" and "str_ok p" and "utf8_text (str_bytes p)"
    and "packet = pre @ opt_enc p @ post" and "length packet < 2 ^ 31"
    and "password_flag (cp_con_flag cp) = (0 < blen p)" and "cp_password cp = null_string"
    and "0 < blen p \<Longrightarrow> str_body (cp_username cp) \<noteq> None"
  shows "conn_password al packet (length packet) cp (length pre) =
    Some (Inr (cp\<lparr>cp_password := sent_string p\<rparr>, length (pre @ opt_enc p)))"
proof (cases "0 < blen p")
  case True
  have "copyn_utf8_str al packet (length pre) (room_left (length packet) (length pre)) =
      Some (Some (str_bytes p), int (blen p), length (pre @ str_enc p))"
    using copyn_utf8_at [OF assms(1,2) True assms(3), of pre post] True assms(2,4,5) by (simp add: opt_enc_def)
  then show ?thesis
    using True assms(6,8) mstring_string_of [OF assms(2)]
    by (simp add: conn_password_def flag_bits Let_def sent_string_def opt_enc_def)
next
  case False
  then show ?thesis
    using assms(6,7) same_param(3) [of cp null_string] by (simp add: conn_password_def flag_bits sent_string_def opt_enc_def)
qed

text \<open>
  The CONNECT packets, with the defaults of the encoder filled in, that the broker takes: of MQTT 3.1 or 3.1.1, with a known protocol name,
  strings that are text, flags as MQTT has them, a password only with a user name, and for MQTT 3.1 an identifier
  of at most 23 bytes.
\<close>

definition broker_takes :: "mqtt_msg \<Rightarrow> bool" where
  "broker_takes e \<longleftrightarrow> fh_common e = CMD_CONNECT \<and> (vh_version e = 3 \<or> vh_version e = 4) \<and> name_ok (str_bytes (vh_name e)) \<and>
     list_all (\<lambda>s. utf8_text (str_bytes s)) [vh_name e, client_id e, will_topic e, user_name e, password e] \<and>
     will_bits_ok (conn_flags e) \<and> (password_flag (conn_flags e) \<longrightarrow> username_flag (conn_flags e)) \<and>
     (vh_version e = 3 \<longrightarrow> blen (client_id e) \<le> 23)"

definition arrived :: "mqtt_msg \<Rightarrow> conn_param \<Rightarrow> conn_param" where
  "arrived e cp =
     (begun_param (vh_name e) (vh_version e) (conn_flags e) (vh_u16 e) cp)
       \<lparr>cp_clientid := string_of (client_id e), cp_will_topic := sent_string (will_topic e),
        cp_will_msg := sent_string (will_msg e), cp_username := sent_string (user_name e),
        cp_password := sent_string (password e)\<rparr>"

lemma handler_takes:
  assumes "mem_ok al" and "broker_takes e" and "flags_match (conn_flags e) e" and "0 < blen (client_id e)"
    and ok: "list_all str_ok [vh_name e, client_id e, will_topic e, will_msg e, user_name e, password e]"
    and len: "length (connect_body e) \<le> MQTT_MAX_MSG_LEN"
    and packet: "packet = CMD_CONNECT # write_var_loop 0 (length (connect_body e)) @ connect_body e"
  shows "conn_handler st al rnd clock packet (conn_param_init cp) (length packet) =
    Some (0, arrived e (conn_param_init cp))"
proof -
  let ?w = "write_var_loop 0 (length (connect_body e))" and ?cp = "conn_param_init cp"
  let ?p0 = "CMD_CONNECT # ?w" and ?t = "NNI_PUT16 (vh_u16 e)"
  let ?p1 = "?p0 @ str_enc (vh_name e) @ [vh_version e, conn_flags e] @ ?t"
  let ?p2 = "?p1 @ str_enc (client_id e)"
  let ?p3 = "?p2 @ opt_enc (will_topic e) @ opt_enc (will_msg e)"
  let ?p4 = "?p3 @ opt_enc (user_name e)"
  have w: "length ?w \<le> 4" using length_write_var_le [of "length (connect_body e)"] len by simp
  have small: "length packet < 2 ^ 31" using len w by (simp add: packet)
  have b: "broker_takes e" by (rule assms(2))
  have fm: "will_flag (conn_flags e) = (0 < blen (will_topic e))" "0 < blen (will_topic e) \<longleftrightarrow> 0 < blen (will_msg e)"
      "username_flag (conn_flags e) = (0 < blen (user_name e))" "password_flag (conn_flags e) = (0 < blen (password e))"
    using assms(3) unfolding flags_match_def by blast+
  let ?c1 = "begun_param (vh_name e) (vh_version e) (conn_flags e) (vh_u16 e) ?cp"
  let ?c2 = "?c1\<lparr>cp_clientid := string_of (client_id e)\<rparr>"
  let ?c3 = "?c2\<lparr>cp_will_topic := sent_string (will_topic e), cp_will_msg := sent_string (will_msg e)\<rparr>"
  let ?c4 = "?c3\<lparr>cp_username := sent_string (user_name e)\<rparr>"
  have s1: "conn_protocol al packet (length packet) ?cp (length ?p0) = Some (Inr (?c1, length ?p1))"
    using b ok by (intro protocol_at [OF assms(1) _ _ _ _ small]) (simp_all add: broker_takes_def packet connect_body_def)
  have v: "cp_pro_ver ?c1 \<noteq> 5" "cp_pro_ver ?c1 = vh_version e" using b by (auto simp: broker_takes_def begun_param_def)
  have s2: "conn_clientid st al rnd packet (length packet) ?c1 (length ?p1) = Some (Inr (?c2, length ?p2))"
    using b ok v by (intro clientid_at [OF assms(1) _ assms(4) _ _ small]) (simp_all add: broker_takes_def packet connect_body_def)
  have s3: "conn_will st al clock packet (length packet) ?c2 (length ?p2) = Some (Inr (?c3, length ?p3))"
    using b ok v fm by (intro will_at [OF assms(1) _ _ _ _ small])
      (simp_all add: broker_takes_def packet connect_body_def begun_param_def conn_param_init_def untouched_def will_flag_bits
        will_bits_ok_def)
  have s4: "conn_username al packet (length packet) ?c3 (length ?p3) = Some (Inr (?c4, length ?p4))"
    using b ok fm by (intro username_at [OF assms(1) _ _ _ small])
      (simp_all add: broker_takes_def packet connect_body_def begun_param_def conn_param_init_def)
  have s5: "conn_password al packet (length packet) ?c4 (length ?p4) =
      Some (Inr (arrived e ?cp, length (?p4 @ opt_enc (password e))))"
    unfolding arrived_def using b ok fm by (intro password_at [OF assms(1) _ _ _ small, where post = "[]"])
      (auto simp: broker_takes_def packet connect_body_def begun_param_def conn_param_init_def sent_string_def string_of_def)
  have "get_var_integer (?w @ connect_body e) 0 = Some (length (connect_body e), length ?w)"
    using len by (rule get_var_enc)
  moreover have "?cp\<lparr>cp_mount_point := None\<rparr> = ?cp" by (simp add: conn_param_init_def)
  moreover have "wrap32 (length (connect_body e) + length ?w + 1) = length (?p4 @ opt_enc (password e))"
    using small by (simp add: packet connect_body_def)
  ultimately show ?thesis
    using s1 s2 s3 s4 s5 v(1)
    by (simp add: conn_handler_def byte_at_def then_stage_def conn_properties_def packet del: length_append)
qed

lemma default_client_id:
  assumes "mem_ok al"
  shows "0 < blen (client_id (connect_out v rnd al d))"
  using assms random_client_id_ok(1) [of rnd]
  by (simp add: connect_out_def connect_defaults_def buf_default_def mqtt_buf_create_def mem_ok_def Let_def)

text \<open>Who may connect: anybody, if the configuration says so, else those with one of the pairs of credentials, or any credentials when
  no pairs are configured.\<close>

definition may_connect :: "conf \<Rightarrow> mqtt_msg \<Rightarrow> bool" where
  "may_connect c d \<longleftrightarrow> allow_anonymous c \<or> 0 < blen (user_name d) \<and> 0 < blen (password d) \<and>
     (auths_enable c \<and> auths c \<noteq> [] \<longrightarrow>
        (\<exists>(u, p) \<in> set (auths c). cstr (str_bytes (user_name d)) = cstr u \<and> cstr (str_bytes (password d)) = cstr p))"

lemma verify_arrived:
  "verify_connect (arrived e cp) c = Some 0 \<longleftrightarrow> may_connect c e" "verify_connect (arrived e cp) c \<noteq> None"
  by (auto simp: verify_connect_def may_connect_def arrived_def sent_string_def string_of_def begun_param_def list_ex_iff
      split: if_splits)


definition some_login :: mqtt_msg where
  "some_login = fresh\<lparr>fh_common := CMD_CONNECT, conn_flags := 0x02, client_id := some_topic, user_name := some_topic,
     password := some_topic\<rparr>"

definition some_conf :: conf where
  "some_conf = \<lparr>allow_anonymous = False, auths_enable = True, auths = [([0x62], [0x63]), ([0x61], [0x61])]\<rparr>"

lemma some_login_out:
  "connect_out 4 0 (\<lambda>_. True) (begun some_login) =
     (begun some_login)\<lparr>vh_name := \<lparr>blen = 4, bbuf = Some mqtt_protocol_name\<rparr>, vh_version := 4, conn_flags := 0xC2\<rparr>"
  by (simp add: connect_out_def connect_defaults_def connect_flags_def buf_default_def mqtt_buf_create_def keep_alive_default_def
      begun_def started_def some_login_def fresh_def nni_proto_data_init_def zero_mqtt_def some_topic_def mqtt_protocol_name_def
      set_field_def Let_def buf0_def)

lemma some_login_ok:
  "connect_ok (begun some_login)" "packet_type some_login = NNG_MQTT_CONNECT"
  "broker_takes (connect_out 4 0 (\<lambda>_. True) (begun some_login))"
  "length (connect_body (connect_out 4 0 (\<lambda>_. True) (begun some_login))) \<le> MQTT_MAX_MSG_LEN"
  "may_connect some_conf some_login"
proof -
  note defs = begun_def started_def some_login_def fresh_def nni_proto_data_init_def zero_mqtt_def buf0_def
  show "connect_ok (begun some_login)"
    by (simp add: connect_ok_def flags_match_def connect_flags_def defs str_ok_def some_topic_def set_field_def Let_def
        will_flag_def username_flag_def password_flag_def)
  show "packet_type some_login = NNG_MQTT_CONNECT" by (simp add: packet_type_def some_login_def)
  have "utf8_text mqtt_protocol_name" "utf8_text [0x61]"
    by (auto simp: mqtt_protocol_name_def intro!: ascii_text)
  then show "broker_takes (connect_out 4 0 (\<lambda>_. True) (begun some_login))"
    unfolding some_login_out by (simp add: broker_takes_def name_ok_def will_bits_ok_def will_flag_def username_flag_def password_flag_def
        str_bytes_def some_topic_def mqtt_protocol_name_def utf8_text_Nil defs)
  show "length (connect_body (connect_out 4 0 (\<lambda>_. True) (begun some_login))) \<le> MQTT_MAX_MSG_LEN"
    unfolding some_login_out by (simp add: connect_body_def str_enc_def str_bytes_def opt_enc_def mqtt_protocol_name_def some_topic_def defs)
  show "may_connect some_conf some_login"
    by (simp add: may_connect_def some_conf_def some_login_def some_topic_def str_bytes_def cstr_def)
qed


end
