(* ===== verification/Spec2Isabelle.thy ===== *)
theory Spec2Isabelle
  imports Message Lmq IdMap MqttAck Utf8 TopicFilter Crc SubInfo Login
begin

text \<open>
  A verification library for NanoNNG, the messaging library of the NanoMQ broker.

  \<^bold>\<open>Parts of the program.\<close> Under \<^verbatim>\<open>src/core\<close> are the containers that every protocol uses: messages with a
  header and a body, queues of messages, maps from identifiers to objects. Under
  \<^verbatim>\<open>src/supplemental/mqtt\<close> is the MQTT codec, which reads and writes the packets of both protocol
  versions in the header and body of a message. Under \<^verbatim>\<open>src/sp/protocol/mqtt\<close> is the broker's parser.

  \<^bold>\<open>Conventions.\<close> A struct is a record, with the fields under the names of the source; a function of the source is a
  definition with its name that takes the state it changes and returns it. Return codes are integers, as in
  C. \<^const>\<open>None\<close> stands for behaviour that C leaves undefined, or for a panic: a read outside a buffer, a member
  of a union that was not written, a list freed twice; so a theorem that a result is \<^const>\<open>Some\<close> says that none of this
  happens. Buffers are lists of bytes, sizes are natural numbers, reduced to their width where they
  can leave it. The allocator is an argument that says which requests succeed.

  \<^bold>\<open>Theories of the core.\<close>

  \<^item> \<open>Nng_Prelude\<close>: the types of machine integers and byte buffers, the error codes, the big-endian
    accessors of \<^verbatim>\<open>core/defs.h\<close>, copies into buffers, and the lemmas on lists and words that the components share.
  \<^item> \<open>Message\<close>: \<^verbatim>\<open>core/message.c\<close>. The chunk, a buffer with head room, and the message as records.
    Shared messages live in a store from addresses to messages. The lemmas give the effect of
    every operation on the bytes of header and body, and the reference counts: in every run the count of a
    message is the number of references that the program holds.
  \<^item> \<open>Lmq\<close>: \<^verbatim>\<open>core/lmq.c\<close>, the ring buffer of message pointers, refined to a bounded list. The capacities are
    below \<open>2 ^ 60\<close>, so that the size of the array in bytes fits \<^verbatim>\<open>size_t\<close>.
  \<^item> \<open>Probe\<close>: the probe sequence of the hash table, a full cycle over every table whose size is a power of two.
  \<^item> \<open>IdHash\<close>: \<^verbatim>\<open>core/idhash.c\<close>, the open-addressing table with skip counts; the loops over the table are partial functions.
  \<^item> \<open>IdMap\<close>: the invariant of the table, that all loops end, and that a history of operations gives
    the map it should. The counters are 32 bits wide and the table doubles its size; the theorems bound the number of
    entries by \<open>2 ^ 15\<close> and so the table by \<open>2 ^ 16\<close> cells, far from where the counters wrap.

  \<^bold>\<open>Theories of the MQTT codec.\<close>

  \<^item> \<open>MqttPrim\<close>: variable-length integers, strings, fixed-width integers, in \<^verbatim>\<open>mqtt_codec.c\<close> and \<^verbatim>\<open>mqtt_parser.c\<close>. The
    locale \<open>wire_codec\<close> is the contract of a writer and a reader; each pair of the source is an interpretation.
  \<^item> \<open>MqttProperty\<close>: the properties of MQTT 5: reading, writing, duplicating, removing, and their checks.
  \<^item> \<open>MqttMsg\<close>: the protocol data of a message, with the accessors of \<^verbatim>\<open>mqtt_msg.c\<close>. The unions of the
    variable headers and payloads are one record, in which packet types with the same layout share members.
  \<^item> \<open>MqttCodec\<close>: encoders and decoders of MQTT 3.1.1. The locale \<open>packet_codec\<close> is the contract of the encoder and the
    decoder of one packet type, interpreted for every type; the round trip of all packets follows from it.
  \<^item> \<open>MqttCodec5\<close>: encoders and decoders of MQTT 5, validation of packets, acknowledgements.
  \<^item> \<open>MqttValid\<close>: validating any bytes whatever, as either version, returns a result.
  \<^item> \<open>MqttRound5\<close>: the round trip of the packets of MQTT 5, and the packets for which it fails.
  \<^item> \<open>MqttAck\<close>: the packet identifiers of one and of several threads, the round trip of acknowledgements.

  \<^bold>\<open>Theories of the broker's parser,\<close> \<^verbatim>\<open>src/sp/protocol/mqtt/mqtt_parser.c\<close>.

  \<^item> \<open>Utf8\<close>: \<^verbatim>\<open>utf8_check\<close>. It accepts exactly the encodings of the characters that MQTT allows.
  \<^item> \<open>TopicFilter\<close>: topics are cut into levels and matched against the filters of subscriptions. The matching is the one that
    MQTT defines by levels and wildcards, also for the filters of shared subscriptions.
  \<^item> \<open>Crc\<close>: the hash functions. The tables and the loop over eight bytes at a time compute the checksums that are defined bit by bit.
  \<^item> \<open>SubInfo\<close>: the broker reads SUBSCRIBE and UNSUBSCRIBE packets into the list of a connection. The locale
    \<open>topic_table\<close> is the contract of the list. What clients encode and the broker reads has the effect of
    updates to a map; packets for which the parser is wrong are at the end.
  \<^item> \<open>Connect\<close>: \<^verbatim>\<open>conn_handler\<close> reads a CONNECT into the parameters of a connection. The handler is a sequence of stages, one for each
    part of the packet, that return early or go on. On every packet with a complete fixed header it reads only the
    packet, and what it accepts is well formed. Packets are shorter than \<open>2 ^ 31\<close> bytes, the range of the lengths that it keeps in an \<^verbatim>\<open>int\<close>.
  \<^item> \<open>Login\<close>: \<^verbatim>\<open>verify_connect\<close>, and the way of a CONNECT of MQTT 3.1 or 3.1.1 from the codec of the client through the handler
    to the decision on the credentials.

  Bodies are at most 268435455 bytes long, the largest length that MQTT can announce, where a theorem is about
  packets that are written; arbitrary bytes are shorter than \<open>2 ^ 32\<close>, the range of the lengths in the source.
  No theorem uses fuel: loops that end are functions with a termination proof, and the loops over the hash
  table are partial functions, with theorems that they return.

  \<^bold>\<open>Not modelled.\<close> Asynchronous operations, threads, sockets, pipes, transports, protocols and platforms: they are
  callbacks, locks and system calls, and there is little data to state a property of. Configuration files,
  databases and the libraries that other projects provide. In the broker's parser: the messages that are composed from
  the parameters of a connection, mount points, the topics that are queued for a client, the database of pipes, and the reference counts of the parameters. In the files that are modelled: the functions
  that print or log, and the wrappers in \<^verbatim>\<open>mqtt_public.c\<close> that only call a function of another file.
\<close>

end
